(* ===== verification/Prelude.thy ===== *)
theory Prelude
  imports Main "HOL-Library.Word" "HOL-Library.Sublist"
begin

text \<open>
  Shared ground of the development: the C++ exceptions the library throws as values, the result
  type of code that may throw, the operations of \<^verbatim>\<open>std::string\<close> the sources call (search, substring,
  the ASCII classes of \<^verbatim>\<open><cctype>\<close> in the C locale), and the list, option and string lemmas that
  several components use.  Strings are byte strings: a \<^typ>\<open>char\<close> is one byte, and positions are
  natural numbers with \<^verbatim>\<open>npos\<close> as \<^term>\<open>None\<close>.
\<close>

named_theorems str_simps "rewrite rules for the std::string operations"
named_theorems inv_intros "introduction rules for the invariants of the components"

section \<open>Exceptions and results\<close>

datatype exn =
    invalid_argument string
  | runtime_error string
  | out_of_range string
  | undefined_behaviour string
  | other_exception

text \<open>An access the C++ standard leaves undefined is the value \<^const>\<open>undefined_behaviour\<close>, so that a
  proof that code never reaches it is a statement about results.\<close>

type_synonym 'a result = "exn + 'a"

definition bind_result :: "'a result \<Rightarrow> ('a \<Rightarrow> 'b result) \<Rightarrow> 'b result" where
  "bind_result r f = (case r of Inl e \<Rightarrow> Inl e | Inr x \<Rightarrow> f x)"

definition throws :: "'a result \<Rightarrow> bool" where
  "throws r = (case r of Inl e \<Rightarrow> True | Inr x \<Rightarrow> False)"

section \<open>The regular expression engine\<close>

text \<open>The sources use \<^verbatim>\<open>std::regex\<close> through two operations only: construction from a pattern, which
  may throw, and a match of a whole string.  The engine is an argument of the model; the theorems
  hold for every engine.\<close>

record 're regex_engine =
  rx_compile :: "string \<Rightarrow> 're option"
  rx_match :: "'re \<Rightarrow> string \<Rightarrow> bool"

section \<open>The operations of std::string\<close>

text \<open>\<^term>\<open>find_char c s\<close> is \<^verbatim>\<open>s.find(c)\<close>.\<close>

primrec find_char :: "char \<Rightarrow> string \<Rightarrow> nat option" where
  "find_char c [] = None"
| "find_char c (x # xs) = (if x = c then Some 0 else map_option Suc (find_char c xs))"

definition find_from :: "string \<Rightarrow> char \<Rightarrow> nat \<Rightarrow> nat option" where
  "find_from s c start = map_option (\<lambda>i. start + i) (find_char c (drop start s))"

text \<open>\<^term>\<open>substr s pos n\<close> is \<^verbatim>\<open>s.substr(pos, n)\<close> for \<^verbatim>\<open>pos <= s.size()\<close>.\<close>

definition substr :: "string \<Rightarrow> nat \<Rightarrow> nat \<Rightarrow> string" where
  "substr s pos n = take n (drop pos s)"

text \<open>The last position whose byte satisfies a predicate: \<^verbatim>\<open>find_last_of\<close> and \<^verbatim>\<open>rfind\<close>.\<close>

primrec find_last :: "(char \<Rightarrow> bool) \<Rightarrow> string \<Rightarrow> nat option" where
  "find_last P [] = None"
| "find_last P (x # xs) =
     (case find_last P xs of Some i \<Rightarrow> Some (Suc i) | None \<Rightarrow> if P x then Some 0 else None)"

section \<open>ASCII classes\<close>

definition char_between :: "char \<Rightarrow> char \<Rightarrow> char \<Rightarrow> bool" where
  "char_between lo hi c = ((of_char lo :: nat) \<le> of_char c \<and> (of_char c :: nat) \<le> of_char hi)"

definition is_digit :: "char \<Rightarrow> bool" where
  "is_digit c = char_between CHR ''0'' CHR ''9'' c"

definition is_upper :: "char \<Rightarrow> bool" where
  "is_upper c = char_between CHR ''A'' CHR ''Z'' c"

definition is_lower :: "char \<Rightarrow> bool" where
  "is_lower c = char_between CHR ''a'' CHR ''z'' c"

text \<open>\<^verbatim>\<open>std::toupper\<close> and \<^verbatim>\<open>std::tolower\<close> in the C locale.\<close>

definition c_toupper :: "char \<Rightarrow> char" where
  "c_toupper c = (if is_lower c then char_of (of_char c - 32 :: nat) else c)"

definition c_tolower :: "char \<Rightarrow> char" where
  "c_tolower c = (if is_upper c then char_of (of_char c + 32 :: nat) else c)"

text \<open>The value of a \<^verbatim>\<open>char\<close> promoted to \<^verbatim>\<open>int\<close>, with \<^verbatim>\<open>char\<close> signed as on the supported platforms.\<close>

definition char_int :: "char \<Rightarrow> int" where
  "char_int c = (if (of_char c :: int) < 128 then of_char c else of_char c - 256)"

abbreviation NUL :: char where "NUL \<equiv> CHR 0x00"
abbreviation CR :: char where "CR \<equiv> CHR 0x0D"
abbreviation LF :: char where "LF \<equiv> CHR 0x0A"
abbreviation TAB :: char where "TAB \<equiv> CHR 0x09"

section \<open>Printing of numbers\<close>

definition digit_char :: "nat \<Rightarrow> char" where
  "digit_char d = (if d < 10 then char_of (48 + d) else char_of (87 + d))"

text \<open>\<^term>\<open>show_base b n\<close> prints \<^term>\<open>n\<close> in base \<^term>\<open>b\<close> with lower-case digits, as
  \<^verbatim>\<open>std::to_string\<close>, \<^verbatim>\<open>%u\<close> and \<^verbatim>\<open>%x\<close> do.\<close>

fun show_base :: "nat \<Rightarrow> nat \<Rightarrow> string" where
  "show_base b n =
     (if b < 2 then [] else if n < b then [digit_char n]
      else show_base b (n div b) @ [digit_char (n mod b)])"

declare show_base.simps [simp del]

definition show_nat :: "nat \<Rightarrow> string" where
  "show_nat n = show_base 10 n"

definition show_int :: "int \<Rightarrow> string" where
  "show_int i = (if i < 0 then CHR ''-'' # show_nat (nat (- i)) else show_nat (nat i))"

text \<open>\<open>join sep ts\<close> glues the pieces with a separator string.\<close>

fun join :: "string \<Rightarrow> string list \<Rightarrow> string" where
  "join sep [] = []"
| "join sep [t] = t"
| "join sep (t # u # ts) = t @ sep @ join sep (u # ts)"

section \<open>Lemmas on results and strings\<close>

lemma bind_result_simps [simp]:
  "bind_result (Inl e) f = Inl e"
  "bind_result (Inr x) f = f x"
  by (simp_all add: bind_result_def)

lemma throws_simps [simp]:
  "throws (Inl e)"
  "\<not> throws (Inr x)"
  by (simp_all add: throws_def)

lemma bind_result_Inr_iff:
  "bind_result r f = Inr y \<longleftrightarrow> (\<exists>x. r = Inr x \<and> f x = Inr y)"
  by (cases r) auto

lemma find_char_None [str_simps]: "find_char c s = None \<longleftrightarrow> c \<notin> set s"
  by (induction s) auto

lemma find_char_Some:
  "find_char c s = Some i \<Longrightarrow> i < length s \<and> s ! i = c \<and> c \<notin> set (take i s)"
  by (induction s arbitrary: i) (auto split: if_splits)

lemma find_char_append:
  "c \<notin> set p \<Longrightarrow> find_char c (p @ c # s) = Some (length p)"
  by (induction p) auto

lemma find_char_split:
  assumes "find_char c s = Some i"
  shows "s = take i s @ c # drop (Suc i) s"
  using find_char_Some [OF assms] id_take_nth_drop [of i s] by simp

lemma find_from_bounds:
  assumes "find_from s c start = Some e"
  shows "start \<le> e" "e < length s" "s ! e = c" "c \<notin> set (substr s start (e - start))"
proof -
  obtain i where i: "find_char c (drop start s) = Some i" "e = start + i"
    using assms by (auto simp: find_from_def)
  from find_char_Some [OF i(1)] i(2)
  show "start \<le> e" "e < length s" "s ! e = c" "c \<notin> set (substr s start (e - start))"
    by (auto simp: substr_def)
qed

lemma find_from_measure:
  "find_from s c start = Some e \<Longrightarrow> length s - Suc e < length s - start"
  using find_from_bounds(1,2) [of s c start e] by linarith

lemma find_last_None [str_simps]: "find_last P s = None \<longleftrightarrow> (\<forall>c \<in> set s. \<not> P c)"
  by (induction s) (auto split: option.splits)

lemma find_last_Some:
  "find_last P s = Some i \<Longrightarrow> i < length s \<and> P (s ! i) \<and> (\<forall>c \<in> set (drop (Suc i) s). \<not> P c)"
proof (induction s arbitrary: i)
  case (Cons x xs)
  then show ?case
    by (cases "find_last P xs") (auto simp: find_last_None split: if_splits)
qed simp

lemma length_substr_le [simp]: "length (substr s p n) \<le> n"
  by (simp add: substr_def)

lemma set_substr_subset: "set (substr s p n) \<subseteq> set s"
  unfolding substr_def by (meson in_set_dropD in_set_takeD subsetI)

lemma join_Cons: "ts \<noteq> [] \<Longrightarrow> join sep (t # ts) = t @ sep @ join sep ts"
  by (cases ts) auto

lemma join_eq_Nil: "[] \<notin> set ts \<Longrightarrow> join sep ts = [] \<longleftrightarrow> ts = []"
  by (induction sep ts rule: join.induct) auto

lemma join_snoc: "ts \<noteq> [] \<Longrightarrow> join sep (ts @ [t]) = join sep ts @ sep @ t"
  by (induction sep ts rule: join.induct) auto

lemma take_Suc_update: "n < length xs \<Longrightarrow> take (Suc n) (xs[n := x]) = take n xs @ [x]"
  by (simp add: take_Suc_conv_app_nth)

lemma drop_take_nth:
  "r < n \<Longrightarrow> n \<le> length xs \<Longrightarrow> drop r (take n xs) = xs ! r # drop (Suc r) (take n xs)"
  by (metis Cons_nth_drop_Suc length_take min.absorb2 nth_take)

lemma drop_take_update:
  "w < k \<Longrightarrow> drop k (take n (xs[w := x])) = drop k (take n xs)"
  by (simp add: drop_take)

lemma show_base_length: "n < 10 ^ Suc k \<Longrightarrow> length (show_base 10 n) \<le> Suc k"
proof (induction k arbitrary: n)
  case (Suc k)
  have "n div 10 < 10 ^ Suc k"
    using Suc.prems by (simp add: less_mult_imp_div_less mult.commute)
  from Suc.IH [OF this] show ?case
    by (subst show_base.simps) simp
qed (subst show_base.simps, simp)

end
