(* ===== verification/Hook_Bus.thy ===== *)
theory Hook_Bus
  imports Prelude
begin

text \<open>
  \<^verbatim>\<open>src/src/detail/hook_bus.cpp\<close>, \<^verbatim>\<open>src/src/resource_hook_table.cpp\<close>, \<^verbatim>\<open>src/src/hook_handle.cpp\<close> and the
  \<^verbatim>\<open>add_hook\<close> members of the server and of a resource: the eleven phases at which user code is called, the
  server-wide registry with its gates and its two alias slots, the registry of one resource, the
  handles that own a registration, and the firing loops that contain every exception.

  A callable is a name of type \<open>'f\<close>; what running it does is the argument \<open>run\<close> of the firing
  functions, a function on the context and on the whole environment.  A hook may therefore register
  and remove hooks while its phase fires.  The theorems hold for every \<open>run\<close>.  The copy of a vector
  before a loop is taken to succeed: running out of memory is not modelled.
\<close>

section \<open>Phases\<close>

datatype hook_phase =
    connection_opened
  | accept_decision
  | request_received
  | body_chunk
  | route_resolved
  | before_handler
  | handler_exception
  | after_handler
  | response_sent
  | request_completed
  | connection_closed
  | phase_count

definition phase_index :: "hook_phase \<Rightarrow> nat" where
  "phase_index p =
     (case p of connection_opened \<Rightarrow> 0 | accept_decision \<Rightarrow> 1 | request_received \<Rightarrow> 2 | body_chunk \<Rightarrow> 3
      | route_resolved \<Rightarrow> 4 | before_handler \<Rightarrow> 5 | handler_exception \<Rightarrow> 6 | after_handler \<Rightarrow> 7
      | response_sent \<Rightarrow> 8 | request_completed \<Rightarrow> 9 | connection_closed \<Rightarrow> 10 | phase_count \<Rightarrow> 11)"

definition phase_names :: "string list" where
  "phase_names =
     [''connection_opened'', ''accept_decision'', ''request_received'', ''body_chunk'',
      ''route_resolved'', ''before_handler'', ''handler_exception'', ''after_handler'',
      ''response_sent'', ''request_completed'', ''connection_closed'']"

definition phase_to_string :: "hook_phase \<Rightarrow> string" where
  "phase_to_string p =
     (if length phase_names \<le> phase_index p then [] else phase_names ! phase_index p)"

text \<open>The five phases a resource may subscribe to.\<close>

definition per_route_phase :: "hook_phase \<Rightarrow> bool" where
  "per_route_phase p =
     (p = before_handler \<or> p = handler_exception \<or> p = after_handler \<or> p = response_sent
      \<or> p = request_completed)"

section \<open>The server-wide registry\<close>

type_synonym slot_id = "64 word"
type_synonym 'f entries = "(slot_id \<times> 'f) list"

record 'f hook_bus =
  next_slot_id :: slot_id
  any_hooks :: "hook_phase \<Rightarrow> bool"
  hooks :: "hook_phase \<Rightarrow> 'f entries"
  handler_exception_alias :: "'f option"
  log_access_alias :: "'f option"

definition empty_bus :: "'f hook_bus" where
  "empty_bus =
     \<lparr>next_slot_id = 1, any_hooks = (\<lambda>p. False), hooks = (\<lambda>p. []),
      handler_exception_alias = None, log_access_alias = None\<rparr>"

definition add_impl ::
    "hook_phase \<Rightarrow> hook_phase \<Rightarrow> 'f option \<Rightarrow> 'f hook_bus \<Rightarrow> (slot_id \<times> 'f hook_bus) result" where
  "add_impl requested expected fn b =
     (if requested \<noteq> expected then
        Inl (invalid_argument
          (''hook phase mismatch: add_hook overload for '' @ phase_to_string expected
           @ '' received phase tag '' @ phase_to_string requested))
      else
        (case fn of
           None \<Rightarrow> Inl (invalid_argument ''hook callable must not be empty'')
         | Some f \<Rightarrow>
             let id = next_slot_id b in
             Inr (id, b\<lparr>next_slot_id := id + 1,
                        hooks := (hooks b)(expected := hooks b expected @ [(id, f)]),
                        any_hooks := (any_hooks b)(expected := True)\<rparr>)))"

text \<open>The overload is chosen by the parameter type of the callable, one type per phase.\<close>

datatype hook_signature =
    connection_open_sig
  | accept_sig
  | request_received_sig
  | body_chunk_sig
  | route_resolved_sig
  | before_handler_sig
  | handler_exception_sig
  | after_handler_sig
  | response_sent_sig
  | request_completed_sig
  | connection_close_sig

definition signature_phase :: "hook_signature \<Rightarrow> hook_phase" where
  "signature_phase g =
     (case g of connection_open_sig \<Rightarrow> connection_opened | accept_sig \<Rightarrow> accept_decision
      | request_received_sig \<Rightarrow> request_received | body_chunk_sig \<Rightarrow> body_chunk
      | route_resolved_sig \<Rightarrow> route_resolved | before_handler_sig \<Rightarrow> before_handler
      | handler_exception_sig \<Rightarrow> handler_exception | after_handler_sig \<Rightarrow> after_handler
      | response_sent_sig \<Rightarrow> response_sent | request_completed_sig \<Rightarrow> request_completed
      | connection_close_sig \<Rightarrow> connection_closed)"

definition bus_add ::
    "hook_signature \<Rightarrow> hook_phase \<Rightarrow> 'f option \<Rightarrow> 'f hook_bus \<Rightarrow> (slot_id \<times> 'f hook_bus) result" where
  "bus_add g requested fn b = add_impl requested (signature_phase g) fn b"

text \<open>The linear scan that erases the first entry with the given id.\<close>

fun erase_slot :: "slot_id \<Rightarrow> 'f entries \<Rightarrow> 'f entries" where
  "erase_slot i [] = []"
| "erase_slot i (e # es) = (if fst e = i then es else e # erase_slot i es)"

definition alias_still_wired :: "hook_phase \<Rightarrow> 'f hook_bus \<Rightarrow> bool" where
  "alias_still_wired p b =
     ((p = handler_exception \<and> handler_exception_alias b \<noteq> None)
      \<or> (p = response_sent \<and> log_access_alias b \<noteq> None))"

definition erase_and_reset :: "hook_phase \<Rightarrow> slot_id \<Rightarrow> 'f hook_bus \<Rightarrow> 'f hook_bus" where
  "erase_and_reset p i b =
     (if i \<in> fst ` set (hooks b p) then
        (let v = erase_slot i (hooks b p); b' = b\<lparr>hooks := (hooks b)(p := v)\<rparr> in
         if v = [] \<and> \<not> alias_still_wired p b then b'\<lparr>any_hooks := (any_hooks b)(p := False)\<rparr> else b')
      else b)"

definition bus_remove :: "hook_phase \<Rightarrow> slot_id \<Rightarrow> 'f hook_bus \<Rightarrow> 'f hook_bus" where
  "bus_remove p i b = (if p = phase_count then b else erase_and_reset p i b)"

definition set_handler_exception_alias :: "'f \<Rightarrow> 'f hook_bus \<Rightarrow> 'f hook_bus" where
  "set_handler_exception_alias f b =
     b\<lparr>handler_exception_alias := Some f, any_hooks := (any_hooks b)(handler_exception := True)\<rparr>"

definition set_log_access_alias :: "'f \<Rightarrow> 'f hook_bus \<Rightarrow> 'f hook_bus" where
  "set_log_access_alias f b = b\<lparr>log_access_alias := Some f\<rparr>"

definition has_hooks_for :: "hook_phase \<Rightarrow> 'f hook_bus \<Rightarrow> bool" where
  "has_hooks_for p b = any_hooks b p"

definition phase_hook_count :: "hook_phase \<Rightarrow> 'f hook_bus \<Rightarrow> nat" where
  "phase_hook_count p b = (if p = phase_count then 0 else length (hooks b p))"

section \<open>The registry of one resource\<close>

record 'f hook_table =
  table_next_id :: slot_id
  table_any_hooks :: "hook_phase \<Rightarrow> bool"
  table_hooks :: "hook_phase \<Rightarrow> 'f entries"

definition empty_table :: "'f hook_table" where
  "empty_table = \<lparr>table_next_id = 1, table_any_hooks = (\<lambda>p. False), table_hooks = (\<lambda>p. [])\<rparr>"

definition table_append :: "hook_phase \<Rightarrow> 'f \<Rightarrow> 'f hook_table \<Rightarrow> slot_id \<times> 'f hook_table" where
  "table_append p f t =
     (let id = table_next_id t in
      (id, t\<lparr>table_next_id := id + 1,
             table_hooks := (table_hooks t)(p := table_hooks t p @ [(id, f)]),
             table_any_hooks := (table_any_hooks t)(p := True)\<rparr>))"

definition remove_slot :: "hook_phase \<Rightarrow> slot_id \<Rightarrow> 'f hook_table \<Rightarrow> 'f hook_table" where
  "remove_slot p i t =
     (if per_route_phase p then
        (let v = erase_slot i (table_hooks t p); t' = t\<lparr>table_hooks := (table_hooks t)(p := v)\<rparr> in
         if v = [] then t'\<lparr>table_any_hooks := (table_any_hooks t)(p := False)\<rparr> else t')
      else t)"

section \<open>The environment of a running hook\<close>

text \<open>Everything user code can reach: the server's registry, the tables of the resources (shared by
  pointer, so a store from addresses; \<^term>\<open>None\<close> is a table that was never made or is destroyed), the
  lines sent to \<^verbatim>\<open>log_error\<close>, whether that callback is configured, and the rest of the world.\<close>

record ('f, 'w) hook_env =
  env_bus :: "'f hook_bus"
  env_tables :: "nat \<Rightarrow> 'f hook_table option"
  env_logging :: bool
  env_log :: "string list"
  env_world :: 'w

definition log_dispatch_error :: "string \<Rightarrow> ('f, 'w) hook_env \<Rightarrow> ('f, 'w) hook_env" where
  "log_dispatch_error msg e = (if env_logging e then e\<lparr>env_log := env_log e @ [msg]\<rparr> else e)"

text \<open>The text of an exception: \<^verbatim>\<open>what()\<close> of a \<^verbatim>\<open>std::exception\<close>, none for any other thrown value.\<close>

definition what_of :: "exn \<Rightarrow> string option" where
  "what_of x =
     (case x of invalid_argument s \<Rightarrow> Some s | runtime_error s \<Rightarrow> Some s | out_of_range s \<Rightarrow> Some s
      | undefined_behaviour s \<Rightarrow> Some s | other_exception \<Rightarrow> None)"

section \<open>Handles\<close>

text \<open>\<^term>\<open>impl_set\<close> tells a handle of the server (its \<^verbatim>\<open>impl_\<close> is not null) from one of a resource, which
  holds the address of a table.\<close>

record hook_handle =
  impl_set :: bool
  handle_slot :: slot_id
  handle_phase :: hook_phase
  armed :: bool
  table_weak :: "nat option"

definition default_handle :: hook_handle where
  "default_handle =
     \<lparr>impl_set = False, handle_slot = 0, handle_phase = phase_count, armed = False,
      table_weak = None\<rparr>"

definition disarm :: "hook_handle \<Rightarrow> hook_handle" where
  "disarm h = h\<lparr>armed := False, impl_set := False, table_weak := None\<rparr>"

definition handle_move_construct :: "hook_handle \<Rightarrow> hook_handle \<times> hook_handle" where
  "handle_move_construct other = (other, disarm other)"

definition remove_per_route ::
    "nat option \<Rightarrow> hook_phase \<Rightarrow> slot_id \<Rightarrow> ('f, 'w) hook_env \<Rightarrow> ('f, 'w) hook_env" where
  "remove_per_route weak p i e =
     (case weak of
        None \<Rightarrow> e
      | Some a \<Rightarrow>
          (case env_tables e a of
             None \<Rightarrow> e
           | Some t \<Rightarrow> e\<lparr>env_tables := (env_tables e)(a := Some (remove_slot p i t))\<rparr>))"

definition handle_remove ::
    "hook_handle \<Rightarrow> ('f, 'w) hook_env \<Rightarrow> hook_handle \<times> ('f, 'w) hook_env" where
  "handle_remove h e =
     (if \<not> armed h then (h, e)
      else if \<not> impl_set h then
        (h\<lparr>armed := False, table_weak := None\<rparr>,
         remove_per_route (table_weak h) (handle_phase h) (handle_slot h) e)
      else
        (h\<lparr>armed := False, impl_set := False\<rparr>,
         e\<lparr>env_bus := bus_remove (handle_phase h) (handle_slot h) (env_bus e)\<rparr>))"

text \<open>Move assignment between two distinct objects: the new target, the new source, the environment.\<close>

definition handle_move_assign ::
    "hook_handle \<Rightarrow> hook_handle \<Rightarrow> ('f, 'w) hook_env
      \<Rightarrow> hook_handle \<times> hook_handle \<times> ('f, 'w) hook_env" where
  "handle_move_assign self other e = (let (h, e') = handle_remove self e in (other, disarm other, e'))"

definition handle_destroy :: "hook_handle \<Rightarrow> ('f, 'w) hook_env \<Rightarrow> ('f, 'w) hook_env" where
  "handle_destroy h e = (if armed h then snd (handle_remove h e) else e)"

definition handle_detach :: "hook_handle \<Rightarrow> hook_handle \<times> hook_handle" where
  "handle_detach h = (h\<lparr>armed := False\<rparr>, disarm h)"

section \<open>Registration through the public interface\<close>

definition webserver_add_hook ::
    "hook_signature \<Rightarrow> hook_phase \<Rightarrow> 'f option \<Rightarrow> ('f, 'w) hook_env
      \<Rightarrow> (hook_handle \<times> ('f, 'w) hook_env) result" where
  "webserver_add_hook g requested fn e =
     bind_result (bus_add g requested fn (env_bus e))
       (\<lambda>(id, b). Inr (\<lparr>impl_set = True, handle_slot = id, handle_phase = signature_phase g,
                        armed = True, table_weak = None\<rparr>, e\<lparr>env_bus := b\<rparr>))"

definition throw_wrong_phase :: "hook_phase \<Rightarrow> hook_phase \<Rightarrow> exn" where
  "throw_wrong_phase requested expected =
     invalid_argument
       (''http_resource::add_hook: invalid phase '' @ phase_to_string requested
        @ '' -- per-route hooks accept only '' @ phase_to_string expected
        @ '' on this overload (and one of: before_handler, ''
        @ ''handler_exception, after_handler, response_sent, ''
        @ ''request_completed -- the post-route-resolution phases). ''
        @ ''Earlier phases (connection_opened, accept_decision, ''
        @ ''request_received, body_chunk, route_resolved, ''
        @ ''connection_closed) are server-scope only because the resource ''
        @ ''is not yet known when they fire.'')"

definition check_phase :: "hook_phase \<Rightarrow> hook_phase \<Rightarrow> unit result" where
  "check_phase requested expected =
     (if requested \<noteq> expected then Inl (throw_wrong_phase requested expected) else Inr ())"

definition check_fn :: "'f option \<Rightarrow> 'f result" where
  "check_fn fn =
     (case fn of
        None \<Rightarrow> Inl (invalid_argument ''http_resource::add_hook: hook callable must not be empty'')
      | Some f \<Rightarrow> Inr f)"

text \<open>\<open>ensure_table slot fresh e\<close>: the table the resource's slot points at, made at the address
  \<open>fresh\<close> when the slot is null.\<close>

definition ensure_table ::
    "nat option \<Rightarrow> nat \<Rightarrow> ('f, 'w) hook_env \<Rightarrow> nat \<times> ('f, 'w) hook_env" where
  "ensure_table slot fresh e =
     (case slot of
        Some a \<Rightarrow> (a, e)
      | None \<Rightarrow> (fresh, e\<lparr>env_tables := (env_tables e)(fresh := Some empty_table)\<rparr>))"

text \<open>The five overloads of \<^verbatim>\<open>http_resource::add_hook\<close>, which differ in the phase only (an overload exists for
  the signatures of a \<^const>\<open>per_route_phase\<close>); the result carries the resource's slot as the call leaves
  it.\<close>

definition resource_add_hook ::
    "hook_signature \<Rightarrow> hook_phase \<Rightarrow> 'f option \<Rightarrow> nat option \<Rightarrow> nat \<Rightarrow> ('f, 'w) hook_env
      \<Rightarrow> (hook_handle \<times> nat option \<times> ('f, 'w) hook_env) result" where
  "resource_add_hook g requested fn slot fresh e =
     bind_result (check_phase requested (signature_phase g)) (\<lambda>u.
     bind_result (check_fn fn) (\<lambda>f.
       let (a, e1) = ensure_table slot fresh e in
       case env_tables e1 a of
         None \<Rightarrow> Inl (undefined_behaviour ''null hook table'')
       | Some t \<Rightarrow>
           let (id, t') = table_append (signature_phase g) f t in
           Inr (\<lparr>impl_set = False, handle_slot = id, handle_phase = signature_phase g, armed = True,
                 table_weak = Some a\<rparr>,
                Some a, e1\<lparr>env_tables := (env_tables e1)(a := Some t')\<rparr>)))"

section \<open>Firing\<close>

datatype 'p hook_action = pass | respond_with 'p

text \<open>Running a callable on a context gives an action or an exception, the context as the callable
  leaves it, and the environment as it leaves it.  A callable of an observing phase gives an action
  that nothing reads.\<close>

type_synonym ('f, 'c, 'p, 'w) hook_runner =
  "'f \<Rightarrow> 'c \<Rightarrow> ('f, 'w) hook_env \<Rightarrow> 'p hook_action result \<times> 'c \<times> ('f, 'w) hook_env"

definition threw_line :: "string \<Rightarrow> exn \<Rightarrow> string" where
  "threw_line who x =
     (case what_of x of
        Some w \<Rightarrow> who @ '' threw: '' @ w
      | None \<Rightarrow> who @ '' threw unknown exception'')"

definition hook_threw :: "hook_phase \<Rightarrow> exn \<Rightarrow> string" where
  "hook_threw p x = threw_line (''hook['' @ phase_to_string p @ '']'') x"

definition route_hook_threw :: "hook_phase \<Rightarrow> exn \<Rightarrow> string" where
  "route_hook_threw p x = threw_line (''per-route hook['' @ phase_to_string p @ '']'') x"

text \<open>The loop over a snapshot in the observing phases: the context is constant, every entry runs.\<close>

fun observe_loop ::
    "('f, 'c, 'p, 'w) hook_runner \<Rightarrow> (exn \<Rightarrow> string) \<Rightarrow> 'f entries \<Rightarrow> 'c \<Rightarrow> ('f, 'w) hook_env
      \<Rightarrow> ('f, 'w) hook_env" where
  "observe_loop run line [] c e = e"
| "observe_loop run line (h # hs) c e =
     (case run (snd h) c e of
        (Inl x, c', e') \<Rightarrow> observe_loop run line hs c (log_dispatch_error (line x) e')
      | (Inr a, c', e') \<Rightarrow> observe_loop run line hs c e')"

text \<open>The loop in the phases that may answer: the first action that is not \<^const>\<open>pass\<close> ends it.\<close>

fun answer_loop ::
    "('f, 'c, 'p, 'w) hook_runner \<Rightarrow> (exn \<Rightarrow> string) \<Rightarrow> 'f entries \<Rightarrow> 'c \<Rightarrow> ('f, 'w) hook_env
      \<Rightarrow> 'p option \<times> 'c \<times> ('f, 'w) hook_env" where
  "answer_loop run line [] c e = (None, c, e)"
| "answer_loop run line (h # hs) c e =
     (case run (snd h) c e of
        (Inl x, c', e') \<Rightarrow> answer_loop run line hs c' (log_dispatch_error (line x) e')
      | (Inr pass, c', e') \<Rightarrow> answer_loop run line hs c' e'
      | (Inr (respond_with r), c', e') \<Rightarrow> (Some r, c', e'))"

definition fire_hooks_for_phase ::
    "('f, 'c, 'p, 'w) hook_runner \<Rightarrow> hook_phase \<Rightarrow> 'c \<Rightarrow> ('f, 'w) hook_env \<Rightarrow> ('f, 'w) hook_env" where
  "fire_hooks_for_phase run p c e =
     (let snapshot = hooks (env_bus e) p in
      if snapshot = [] then e else observe_loop run (hook_threw p) snapshot c e)"

definition fire_short_circuit_hooks_for_phase ::
    "('f, 'c, 'p, 'w) hook_runner \<Rightarrow> hook_phase \<Rightarrow> 'c \<Rightarrow> ('f, 'w) hook_env
      \<Rightarrow> 'p option \<times> 'c \<times> ('f, 'w) hook_env" where
  "fire_short_circuit_hooks_for_phase run p c e =
     (let snapshot = hooks (env_bus e) p in
      if snapshot = [] then (None, c, e) else answer_loop run (hook_threw p) snapshot c e)"

text \<open>A callable of \<^const>\<open>handler_exception\<close> gets a constant context.\<close>

definition const_ctx :: "('f, 'c, 'p, 'w) hook_runner \<Rightarrow> ('f, 'c, 'p, 'w) hook_runner" where
  "const_ctx run f c e = (case run f c e of (a, c', e') \<Rightarrow> (a, c, e'))"

definition fire_handler_exception ::
    "('f, 'c, 'p, 'w) hook_runner \<Rightarrow> 'c \<Rightarrow> ('f, 'w) hook_env \<Rightarrow> 'p option \<times> ('f, 'w) hook_env" where
  "fire_handler_exception run c e =
     (case answer_loop (const_ctx run) (hook_threw handler_exception)
             (hooks (env_bus e) handler_exception) c e of
        (Some r, c', e') \<Rightarrow> (Some r, e')
      | (None, c', e') \<Rightarrow>
          (case handler_exception_alias (env_bus e') of
             None \<Rightarrow> (None, e')
           | Some f \<Rightarrow>
               (case run f c e' of
                  (Inr (respond_with r), c'', e'') \<Rightarrow> (Some r, e'')
                | (Inr pass, c'', e'') \<Rightarrow> (None, e'')
                | (Inl x, c'', e'') \<Rightarrow>
                    (None, log_dispatch_error (threw_line ''internal_error_handler'' x) e''))))"

definition fire_response_sent ::
    "('f, 'c, 'p, 'w) hook_runner \<Rightarrow> 'c \<Rightarrow> ('f, 'w) hook_env \<Rightarrow> ('f, 'w) hook_env" where
  "fire_response_sent run c e =
     (let e' = fire_hooks_for_phase run response_sent c e in
      case log_access_alias (env_bus e') of
        None \<Rightarrow> e'
      | Some f \<Rightarrow>
          (case run f c e' of
             (Inr a, c'', e'') \<Rightarrow> e''
           | (Inl x, c'', e'') \<Rightarrow> log_dispatch_error (threw_line ''log_access alias'' x) e''))"

text \<open>The chains of a resource's table.\<close>

definition table_fire_void ::
    "('f, 'c, 'p, 'w) hook_runner \<Rightarrow> hook_phase \<Rightarrow> 'f hook_table \<Rightarrow> 'c \<Rightarrow> ('f, 'w) hook_env
      \<Rightarrow> ('f, 'w) hook_env" where
  "table_fire_void run p t c e = observe_loop run (route_hook_threw p) (table_hooks t p) c e"

definition table_fire_short_circuit ::
    "('f, 'c, 'p, 'w) hook_runner \<Rightarrow> hook_phase \<Rightarrow> 'f hook_table \<Rightarrow> 'c \<Rightarrow> ('f, 'w) hook_env
      \<Rightarrow> 'p option \<times> 'c \<times> ('f, 'w) hook_env" where
  "table_fire_short_circuit run p t c e = answer_loop run (route_hook_threw p) (table_hooks t p) c e"

section \<open>Invariants\<close>

text \<open>Ids are distinct and below the counter, a nonempty vector and a wired
  \<^const>\<open>handler_exception_alias\<close> have their gate set, and a set gate has an entry or an alias behind it.\<close>

definition entries_ok :: "slot_id \<Rightarrow> 'f entries \<Rightarrow> bool" where
  "entries_ok n es = (distinct (map fst es) \<and> list_all (\<lambda>i. i < n) (map fst es))"

definition bus_inv :: "'f hook_bus \<Rightarrow> bool" where
  "bus_inv b =
     (hooks b phase_count = []
      \<and> (handler_exception_alias b \<noteq> None \<longrightarrow> any_hooks b handler_exception)
      \<and> (\<forall>p. entries_ok (next_slot_id b) (hooks b p)
           \<and> (hooks b p \<noteq> [] \<longrightarrow> any_hooks b p)
           \<and> (any_hooks b p \<longrightarrow> hooks b p \<noteq> [] \<or> alias_still_wired p b)))"

definition rtable_inv :: "'f hook_table \<Rightarrow> bool" where
  "rtable_inv t =
     (\<forall>p. entries_ok (table_next_id t) (table_hooks t p)
          \<and> (table_any_hooks t p \<longleftrightarrow> table_hooks t p \<noteq> [])
          \<and> (table_hooks t p \<noteq> [] \<longrightarrow> per_route_phase p))"

section \<open>Lemmas on slots\<close>

lemma erase_slot_absent [simp]: "i \<notin> fst ` set es \<Longrightarrow> erase_slot i es = es"
  by (induction es) auto

lemma erase_slot_filter:
  "distinct (map fst es) \<Longrightarrow> erase_slot i es = filter (\<lambda>e. fst e \<noteq> i) es"
proof (induction es)
  case (Cons e es)
  then show ?case by (cases "fst e = i") (auto intro!: filter_True [symmetric])
qed simp

lemma erase_slot_subset: "set (erase_slot i es) \<subseteq> set es"
  by (induction es) auto

lemma entries_ok_erase: "entries_ok n es \<Longrightarrow> entries_ok n (erase_slot i es)"
  by (auto simp: entries_ok_def erase_slot_filter list_all_iff distinct_map_filter)

lemma entries_ok_mono: "entries_ok n es \<Longrightarrow> n \<le> m \<Longrightarrow> entries_ok m es"
  by (auto simp: entries_ok_def list_all_iff)

lemma entries_ok_snoc:
  "entries_ok n es \<Longrightarrow> n < m \<Longrightarrow> entries_ok m (es @ [(n, f)])"
  by (force simp: entries_ok_def list_all_iff)

lemma entries_ok_fresh: "entries_ok n es \<Longrightarrow> n \<notin> fst ` set es"
  by (force simp: entries_ok_def list_all_iff)

lemma erase_slot_snoc:
  "i \<notin> fst ` set es \<Longrightarrow> erase_slot i (es @ [(i, f)]) = es"
  by (induction es) auto

lemma next_id_less: "(n :: slot_id) \<noteq> - 1 \<Longrightarrow> n < n + 1"
proof -
  assume "n \<noteq> - 1"
  then have "1 + n \<noteq> 0" by (simp add: eq_neg_iff_add_eq_0 add.commute)
  then have "unat (1 + n) = Suc (unat n)" by (rule unatSuc)
  then show ?thesis by (simp add: word_less_nat_alt add.commute)
qed

lemma entries_ok_Nil [simp]: "entries_ok n []"
  by (simp add: entries_ok_def)

section \<open>The contract of a registry\<close>

text \<open>What the server-wide registry and the table of a resource have in common: attaching appends an entry
  under the counter, detaching erases by id, and a phase with an entry has its gate set.\<close>

datatype 'f registry_op = Attach hook_phase 'f | Detach hook_phase slot_id

primrec detaches :: "hook_phase \<Rightarrow> slot_id \<Rightarrow> 'f registry_op \<Rightarrow> bool" where
  "detaches p i (Attach q f) = False"
| "detaches p i (Detach q j) = (q = p \<and> j = i)"

primrec attaches_within :: "(hook_phase \<Rightarrow> bool) \<Rightarrow> 'f registry_op \<Rightarrow> bool" where
  "attaches_within P (Attach q f) = P q"
| "attaches_within P (Detach q j) = True"

locale hook_registry =
  fixes entries_of :: "'s \<Rightarrow> hook_phase \<Rightarrow> 'f entries"
    and gate :: "'s \<Rightarrow> hook_phase \<Rightarrow> bool"
    and next_id :: "'s \<Rightarrow> slot_id"
    and attach :: "hook_phase \<Rightarrow> 'f \<Rightarrow> 's \<Rightarrow> slot_id \<times> 's"
    and detach :: "hook_phase \<Rightarrow> slot_id \<Rightarrow> 's \<Rightarrow> 's"
    and inv :: "'s \<Rightarrow> bool"
    and admits :: "hook_phase \<Rightarrow> bool"
  assumes attach_id: "fst (attach p f s) = next_id s"
    and attach_next: "next_id (snd (attach p f s)) = next_id s + 1"
    and attach_entries:
      "entries_of (snd (attach p f s)) = (entries_of s)(p := entries_of s p @ [(next_id s, f)])"
    and attach_inv: "inv s \<Longrightarrow> admits p \<Longrightarrow> next_id s \<noteq> - 1 \<Longrightarrow> inv (snd (attach p f s))"
    and detach_next: "next_id (detach p i s) = next_id s"
    and detach_entries:
      "inv s \<Longrightarrow> entries_of (detach p i s) = (entries_of s)(p := erase_slot i (entries_of s p))"
    and detach_inv: "inv s \<Longrightarrow> inv (detach p i s)"
    and inv_ids: "inv s \<Longrightarrow> entries_ok (next_id s) (entries_of s p)"
    and inv_gate: "inv s \<Longrightarrow> entries_of s p \<noteq> [] \<Longrightarrow> gate s p"
begin

primrec apply_op :: "'f registry_op \<Rightarrow> 's \<Rightarrow> 's" where
  "apply_op (Attach p f) s = snd (attach p f s)"
| "apply_op (Detach p i) s = detach p i s"

lemma attach_then_detach:
  assumes "inv s" "admits p" "next_id s \<noteq> - 1"
  shows "entries_of (detach p (fst (attach p f s)) (snd (attach p f s))) = entries_of s"
  using detach_entries [OF attach_inv [OF assms]]
  by (auto simp: attach_id attach_entries erase_slot_snoc entries_ok_fresh [OF inv_ids [OF assms(1)]])

lemma detach_twice:
  assumes "inv s"
  shows "entries_of (detach p i (detach p i s)) = entries_of (detach p i s)"
proof -
  have "distinct (map fst (entries_of s p))" using inv_ids [OF assms] by (simp add: entries_ok_def)
  moreover have "distinct (map fst (filter (\<lambda>e. fst e \<noteq> i) (entries_of s p)))"
    using calculation by (rule distinct_map_filter)
  ultimately show ?thesis
    by (simp add: detach_entries [OF assms] detach_entries [OF detach_inv [OF assms]] erase_slot_filter)
qed

lemma detach_other:
  assumes "inv s" "(p, i) \<noteq> (q, j)" "(i, f) \<in> set (entries_of s p)"
  shows "(i, f) \<in> set (entries_of (detach q j s) p)"
  using assms inv_ids [OF assms(1), of q]
  by (auto simp: detach_entries entries_ok_def erase_slot_filter)

lemma head_survives:
  assumes "inv s" "\<not> detaches p i op" "entries_of s p = (i, f) # es"
  shows "\<exists>es'. entries_of (apply_op op s) p = (i, f) # es'"
  using assms by (cases op) (auto simp: attach_entries detach_entries)

lemma history_keeps_head:
  assumes "inv s" "entries_of s p = (i, f) # es" "list_all (\<lambda>op. \<not> detaches p i op) ops"
    "list_all (attaches_within admits) ops" "unat (next_id s) + length ops < 2 ^ 64"
  shows "inv (fold apply_op ops s) \<and> (\<exists>es'. entries_of (fold apply_op ops s) p = (i, f) # es')"
  using assms
proof (induction ops arbitrary: s es)
  case (Cons op ops)
  have room: "next_id s \<noteq> - 1"
    using Cons.prems(5) by (auto simp: unsigned_minus_1_eq_mask mask_eq_exp_minus_1)
  have step: "inv (apply_op op s)"
    using Cons.prems room by (cases op) (auto intro: attach_inv detach_inv)
  have grow: "unat (next_id (apply_op op s)) \<le> unat (next_id s) + 1"
    using Cons.prems(5) by (cases op) (auto simp: attach_next detach_next unat_word_ariths)
  obtain es' where "entries_of (apply_op op s) p = (i, f) # es'"
    using head_survives [OF Cons.prems(1) _ Cons.prems(2)] Cons.prems(3) by auto
  with Cons.IH [OF step this] Cons.prems grow show ?case by simp
qed simp

end

definition bus_attach :: "hook_phase \<Rightarrow> 'f \<Rightarrow> 'f hook_bus \<Rightarrow> slot_id \<times> 'f hook_bus" where
  "bus_attach p f b = (case add_impl p p (Some f) b of Inr r \<Rightarrow> r | Inl x \<Rightarrow> (0, b))"

lemma add_impl_attach: "add_impl p p (Some f) b = Inr (bus_attach p f b)"
  by (simp add: bus_attach_def add_impl_def Let_def)

lemma bus_add_Inr_iff:
  "bus_add g p fn b = Inr r \<longleftrightarrow> p = signature_phase g \<and> (\<exists>f. fn = Some f \<and> r = bus_attach p f b)"
  by (auto simp: bus_add_def add_impl_def bus_attach_def Let_def split: option.splits)

lemma bus_attach_simps:
  "bus_attach p f b =
     (next_slot_id b,
      b\<lparr>next_slot_id := next_slot_id b + 1,
        hooks := (hooks b)(p := hooks b p @ [(next_slot_id b, f)]),
        any_hooks := (any_hooks b)(p := True)\<rparr>)"
  by (simp add: bus_attach_def add_impl_def Let_def)

lemma signature_phase_real [simp]: "signature_phase g \<noteq> phase_count"
  by (cases g) (simp_all add: signature_phase_def)

lemma bus_remove_hooks:
  assumes "hooks b phase_count = []"
  shows "hooks (bus_remove p i b) = (hooks b)(p := erase_slot i (hooks b p))"
  using assms by (auto simp: bus_remove_def erase_and_reset_def Let_def)

lemma bus_remove_kept [simp]:
  "next_slot_id (bus_remove p i b) = next_slot_id b"
  "handler_exception_alias (bus_remove p i b) = handler_exception_alias b"
  "log_access_alias (bus_remove p i b) = log_access_alias b"
  by (simp_all add: bus_remove_def erase_and_reset_def Let_def)

lemma bus_inv_add:
  assumes "bus_inv b" "p \<noteq> phase_count" "next_slot_id b \<noteq> - 1"
  shows "bus_inv (snd (bus_attach p f b))"
proof -
  note less = next_id_less [OF assms(3)]
  show ?thesis
    using assms less
    by (auto simp: bus_inv_def bus_attach_simps alias_still_wired_def
        intro: entries_ok_snoc entries_ok_mono [OF _ less_imp_le [OF less]])
qed

lemma bus_inv_remove:
  assumes "bus_inv b"
  shows "bus_inv (bus_remove p i b)"
proof (cases "i \<in> fst ` set (hooks b p)")
  case True
  then have "hooks b p \<noteq> []" by auto
  moreover from this have "any_hooks b p" using assms by (simp add: bus_inv_def)
  ultimately show ?thesis
    using assms
    by (auto simp: bus_inv_def bus_remove_def erase_and_reset_def Let_def alias_still_wired_def
        intro: entries_ok_erase)
next
  case False
  then show ?thesis using assms by (simp add: bus_remove_def erase_and_reset_def)
qed

lemma bus_invD:
  assumes "bus_inv b"
  shows "hooks b phase_count = []" "entries_ok (next_slot_id b) (hooks b p)"
    "hooks b p \<noteq> [] \<Longrightarrow> any_hooks b p"
    "any_hooks b p \<Longrightarrow> hooks b p \<noteq> [] \<or> alias_still_wired p b"
    "handler_exception_alias b \<noteq> None \<Longrightarrow> any_hooks b handler_exception"
  using assms by (auto simp: bus_inv_def)

interpretation bus: hook_registry hooks any_hooks next_slot_id bus_attach bus_remove bus_inv
  "\<lambda>p. p \<noteq> phase_count"
  by unfold_locales
    (simp_all add: bus_attach_simps bus_inv_add [unfolded bus_attach_simps snd_conv] bus_inv_remove
      bus_remove_hooks bus_invD)

lemma rtable_inv_append:
  assumes "rtable_inv t" "per_route_phase p" "table_next_id t \<noteq> - 1"
  shows "rtable_inv (snd (table_append p f t))"
proof -
  note less = next_id_less [OF assms(3)]
  show ?thesis
    using assms less
    by (auto simp: rtable_inv_def table_append_def Let_def
        intro: entries_ok_snoc entries_ok_mono [OF _ less_imp_le [OF less]])
qed

lemma rtable_inv_remove: "rtable_inv t \<Longrightarrow> rtable_inv (remove_slot p i t)"
  using erase_slot_subset [of i "table_hooks t p"]
  by (auto simp: rtable_inv_def remove_slot_def Let_def intro: entries_ok_erase)

lemma table_remove_hooks:
  assumes "rtable_inv t"
  shows "table_hooks (remove_slot p i t) = (table_hooks t)(p := erase_slot i (table_hooks t p))"
proof (cases "per_route_phase p")
  case False
  then have "table_hooks t p = []" using assms by (auto simp: rtable_inv_def)
  with False show ?thesis by (simp add: remove_slot_def fun_upd_idem)
qed (simp add: remove_slot_def Let_def)

lemma remove_slot_next [simp]: "table_next_id (remove_slot p i t) = table_next_id t"
  by (simp add: remove_slot_def Let_def)

lemma rtable_invD:
  assumes "rtable_inv t"
  shows "entries_ok (table_next_id t) (table_hooks t p)"
    "table_hooks t p \<noteq> [] \<Longrightarrow> table_any_hooks t p"
  using assms by (auto simp: rtable_inv_def)

interpretation rtable: hook_registry table_hooks table_any_hooks table_next_id table_append remove_slot
  rtable_inv per_route_phase
  by unfold_locales
    (simp_all add: table_append_def Let_def rtable_inv_append [unfolded table_append_def Let_def snd_conv]
      rtable_inv_remove table_remove_hooks rtable_invD)

section \<open>Histories of handles\<close>

text \<open>A program that holds handles at addresses (\<open>hs a\<close> is disarmed where there is none) registers,
  removes, moves, detaches and destroys them in any order, and destroys resources with their tables.
  A new table gets an address no handle refers to, and the 64-bit counters do not run out.\<close>

type_synonym ('f, 'w) handle_state = "(nat \<Rightarrow> hook_handle) \<times> ('f, 'w) hook_env"

inductive handle_step :: "('f, 'w) handle_state \<Rightarrow> ('f, 'w) handle_state \<Rightarrow> bool" where
  add_server:
    "webserver_add_hook g p fn e = Inr (h, e') \<Longrightarrow> \<not> armed (hs a) \<Longrightarrow>
     next_slot_id (env_bus e) \<noteq> - 1 \<Longrightarrow> handle_step (hs, e) (hs(a := h), e')"
| add_first_route:
    "resource_add_hook g p fn None fresh e = Inr (h, slot, e') \<Longrightarrow> per_route_phase (signature_phase g) \<Longrightarrow>
     \<not> armed (hs a) \<Longrightarrow> env_tables e fresh = None \<Longrightarrow> (\<forall>b. table_weak (hs b) \<noteq> Some fresh) \<Longrightarrow>
     handle_step (hs, e) (hs(a := h), e')"
| add_route:
    "resource_add_hook g p fn (Some x) fresh e = Inr (h, slot, e') \<Longrightarrow>
     per_route_phase (signature_phase g) \<Longrightarrow> \<not> armed (hs a) \<Longrightarrow> env_tables e x = Some t \<Longrightarrow>
     table_next_id t \<noteq> - 1 \<Longrightarrow> handle_step (hs, e) (hs(a := h), e')"
| remove_handle: "handle_remove (hs a) e = (h, e') \<Longrightarrow> handle_step (hs, e) (hs(a := h), e')"
| destroy_handle: "handle_step (hs, e) (hs(a := default_handle), handle_destroy (hs a) e)"
| move_handle:
    "handle_move_construct (hs a) = (h, src) \<Longrightarrow> a \<noteq> b \<Longrightarrow> \<not> armed (hs b) \<Longrightarrow>
     handle_step (hs, e) (hs(b := h, a := src), e)"
| assign_handle:
    "handle_move_assign (hs b) (hs a) e = (h, src, e') \<Longrightarrow> a \<noteq> b \<Longrightarrow>
     handle_step (hs, e) (hs(b := h, a := src), e')"
| detach_handle:
    "handle_detach (hs a) = (h, src) \<Longrightarrow> a \<noteq> b \<Longrightarrow> \<not> armed (hs b) \<Longrightarrow>
     handle_step (hs, e) (hs(b := h, a := src), e)"
| destroy_resource: "handle_step (hs, e) (hs, e\<lparr>env_tables := (env_tables e)(x := None)\<rparr>)"
| other_work: "handle_step (hs, e) (hs, e\<lparr>env_log := l, env_world := w\<rparr>)"

text \<open>Where a handle's registration lives, and the entries there (\<^term>\<open>None\<close> for a destroyed table).\<close>

definition handle_key :: "hook_handle \<Rightarrow> nat option \<times> hook_phase \<times> slot_id" where
  "handle_key h = (if impl_set h then None else table_weak h, handle_phase h, handle_slot h)"

definition entries_at :: "('f, 'w) hook_env \<Rightarrow> nat option \<Rightarrow> hook_phase \<Rightarrow> 'f entries option" where
  "entries_at e loc p =
     (case loc of None \<Rightarrow> Some (hooks (env_bus e) p)
      | Some a \<Rightarrow> map_option (\<lambda>t. table_hooks t p) (env_tables e a))"

definition registered :: "('f, 'w) hook_env \<Rightarrow> nat option \<times> hook_phase \<times> slot_id \<Rightarrow> bool" where
  "registered e k =
     (case entries_at e (fst k) (fst (snd k)) of
        None \<Rightarrow> True | Some es \<Rightarrow> snd (snd k) \<in> fst ` set es)"

definition env_ok :: "('f, 'w) hook_env \<Rightarrow> bool" where
  "env_ok e = (bus_inv (env_bus e) \<and> (\<forall>a t. env_tables e a = Some t \<longrightarrow> rtable_inv t))"

definition handles_ok :: "('f, 'w) handle_state \<Rightarrow> bool" where
  "handles_ok st =
     (let (hs, e) = st in
      env_ok e
      \<and> (\<forall>a. armed (hs a) \<longrightarrow> (impl_set (hs a) \<or> table_weak (hs a) \<noteq> None) \<and> registered e (handle_key (hs a)))
      \<and> (\<forall>a b. armed (hs a) \<longrightarrow> armed (hs b) \<longrightarrow> handle_key (hs a) = handle_key (hs b) \<longrightarrow> a = b))"

definition erase_key ::
    "nat option \<times> hook_phase \<times> slot_id \<Rightarrow> ('f, 'w) hook_env \<Rightarrow> ('f, 'w) hook_env" where
  "erase_key k e =
     (case k of
        (None, p, i) \<Rightarrow> e\<lparr>env_bus := bus_remove p i (env_bus e)\<rparr>
      | (Some a, p, i) \<Rightarrow> remove_per_route (Some a) p i e)"

lemma handle_remove_erase:
  assumes "armed h" "impl_set h \<or> table_weak h \<noteq> None"
  shows "snd (handle_remove h e) = erase_key (handle_key h) e"
    "\<not> armed (fst (handle_remove h e))"
  using assms by (auto simp: handle_remove_def erase_key_def handle_key_def)

lemma handle_remove_disarmed [simp]: "\<not> armed h \<Longrightarrow> handle_remove h e = (h, e)"
  by (simp add: handle_remove_def)

lemma env_ok_erase_key: "env_ok e \<Longrightarrow> env_ok (erase_key k e)"
  by (auto simp: env_ok_def erase_key_def remove_per_route_def bus_inv_remove rtable_inv_remove
      split: prod.splits option.splits if_splits)

lemma entries_at_erase_key:
  assumes "env_ok e"
  shows "entries_at (erase_key (l', q, j) e) l p =
    (if l = l' \<and> p = q then map_option (erase_slot j) (entries_at e l p) else entries_at e l p)"
proof (cases l')
  case None
  have "hooks (env_bus e) phase_count = []" using assms by (simp add: env_ok_def bus_invD)
  with None show ?thesis
    by (auto simp: erase_key_def entries_at_def bus_remove_hooks split: option.splits)
next
  case (Some a)
  then show ?thesis
    using assms
    by (cases "env_tables e a")
      (auto simp: erase_key_def entries_at_def remove_per_route_def table_remove_hooks env_ok_def
        split: option.splits)
qed

lemma entries_at_distinct:
  "env_ok e \<Longrightarrow> entries_at e l p = Some es \<Longrightarrow> distinct (map fst es)"
  using bus_invD(2) [of "env_bus e" p] rtable_invD(1)
  by (auto simp: env_ok_def entries_at_def entries_ok_def split: option.splits)

lemma registered_erase_other:
  assumes "env_ok e" "registered e k" "k \<noteq> k'"
  shows "registered (erase_key k' e) k"
proof -
  obtain l p i l' q j where k: "k = (l, p, i)" "k' = (l', q, j)" by (metis prod_cases3)
  show ?thesis
  proof (cases "entries_at e l p")
    case (Some es)
    with assms k entries_at_distinct [OF assms(1) Some] show ?thesis
      by (auto simp: registered_def entries_at_erase_key erase_slot_filter image_iff)
  qed (auto simp: registered_def k entries_at_erase_key [OF assms(1)])
qed

text \<open>A new registration: the entries of one place grow by an entry with a new id.\<close>

definition extends :: "('f, 'w) hook_env \<Rightarrow> ('f, 'w) hook_env \<Rightarrow> nat option \<times> hook_phase \<times> slot_id \<Rightarrow> bool" where
  "extends e e' k =
     (case k of (l, p, i) \<Rightarrow>
        (\<exists>es f. entries_at e' l p = Some (es @ [(i, f)]) \<and> entries_at e l p \<in> {None, Some es})
        \<and> (\<forall>l' p' es. (l', p') \<noteq> (l, p) \<longrightarrow> entries_at e l' p' = Some es \<longrightarrow> entries_at e' l' p' = Some es)
        \<and> (\<forall>l' p'. l' \<noteq> l \<longrightarrow> entries_at e l' p' = None \<longrightarrow> entries_at e' l' p' = None))"

lemma extends_registered:
  assumes "extends e e' k"
  shows "registered e' k"
    "registered e k' \<Longrightarrow> entries_at e (fst k') (fst (snd k')) \<noteq> None \<or> fst k' \<noteq> fst k \<Longrightarrow> registered e' k'"
proof -
  obtain l p i l' q j where k: "k = (l, p, i)" "k' = (l', q, j)" by (metis prod_cases3)
  from assms k obtain es f where
    new: "entries_at e' l p = Some (es @ [(i, f)])" and old: "entries_at e l p \<in> {None, Some es}"
    and keep: "\<And>l' p' es. (l', p') \<noteq> (l, p) \<Longrightarrow> entries_at e l' p' = Some es \<Longrightarrow> entries_at e' l' p' = Some es"
    and gone: "\<And>l' p'. l' \<noteq> l \<Longrightarrow> entries_at e l' p' = None \<Longrightarrow> entries_at e' l' p' = None"
    unfolding extends_def by auto
  show "registered e' k" by (simp add: registered_def k new)
  assume reg: "registered e k'" and alive: "entries_at e (fst k') (fst (snd k')) \<noteq> None \<or> fst k' \<noteq> fst k"
  show "registered e' k'"
  proof (cases "entries_at e l' q")
    case None
    with alive k gone show ?thesis by (simp add: registered_def)
  next
    case (Some es')
    then show ?thesis
      using reg k keep [of l' q es'] new old by (cases "(l', q) = (l, p)") (auto simp: registered_def)
  qed
qed

lemma handles_ok_add:
  assumes ok: "handles_ok (hs, e)" and free: "\<not> armed (hs a)" and env: "env_ok e'"
    and ext: "extends e e' (handle_key h)" and h: "armed h" "impl_set h \<or> table_weak h \<noteq> None"
    and fresh: "\<And>b. armed (hs b) \<Longrightarrow> handle_key (hs b) \<noteq> handle_key h"
    and alive: "\<And>b. armed (hs b) \<Longrightarrow> fst (handle_key (hs b)) = fst (handle_key h)
      \<Longrightarrow> entries_at e (fst (handle_key h)) (fst (snd (handle_key (hs b)))) \<noteq> None"
  shows "handles_ok (hs(a := h), e')"
proof -
  have keep: "registered e' (handle_key (hs b))" if b: "armed (hs b)" for b
  proof -
    have "registered e (handle_key (hs b))" using ok b by (simp add: handles_ok_def)
    then show ?thesis using alive [OF b] extends_registered(2) [OF ext] by metis
  qed
  show ?thesis
    using ok free env h fresh keep extends_registered(1) [OF ext]
    by (auto simp: handles_ok_def dest: sym)
qed

lemma webserver_add_hook_Inr:
  assumes "webserver_add_hook g p fn e = Inr (h, e')"
  obtains f where "p = signature_phase g" "fn = Some f"
    "h = \<lparr>impl_set = True, handle_slot = next_slot_id (env_bus e), handle_phase = p, armed = True,
          table_weak = None\<rparr>"
    "e' = e\<lparr>env_bus := snd (bus_attach p f (env_bus e))\<rparr>"
  using assms by (auto simp: webserver_add_hook_def bind_result_Inr_iff bus_add_Inr_iff bus_attach_simps)

lemma resource_add_hook_eq:
  "resource_add_hook g p fn slot fresh e =
     (if p \<noteq> signature_phase g then Inl (throw_wrong_phase p (signature_phase g))
      else case fn of
        None \<Rightarrow> Inl (invalid_argument ''http_resource::add_hook: hook callable must not be empty'')
      | Some f \<Rightarrow>
          (case (case slot of Some x \<Rightarrow> env_tables e x | None \<Rightarrow> Some empty_table) of
             None \<Rightarrow> Inl (undefined_behaviour ''null hook table'')
           | Some t \<Rightarrow>
               (let a = (case slot of Some x \<Rightarrow> x | None \<Rightarrow> fresh) in
                Inr (\<lparr>impl_set = False, handle_slot = table_next_id t, handle_phase = p, armed = True,
                      table_weak = Some a\<rparr>, Some a,
                     e\<lparr>env_tables := (env_tables e)(a := Some (snd (table_append p f t)))\<rparr>))))"
  unfolding resource_add_hook_def check_phase_def check_fn_def ensure_table_def table_append_def Let_def
  by (cases slot; cases fn; simp split: option.split)

lemma resource_add_hook_Inr:
  assumes "resource_add_hook g p fn slot fresh e = Inr (h, slot', e')"
  obtains f a t where "p = signature_phase g" "fn = Some f"
    "a = (case slot of Some x \<Rightarrow> x | None \<Rightarrow> fresh)"
    "(case slot of Some x \<Rightarrow> env_tables e x | None \<Rightarrow> Some empty_table) = Some t"
    "h = \<lparr>impl_set = False, handle_slot = table_next_id t, handle_phase = p, armed = True,
          table_weak = Some a\<rparr>"
    "slot' = Some a" "e' = e\<lparr>env_tables := (env_tables e)(a := Some (snd (table_append p f t)))\<rparr>"
proof -
  let ?t = "case slot of Some x \<Rightarrow> env_tables e x | None \<Rightarrow> Some empty_table"
  have p: "p = signature_phase g" using assms by (auto simp: resource_add_hook_eq split: if_splits)
  with assms obtain f where f: "fn = Some f" by (cases fn) (simp_all add: resource_add_hook_eq)
  with assms p obtain t where t: "?t = Some t" by (cases "?t") (simp_all add: resource_add_hook_eq)
  let ?a = "case slot of Some x \<Rightarrow> x | None \<Rightarrow> fresh"
  have "resource_add_hook g p fn slot fresh e =
      Inr (\<lparr>impl_set = False, handle_slot = table_next_id t, handle_phase = p, armed = True,
            table_weak = Some ?a\<rparr>, Some ?a,
           e\<lparr>env_tables := (env_tables e)(?a := Some (snd (table_append p f t)))\<rparr>)"
    using p f t by (simp add: resource_add_hook_eq Let_def)
  from assms [unfolded this sum.inject prod.inject] show thesis
    by (elim conjE) (rule that [OF p f refl t]; erule sym)
qed

lemma rtable_inv_empty [simp]: "rtable_inv empty_table"
  by (simp add: rtable_inv_def empty_table_def)

lemma table_next_empty: "table_next_id empty_table = 1"
  by (simp add: empty_table_def)

lemma bus_inv_empty [simp]: "bus_inv empty_bus"
  by (simp add: bus_inv_def empty_bus_def)

lemma step_add_server:
  assumes ok: "handles_ok (hs, e)" and add: "webserver_add_hook g p fn e = Inr (h, e')"
    and free: "\<not> armed (hs a)" and room: "next_slot_id (env_bus e) \<noteq> - 1"
  shows "handles_ok (hs(a := h), e')"
proof -
  from add obtain f where p: "p = signature_phase g"
    and h: "h = \<lparr>impl_set = True, handle_slot = next_slot_id (env_bus e), handle_phase = p, armed = True,
          table_weak = None\<rparr>"
    and e': "e' = e\<lparr>env_bus := snd (bus_attach p f (env_bus e))\<rparr>"
    by (rule webserver_add_hook_Inr)
  have env: "env_ok e" using ok by (simp add: handles_ok_def)
  have new: "next_slot_id (env_bus e) \<notin> fst ` set (hooks (env_bus e) p)"
    using env by (intro entries_ok_fresh bus_invD) (simp add: env_ok_def)
  show ?thesis
  proof (rule handles_ok_add [OF ok free])
    show "env_ok e'" using env room p bus_inv_add [of "env_bus e" p f] by (simp add: env_ok_def e')
    show "extends e e' (handle_key h)"
      by (auto simp: extends_def entries_at_def handle_key_def h e' bus_attach_simps split: option.splits)
    show "handle_key (hs b) \<noteq> handle_key h" if "armed (hs b)" for b
      using ok that new by (auto simp: handles_ok_def registered_def entries_at_def handle_key_def h)
  qed (use ok in \<open>auto simp: h handles_ok_def entries_at_def handle_key_def split: option.splits\<close>)
qed

lemma step_add_route:
  assumes ok: "handles_ok (hs, e)" and add: "resource_add_hook g p fn slot fresh e = Inr (h, slot', e')"
    and phase: "per_route_phase (signature_phase g)" and free: "\<not> armed (hs a)"
    and first: "slot = None \<Longrightarrow> env_tables e fresh = None \<and> (\<forall>b. table_weak (hs b) \<noteq> Some fresh)"
    and later: "\<And>x t. slot = Some x \<Longrightarrow> env_tables e x = Some t \<Longrightarrow> table_next_id t \<noteq> - 1"
  shows "handles_ok (hs(a := h), e')"
proof -
  from add obtain f x t where p: "p = signature_phase g"
    and x: "x = (case slot of Some y \<Rightarrow> y | None \<Rightarrow> fresh)"
    and t: "(case slot of Some y \<Rightarrow> env_tables e y | None \<Rightarrow> Some empty_table) = Some t"
    and h: "h = \<lparr>impl_set = False, handle_slot = table_next_id t, handle_phase = p, armed = True,
          table_weak = Some x\<rparr>"
    and e': "e' = e\<lparr>env_tables := (env_tables e)(x := Some (snd (table_append p f t)))\<rparr>"
    by (rule resource_add_hook_Inr)
  have env: "env_ok e" using ok by (simp add: handles_ok_def)
  have inv: "rtable_inv t" and room: "table_next_id t \<noteq> - 1"
    using t env later by (auto simp: env_ok_def table_next_empty split: option.splits)
  have old: "env_tables e x = Some t \<or> env_tables e x = None \<and> t = empty_table"
    using t x first by (auto split: option.splits)
  have fresh: "\<And>b. env_tables e x = None \<Longrightarrow> table_weak (hs b) \<noteq> Some x"
    using t x first by (auto split: option.splits)
  have new: "table_next_id t \<notin> fst ` set (table_hooks t p)"
    using inv by (intro entries_ok_fresh rtable_invD)
  show ?thesis
  proof (rule handles_ok_add [OF ok free])
    show "env_ok e'" using env rtable_inv_append [OF inv _ room, of p f] phase p by (simp add: env_ok_def e')
    show "extends e e' (handle_key h)"
      using old
      by (auto simp: extends_def entries_at_def handle_key_def h e' table_append_def Let_def empty_table_def
          split: option.splits)
    show "handle_key (hs b) \<noteq> handle_key h" if "armed (hs b)" for b
      using ok that new old fresh [of b]
      by (auto simp: handles_ok_def registered_def entries_at_def handle_key_def h split: if_splits)
    show "entries_at e (fst (handle_key h)) (fst (snd (handle_key (hs b)))) \<noteq> None"
      if "armed (hs b)" "fst (handle_key (hs b)) = fst (handle_key h)" for b
      using that old fresh [of b] by (auto simp: entries_at_def handle_key_def h split: if_splits)
  qed (simp_all add: h)
qed

lemma handles_ok_erase:
  assumes ok: "handles_ok (hs, e)" and a: "\<not> armed h'"
  shows "handles_ok (hs(a := h'), snd (handle_remove (hs a) e))"
proof (cases "armed (hs a)")
  case True
  then have own: "impl_set (hs a) \<or> table_weak (hs a) \<noteq> None" using ok by (simp add: handles_ok_def)
  have "registered (erase_key (handle_key (hs a)) e) (handle_key (hs b))" if "b \<noteq> a" "armed (hs b)" for b
    using ok True that by (intro registered_erase_other) (auto simp: handles_ok_def)
  then show ?thesis
    using ok a env_ok_erase_key [of e "handle_key (hs a)"]
    by (auto simp: handles_ok_def handle_remove_erase(1) [OF True own])
next
  case False
  then show ?thesis using ok a by (auto simp: handles_ok_def)
qed

lemma handles_ok_transfer:
  assumes ok: "handles_ok (hs, e)" and ab: "a \<noteq> b" "\<not> armed (hs b)" and src: "\<not> armed src"
    and h: "armed h \<Longrightarrow> h = hs a"
  shows "handles_ok (hs(b := h, a := src), e)"
  using assms unfolding handles_ok_def by (auto split: if_splits)

lemma handle_step_ok: "handle_step st st' \<Longrightarrow> handles_ok st \<Longrightarrow> handles_ok st'"
proof (induction rule: handle_step.induct)
  case (add_server g p fn e h e' hs a)
  then show ?case by (intro step_add_server)
next
  case (add_first_route g p fn fresh e h slot e' hs a)
  then show ?case by (intro step_add_route [where slot = None]) auto
next
  case (add_route g p fn x fresh e h slot e' hs a t)
  then show ?case by (intro step_add_route [where slot = "Some x"]) auto
next
  case (remove_handle hs a e h e')
  then have "\<not> armed h" by (auto simp: handle_remove_def split: if_splits)
  with handles_ok_erase [OF remove_handle(2), of h a] remove_handle(1) show ?case by simp
next
  case (destroy_handle hs e a)
  have "handle_destroy (hs a) e = snd (handle_remove (hs a) e)" by (simp add: handle_destroy_def)
  with handles_ok_erase [OF destroy_handle, of default_handle a] show ?case
    by (simp add: default_handle_def)
next
  case (move_handle hs a h src b e)
  then show ?case
    by (intro handles_ok_transfer) (auto simp: handle_move_construct_def disarm_def)
next
  case (assign_handle hs b a e h src e')
  let ?d = "fst (handle_remove (hs b) e)"
  have d: "\<not> armed ?d" by (simp add: handle_remove_def)
  have "handles_ok ((hs(b := ?d))(b := h, a := src), e')"
    using assign_handle handles_ok_erase [OF assign_handle(3) d, of b] d
    by (intro handles_ok_transfer)
      (auto simp: handle_move_assign_def disarm_def split: prod.splits)
  then show ?case by simp
next
  case (detach_handle hs a h src b e)
  then show ?case by (intro handles_ok_transfer) (auto simp: handle_detach_def disarm_def)
next
  case (destroy_resource hs e x)
  then show ?case
    by (auto simp: handles_ok_def env_ok_def registered_def entries_at_def split: option.splits)
next
  case (other_work hs e l w)
  then show ?case
    by (auto simp: handles_ok_def env_ok_def registered_def entries_at_def split: option.splits)
qed

definition start_state :: "('f, 'w) hook_env \<Rightarrow> bool" where
  "start_state e = (bus_inv (env_bus e) \<and> env_tables e = (\<lambda>a. None))"

lemma start_ok: "start_state e \<Longrightarrow> handles_ok (\<lambda>a. default_handle, e)"
  by (simp add: handles_ok_def start_state_def env_ok_def default_handle_def)

lemma handle_steps_ok: "handle_step\<^sup>*\<^sup>* st st' \<Longrightarrow> handles_ok st \<Longrightarrow> handles_ok st'"
  by (induction rule: rtranclp_induct) (auto dest: handle_step_ok)

lemma erase_key_unregisters:
  assumes "env_ok e" "entries_at e (fst k) (fst (snd k)) \<noteq> None"
  shows "\<not> registered (erase_key k e) k"
proof -
  obtain l p i where k: "k = (l, p, i)" by (metis prod_cases3)
  with assms(2) obtain es where es: "entries_at e l p = Some es" by auto
  show ?thesis
    using entries_at_distinct [OF assms(1) es]
    by (auto simp: registered_def k entries_at_erase_key [OF assms(1)] es erase_slot_filter)
qed

section \<open>Lemmas on firing\<close>

lemma answer_loop_append:
  "answer_loop run line (xs @ ys) c e =
     (case answer_loop run line xs c e of
        (Some r, c', e') \<Rightarrow> (Some r, c', e')
      | (None, c', e') \<Rightarrow> answer_loop run line ys c' e')"
proof (induction xs arbitrary: c e)
  case (Cons x xs)
  show ?case
  proof (cases "run (snd x) c e")
    case (fields a c' e')
    show ?thesis
    proof (cases a)
      case (Inr b)
      then show ?thesis using fields Cons by (cases b) simp_all
    qed (use fields Cons in simp)
  qed
qed simp

lemma observe_loop_append:
  "observe_loop run line (xs @ ys) c e = observe_loop run line ys c (observe_loop run line xs c e)"
proof (induction xs arbitrary: e)
  case (Cons x xs)
  show ?case
  proof (cases "run (snd x) c e")
    case (fields a c' e')
    then show ?thesis using Cons by (cases a) simp_all
  qed
qed simp

lemma answer_loop_Some:
  "answer_loop run line xs c e = (Some r, c', e') \<longleftrightarrow>
     (\<exists>pre h post c1 e1. xs = pre @ h # post \<and> answer_loop run line pre c e = (None, c1, e1)
        \<and> run (snd h) c1 e1 = (Inr (respond_with r), c', e'))" (is "?L xs c e \<longleftrightarrow> ?R xs c e")
proof
  show "?L xs c e \<Longrightarrow> ?R xs c e"
  proof (induction xs arbitrary: c e)
    case (Cons x xs)
    obtain a c2 e2 where r: "run (snd x) c e = (a, c2, e2)" by (metis prod_cases3)
    have step: ?case if "?R xs c2 e3" "answer_loop run line [x] c e = (None, c2, e3)" for e3
    proof -
      from that(1) obtain pre h post c1 e1 where "xs = pre @ h # post"
        "answer_loop run line pre c2 e3 = (None, c1, e1)" "run (snd h) c1 e1 = (Inr (respond_with r), c', e')"
        by blast
      then show ?thesis
        using answer_loop_append [of run line "[x]" pre c e] that(2)
        by (intro exI [of _ "x # pre"] exI [of _ h] exI [of _ post] exI [of _ c1] exI [of _ e1]) simp
    qed
    show ?case
    proof (cases a)
      case (Inl y)
      with r Cons.prems show ?thesis by (intro step Cons.IH) simp_all
    next
      case (Inr b)
      show ?thesis
      proof (cases b)
        case pass
        with r Inr Cons.prems show ?thesis by (intro step Cons.IH) simp_all
      next
        case (respond_with q)
        with r Inr Cons.prems show ?thesis
          by (intro exI [of _ "[]"] exI [of _ x] exI [of _ xs]) simp
      qed
    qed
  qed simp
  show "?R xs c e \<Longrightarrow> ?L xs c e" by (auto simp: answer_loop_append)
qed

lemma fire_closed_gate:
  assumes "bus_inv (env_bus e)" "\<not> has_hooks_for p (env_bus e)"
  shows "fire_hooks_for_phase run p c e = e"
    "fire_short_circuit_hooks_for_phase run p c e = (None, c, e)"
    "p = handler_exception \<Longrightarrow> fire_handler_exception run c e = (None, e)"
proof -
  have none: "hooks (env_bus e) p = []"
    using bus_invD(3) [OF assms(1)] assms(2) by (auto simp: has_hooks_for_def)
  show "fire_hooks_for_phase run p c e = e"
    "fire_short_circuit_hooks_for_phase run p c e = (None, c, e)"
    by (simp_all add: fire_hooks_for_phase_def fire_short_circuit_hooks_for_phase_def none)
  assume "p = handler_exception"
  then show "fire_handler_exception run c e = (None, e)"
    using none bus_invD(5) [OF assms(1)] assms(2)
    by (auto simp: fire_handler_exception_def has_hooks_for_def split: option.splits)
qed

section \<open>Properties\<close>

text \<open>C32: Whatever the order of registrations, moves, detachments and destructions, every armed handle owns
  a registration that is present, no two armed handles own the same one, and removing through one
  handle erases exactly its own registration: it is gone, and every other armed handle still has
  its own.\<close>

theorem handles_own_registrations:
  assumes "start_state e0" "handle_step\<^sup>*\<^sup>* (\<lambda>a. default_handle, e0) (hs, e)" "armed (hs a)"
  shows "registered e (handle_key (hs a))
    \<and> (\<forall>b. armed (hs b) \<and> b \<noteq> a \<longrightarrow>
         handle_key (hs b) \<noteq> handle_key (hs a)
         \<and> registered (snd (handle_remove (hs a) e)) (handle_key (hs b)))
    \<and> (entries_at e (fst (handle_key (hs a))) (handle_phase (hs a)) \<noteq> None
         \<longrightarrow> \<not> registered (snd (handle_remove (hs a) e)) (handle_key (hs a)))"
proof -
  have ok: "handles_ok (hs, e)" using handle_steps_ok [OF assms(2) start_ok [OF assms(1)]] .
  then have env: "env_ok e" and own: "impl_set (hs a) \<or> table_weak (hs a) \<noteq> None"
    and uniq: "\<And>b. armed (hs b) \<Longrightarrow> b \<noteq> a \<Longrightarrow> handle_key (hs b) \<noteq> handle_key (hs a)"
    and reg: "\<And>b. armed (hs b) \<Longrightarrow> registered e (handle_key (hs b))"
    using assms(3) by (auto simp: handles_ok_def)
  have phase: "fst (snd (handle_key (hs a))) = handle_phase (hs a)" by (simp add: handle_key_def)
  show ?thesis
    using uniq reg assms(3) registered_erase_other [OF env reg] erase_key_unregisters [OF env, of "handle_key (hs a)"]
    unfolding handle_remove_erase(1) [OF assms(3) own] phase by blast
qed

definition example_env :: "(nat, unit) hook_env" where
  "example_env =
     \<lparr>env_bus = empty_bus, env_tables = (\<lambda>a. None), env_logging = True, env_log = [], env_world = ()\<rparr>"

definition example_handle :: hook_handle where
  "example_handle =
     \<lparr>impl_set = True, handle_slot = 1, handle_phase = before_handler, armed = True, table_weak = None\<rparr>"

lemma example_registration:
  "webserver_add_hook before_handler_sig before_handler (Some (7 :: nat)) example_env =
     Inr (example_handle, example_env\<lparr>env_bus := snd (bus_attach before_handler 7 empty_bus)\<rparr>)"
  by (simp add: webserver_add_hook_def bus_add_def signature_phase_def add_impl_attach bus_attach_simps
      example_env_def example_handle_def empty_bus_def)

theorem handles_own_registrations_witness:
  "registered (example_env\<lparr>env_bus := snd (bus_attach before_handler 7 empty_bus)\<rparr>)
     (None, before_handler, 1)"
proof -
  let ?e = "example_env\<lparr>env_bus := snd (bus_attach before_handler 7 empty_bus)\<rparr>"
  have start: "start_state example_env" by (simp add: start_state_def example_env_def)
  have "handle_step (\<lambda>a. default_handle, example_env) ((\<lambda>a. default_handle)(0 := example_handle), ?e)"
    by (rule handle_step.add_server [OF example_registration])
      (simp_all add: default_handle_def example_env_def empty_bus_def)
  from handles_own_registrations [OF start r_into_rtranclp [of handle_step, OF this], of 0]
  have "registered ?e (handle_key example_handle)" by (simp add: example_handle_def)
  then show ?thesis by (simp add: handle_key_def example_handle_def)
qed

text \<open>A phase that may answer runs the snapshot of its registrations in order and gives the response of
  the first callable that answers: every callable before it passed or threw (a throw is logged and
  counts as a pass), and none after it runs.  Registrations a callable makes or removes meanwhile do
  not change the sequence.\<close>

theorem first_response_wins:
  "fire_short_circuit_hooks_for_phase run p c e = (Some r, c', e') \<longleftrightarrow>
     (\<exists>pre h post c1 e1. hooks (env_bus e) p = pre @ h # post
        \<and> answer_loop run (hook_threw p) pre c e = (None, c1, e1)
        \<and> run (snd h) c1 e1 = (Inr (respond_with r), c', e'))"
  using answer_loop_Some [of run "hook_threw p" "hooks (env_bus e) p"]
  by (simp add: fire_short_circuit_hooks_for_phase_def Let_def)

end
