(* ===== verification/Header_Map.thy ===== *)
theory Header_Map
  imports Prelude
begin

text \<open>
  The ordered maps of \<^verbatim>\<open>src/src/httpserver/http_utils.hpp\<close>: the macro \<^verbatim>\<open>COMPARATOR\<close> (length first, then byte by
  byte), the comparator of header names that folds ASCII case and the comparator of argument keys that
  does not, and \<^verbatim>\<open>std::map\<close> over such a comparator as a list sorted by it.  A map finds the place of a
  key with the comparator alone; the locale says what a comparator has to promise for that to be
  a finite map on the keys up to equivalence.
\<close>

section \<open>Comparators\<close>

text \<open>The loop of the macro on two strings of the same length.\<close>

fun compare_bytes :: "(char \<Rightarrow> int) \<Rightarrow> string \<Rightarrow> string \<Rightarrow> bool" where
  "compare_bytes conv (x # xs) (y # ys) =
     (if conv x < conv y then True else if conv x > conv y then False else compare_bytes conv xs ys)"
| "compare_bytes conv xs ys = False"

definition comparator :: "(char \<Rightarrow> int) \<Rightarrow> string \<Rightarrow> string \<Rightarrow> bool" where
  "comparator conv x y =
     (if length x < length y then True
      else if length x > length y then False
      else compare_bytes conv x y)"

definition http_header_toupper :: "char \<Rightarrow> int" where
  "http_header_toupper c =
     (if char_int CHR ''a'' \<le> char_int c \<and> char_int c \<le> char_int CHR ''z''
      then char_int c - (char_int CHR ''a'' - char_int CHR ''A'') else of_char c)"

definition header_less :: "string \<Rightarrow> string \<Rightarrow> bool" where
  "header_less x y = comparator http_header_toupper x y"

text \<open>The build without \<^verbatim>\<open>CASE_INSENSITIVE\<close>: the bytes are compared as promoted \<^verbatim>\<open>char\<close>.\<close>

definition arg_less :: "string \<Rightarrow> string \<Rightarrow> bool" where
  "arg_less x y = comparator char_int x y"

section \<open>std::map over a comparator\<close>

type_synonym 'v ordered_map = "(string \<times> 'v) list"

text \<open>\<^verbatim>\<open>m.find(k)\<close>: the first key not below \<open>k\<close>, when \<open>k\<close> is not below it.\<close>

fun map_find :: "(string \<Rightarrow> string \<Rightarrow> bool) \<Rightarrow> string \<Rightarrow> 'v ordered_map \<Rightarrow> 'v option" where
  "map_find lt k [] = None"
| "map_find lt k (e # m) =
     (if lt (fst e) k then map_find lt k m else if lt k (fst e) then None else Some (snd e))"

text \<open>\<^verbatim>\<open>m.insert_or_assign(k, v)\<close>: an equivalent key keeps its spelling and gets the new value.\<close>

fun insert_or_assign :: "(string \<Rightarrow> string \<Rightarrow> bool) \<Rightarrow> string \<Rightarrow> 'v \<Rightarrow> 'v ordered_map \<Rightarrow> 'v ordered_map" where
  "insert_or_assign lt k v [] = [(k, v)]"
| "insert_or_assign lt k v (e # m) =
     (if lt (fst e) k then e # insert_or_assign lt k v m
      else if lt k (fst e) then (k, v) # e # m
      else (fst e, v) # m)"

text \<open>\<^verbatim>\<open>m.emplace(k, v)\<close>: an equivalent key keeps its value.\<close>

fun map_emplace :: "(string \<Rightarrow> string \<Rightarrow> bool) \<Rightarrow> string \<Rightarrow> 'v \<Rightarrow> 'v ordered_map \<Rightarrow> 'v ordered_map" where
  "map_emplace lt k v [] = [(k, v)]"
| "map_emplace lt k v (e # m) =
     (if lt (fst e) k then e # map_emplace lt k v m
      else if lt k (fst e) then (k, v) # e # m
      else e # m)"

text \<open>\<^verbatim>\<open>m.erase(k)\<close>.\<close>

fun map_erase :: "(string \<Rightarrow> string \<Rightarrow> bool) \<Rightarrow> string \<Rightarrow> 'v ordered_map \<Rightarrow> 'v ordered_map" where
  "map_erase lt k [] = []"
| "map_erase lt k (e # m) =
     (if lt (fst e) k then e # map_erase lt k m else if lt k (fst e) then e # m else m)"

section \<open>The contract of a comparator\<close>

text \<open>\<open>norm\<close> is the canonical spelling of a key: the comparator is a strict order that tells two keys
  apart exactly when their canonical spellings differ.\<close>

locale key_order =
  fixes lt :: "string \<Rightarrow> string \<Rightarrow> bool"
    and norm :: "string \<Rightarrow> 'n"
  assumes lt_irrefl: "norm x = norm y \<Longrightarrow> \<not> lt x y"
    and lt_total: "norm x \<noteq> norm y \<Longrightarrow> lt x y \<or> lt y x"
    and lt_trans: "lt x y \<Longrightarrow> lt y z \<Longrightarrow> lt x z"
begin

lemma lt_asym: "lt x y \<Longrightarrow> \<not> lt y x"
  using lt_trans lt_irrefl by blast

lemma lt_norm_left: "norm x = norm x' \<Longrightarrow> lt x y \<longleftrightarrow> lt x' y"
  by (metis lt_irrefl lt_total lt_trans)

lemma lt_norm_right: "norm y = norm y' \<Longrightarrow> lt x y \<longleftrightarrow> lt x y'"
  by (metis lt_irrefl lt_total lt_trans)

lemma equivalent_iff: "\<not> lt x y \<and> \<not> lt y x \<longleftrightarrow> norm x = norm y"
  using lt_irrefl [of x y] lt_irrefl [of y x] lt_total [of x y] by auto

definition map_ok :: "'v ordered_map \<Rightarrow> bool" where
  "map_ok m = sorted_wrt lt (map fst m)"

lemma map_ok_Nil: "map_ok []"
  by (simp add: map_ok_def)

lemma map_ok_tail: "map_ok (e # m) \<Longrightarrow> map_ok m"
  by (simp add: map_ok_def)

lemma insert_keys: "fst ` set (insert_or_assign lt k v m) \<subseteq> insert k (fst ` set m)"
  by (induction m) auto

lemma insert_ok: "map_ok m \<Longrightarrow> map_ok (insert_or_assign lt k v m)"
proof (induction m)
  case (Cons e m)
  have below: "\<And>x. x \<in> set m \<Longrightarrow> lt (fst e) (fst x)" using Cons.prems by (auto simp: map_ok_def)
  show ?case
  proof (cases "lt (fst e) k")
    case True
    then show ?thesis
      using Cons insert_keys [of k v m] below by (force simp: map_ok_def)
  next
    case False
    then show ?thesis using Cons.prems below lt_trans by (auto simp: map_ok_def)
  qed
qed (simp add: map_ok_def)

lemma find_below: "map_ok m \<Longrightarrow> (\<And>x. x \<in> set m \<Longrightarrow> lt k (fst x)) \<Longrightarrow> map_find lt k m = None"
  by (cases m) (auto dest: lt_asym)

lemma find_norm: "norm k = norm k' \<Longrightarrow> map_find lt k m = map_find lt k' m"
  by (induction m) (auto simp: lt_norm_left [of k k'] lt_norm_right [of k k'])

lemma find_insert:
  assumes "map_ok m"
  shows "map_find lt k' (insert_or_assign lt k v m) = (if norm k' = norm k then Some v else map_find lt k' m)"
  using assms
proof (induction m)
  case Nil
  then show ?case using equivalent_iff [of k k'] by auto
next
  case (Cons e m)
  have IH: "map_find lt k' (insert_or_assign lt k v m) = (if norm k' = norm k then Some v else map_find lt k' m)"
    using Cons map_ok_tail by blast
  show ?case
  proof (cases "norm k' = norm k")
    case True
    note same = lt_norm_left [OF True] lt_norm_right [OF True]
    show ?thesis using IH True lt_irrefl [OF True] lt_irrefl [OF True [symmetric]] by (simp add: same)
  next
    case False
    have "lt k (fst e) \<Longrightarrow> \<not> lt k k' \<Longrightarrow> lt k' (fst e) \<and> \<not> lt (fst e) k'"
      using False lt_total lt_trans lt_asym by metis
    with False IH equivalent_iff [of k k'] equivalent_iff [of "fst e" k] equivalent_iff [of "fst e" k']
    show ?thesis by auto
  qed
qed

lemma find_Some_member:
  "map_ok m \<Longrightarrow> map_find lt k m = Some v \<longleftrightarrow> (\<exists>k'. norm k' = norm k \<and> (k', v) \<in> set m)"
proof (induction m)
  case (Cons e m)
  have below: "\<And>x. x \<in> set m \<Longrightarrow> lt (fst e) (fst x)" using Cons.prems by (auto simp: map_ok_def)
  have IH: "map_find lt k m = Some v \<longleftrightarrow> (\<exists>k'. norm k' = norm k \<and> (k', v) \<in> set m)"
    using Cons map_ok_tail by blast
  consider "lt (fst e) k" | "lt k (fst e)" "\<not> lt (fst e) k" | "norm (fst e) = norm k"
    using equivalent_iff [of "fst e" k] by blast
  then show ?case
  proof cases
    case 1
    then have "norm (fst e) \<noteq> norm k" using lt_irrefl by blast
    with 1 IH show ?thesis by auto
  next
    case 2
    have "norm k' \<noteq> norm k" if "(k', v) \<in> set (e # m)" for k'
      using that 2 below [of "(k', v)"] lt_trans lt_irrefl [of k k'] by fastforce
    with 2 show ?thesis by auto
  next
    case 3
    then have "\<not> lt (fst e) k" "\<not> lt k (fst e)" using lt_irrefl by auto
    moreover have "norm k' \<noteq> norm k" if "(k', v) \<in> set m" for k'
      using below [OF that] 3 lt_irrefl [of "fst e" k'] by auto
    ultimately show ?thesis using 3 by auto
  qed
qed simp

end

section \<open>The two comparators keep the contract\<close>

lemma compare_bytes_eq: "map conv x = map conv y \<Longrightarrow> \<not> compare_bytes conv x y"
  by (induction conv x y rule: compare_bytes.induct) auto

lemma compare_bytes_total:
  "length x = length y \<Longrightarrow> map conv x \<noteq> map conv y \<Longrightarrow> compare_bytes conv x y \<or> compare_bytes conv y x"
  by (induction conv x y rule: compare_bytes.induct) auto

lemma compare_bytes_trans:
  "length x = length y \<Longrightarrow> length y = length z \<Longrightarrow> compare_bytes conv x y \<Longrightarrow> compare_bytes conv y z
    \<Longrightarrow> compare_bytes conv x z"
proof (induction conv x y arbitrary: z rule: compare_bytes.induct)
  case (1 conv x xs y ys)
  then show ?case by (cases z) (auto split: if_splits)
qed auto

lemma comparator_key_order: "key_order (comparator conv) (map conv)"
proof
  show "map conv x = map conv y \<Longrightarrow> \<not> comparator conv x y" for x y
    using compare_bytes_eq [of conv x y] map_eq_imp_length_eq [of conv x conv y] by (simp add: comparator_def)
  show "map conv x \<noteq> map conv y \<Longrightarrow> comparator conv x y \<or> comparator conv y x" for x y
    using compare_bytes_total [of x y conv] by (auto simp: comparator_def)
  show "comparator conv x y \<Longrightarrow> comparator conv y z \<Longrightarrow> comparator conv x z" for x y z
    using compare_bytes_trans [of x y z conv] by (auto simp: comparator_def split: if_splits)
qed

text \<open>The canonical spelling of a header name: ASCII upper case.\<close>

definition header_norm :: "string \<Rightarrow> string" where
  "header_norm k = map c_toupper k"

lemma of_char_int: "(of_char c :: int) = int (of_char c)"
  by (simp add: of_char_def)

lemma header_toupper_code: "http_header_toupper c = int (of_char (c_toupper c))"
proof -
  have bound: "(of_char c :: nat) < 256" by simp
  have a: "char_int CHR ''a'' = 97" "char_int CHR ''A'' = 65" "char_int CHR ''z'' = 122"
    "(of_char CHR ''a'' :: nat) = 97" "(of_char CHR ''z'' :: nat) = 122"
    by (simp_all add: char_int_def)
  show ?thesis
  proof (cases "is_lower c")
    case True
    then have r: "97 \<le> (of_char c :: nat)" "(of_char c :: nat) \<le> 122"
      unfolding is_lower_def char_between_def a by auto
    then have "(of_char c - 32 :: nat) mod 256 = of_char c - 32" by simp
    then show ?thesis
      using True r by (simp add: http_header_toupper_def c_toupper_def a char_int_def of_char_int of_nat_diff)
  next
    case False
    then have r: "\<not> (97 \<le> (of_char c :: nat) \<and> (of_char c :: nat) \<le> 122)"
      unfolding is_lower_def char_between_def a by auto
    define n where "n = (of_char c :: nat)"
    have "n < 256" "\<not> (97 \<le> n \<and> n \<le> 122)" using bound r by (simp_all add: n_def)
    then have "\<not> (97 \<le> char_int c \<and> char_int c \<le> 122)"
      unfolding char_int_def of_char_int n_def [symmetric] by (auto split: if_splits)
    then show ?thesis
      using False by (auto simp: http_header_toupper_def c_toupper_def a of_char_int)
  qed
qed

lemma map_header_toupper_iff:
  "map http_header_toupper x = map http_header_toupper y \<longleftrightarrow> header_norm x = header_norm y"
proof -
  let ?f = "\<lambda>c :: char. int (of_char c)"
  have "inj ?f" by (auto simp: inj_on_def)
  have "map http_header_toupper = (\<lambda>z. map ?f (header_norm z))"
    by (auto simp: header_norm_def header_toupper_code)
  then show ?thesis using \<open>inj ?f\<close> by (simp add: inj_map_eq_map)
qed

lemma char_int_inj: "inj char_int"
proof (rule injI)
  fix c d :: char
  assume "char_int c = char_int d"
  define n m where "n = (of_char c :: nat)" and "m = (of_char d :: nat)"
  have "n < 256" "m < 256" by (simp_all add: n_def m_def)
  moreover note \<open>char_int c = char_int d\<close> [unfolded char_int_def of_char_int, folded n_def m_def]
  ultimately have "n = m" by (auto split: if_splits)
  then show "c = d" by (simp add: n_def m_def)
qed

lemmas byte_order = comparator_key_order [THEN key_order.lt_irrefl] comparator_key_order [THEN key_order.lt_total]
  comparator_key_order [THEN key_order.lt_trans]

interpretation hdr: key_order header_less header_norm
proof
  show "header_norm x = header_norm y \<Longrightarrow> \<not> header_less x y" for x y
    using byte_order(1) by (simp add: header_less_def map_header_toupper_iff [symmetric])
  show "header_norm x \<noteq> header_norm y \<Longrightarrow> header_less x y \<or> header_less y x" for x y
    using byte_order(2) by (simp add: header_less_def map_header_toupper_iff [symmetric])
  show "header_less x y \<Longrightarrow> header_less y z \<Longrightarrow> header_less x z" for x y z
    unfolding header_less_def by (rule byte_order(3))
qed

interpretation arg: key_order arg_less "\<lambda>k. k"
proof
  show "x = y \<Longrightarrow> \<not> arg_less x y" for x y using byte_order(1) by (simp add: arg_less_def)
  show "x \<noteq> y \<Longrightarrow> arg_less x y \<or> arg_less y x" for x y
    using byte_order(2) [of char_int x y] char_int_inj by (simp add: arg_less_def inj_map_eq_map)
  show "arg_less x y \<Longrightarrow> arg_less y z \<Longrightarrow> arg_less x z" for x y z
    unfolding arg_less_def by (rule byte_order(3))
qed

section \<open>Property\<close>

text \<open>A header map is a finite map on names up to ASCII case: after any sequence of assignments a lookup
  gives the value of the last assignment to a name that differs from the wanted one in case only,
  every stored key has one entry, and the entries stay sorted by the comparator.\<close>

theorem header_map_refines_map:
  "map_find header_less k (fold (\<lambda>(n, v). insert_or_assign header_less n v) kvs []) =
     map_of (rev (map (\<lambda>(n, v). (header_norm n, v)) kvs)) (header_norm k)
   \<and> distinct (map (header_norm \<circ> fst) (fold (\<lambda>(n, v). insert_or_assign header_less n v) kvs []))
   \<and> sorted_wrt header_less (map fst (fold (\<lambda>(n, v). insert_or_assign header_less n v) kvs []))"
proof -
  have *: "hdr.map_ok (fold (\<lambda>(n, v). insert_or_assign header_less n v) kvs [])
    \<and> map_find header_less k (fold (\<lambda>(n, v). insert_or_assign header_less n v) kvs []) =
        map_of (rev (map (\<lambda>(n, v). (header_norm n, v)) kvs)) (header_norm k)" for k
    by (induction kvs rule: rev_induct) (auto simp: hdr.map_ok_Nil hdr.insert_ok hdr.find_insert)
  have "distinct (map (header_norm \<circ> fst) m)" if "hdr.map_ok m" for m :: "'a ordered_map"
    using that
  proof (induction m)
    case (Cons e m)
    then have "header_norm (fst e) \<noteq> header_norm (fst x)" if "x \<in> set m" for x
      using that hdr.lt_irrefl [of "fst e" "fst x"] by (auto simp: hdr.map_ok_def)
    with Cons show ?case by (auto simp: hdr.map_ok_def)
  qed simp
  with * show ?thesis by (auto simp: hdr.map_ok_def)
qed

end
