(* ===== verification/String_Utilities.thy ===== *)
theory String_Utilities
  imports Prelude
begin

text \<open>
  \<^verbatim>\<open>src/src/string_utilities.cpp\<close>, the URL and file name helpers of \<^verbatim>\<open>src/src/http_utils.cpp\<close> and
  the percent decoder of \<^verbatim>\<open>src/src/httpserver/detail/unescape_helpers.hpp\<close>.  The splitting loop keeps
  the positions of the code and is proved equal to a filter of the segments between separators;
  the in-place decoder keeps its buffer with the read and write positions and is proved to refine
  the decoding of the list of bytes.
\<close>

section \<open>Case conversion, splitting and hexadecimal digits\<close>

definition to_upper_copy :: "string \<Rightarrow> string" where
  "to_upper_copy str = map c_toupper str"

definition to_lower_copy :: "string \<Rightarrow> string" where
  "to_lower_copy str = map c_tolower str"

definition keep_token :: "bool \<Rightarrow> string \<Rightarrow> bool" where
  "keep_token collapse token = (\<not> collapse \<or> token \<noteq> [])"

function split_loop :: "string \<Rightarrow> char \<Rightarrow> bool \<Rightarrow> nat \<Rightarrow> string list \<Rightarrow> nat \<times> string list" where
  "split_loop s sep collapse start res =
     (case find_from s sep start of
        None \<Rightarrow> (start, res)
      | Some e \<Rightarrow>
          (let token = substr s start (e - start) in
           split_loop s sep collapse (e + 1)
             (if keep_token collapse token then res @ [token] else res)))"
  by pat_completeness auto
termination
  by (relation "measure (\<lambda>(s, sep, collapse, start, res). length s - start)")
    (auto dest: find_from_measure)

declare split_loop.simps [simp del]

definition string_split :: "string \<Rightarrow> char \<Rightarrow> bool \<Rightarrow> string list" where
  "string_split s sep collapse =
     (if s = [] then []
      else
        (let (start, res) = split_loop s sep collapse 0 [] in
         if start < length s then
           (let token = drop start s in
            if keep_token collapse token then res @ [token] else res)
         else res))"

definition is_valid_hex :: "string \<Rightarrow> bool" where
  "is_valid_hex s =
     list_all (\<lambda>c. is_digit c \<or> char_between CHR ''a'' CHR ''f'' c \<or> char_between CHR ''A'' CHR ''F'' c) s"

definition hex_char_to_val :: "char \<Rightarrow> nat" where
  "hex_char_to_val c =
     (if is_digit c then of_char c - 48
      else if char_between CHR ''a'' CHR ''f'' c then of_char c - 97 + 10
      else if char_between CHR ''A'' CHR ''F'' c then of_char c - 65 + 10
      else 0)"

section \<open>URL and file name helpers\<close>

definition tokenize_url :: "string \<Rightarrow> string list" where
  "tokenize_url str = string_split str (CHR ''/'') True"

text \<open>\<^verbatim>\<open>std::unique\<close> compares each element with the last one it kept.\<close>

fun unique_slashes :: "char option \<Rightarrow> string \<Rightarrow> string" where
  "unique_slashes prev [] = []"
| "unique_slashes prev (c # cs) =
     (if prev = Some c \<and> c = CHR ''/'' then unique_slashes prev cs
      else c # unique_slashes (Some c) cs)"

definition standardize_url :: "string \<Rightarrow> string" where
  "standardize_url url =
     (if url = [] then url
      else
        (let res = unique_slashes None url in
         if length res > 1 \<and> last res = CHR ''/'' then butlast res else res))"

definition sanitize_upload_filename :: "string \<Rightarrow> string" where
  "sanitize_upload_filename filename =
     (if filename = [] then []
      else if find_char NUL filename \<noteq> None then []
      else
        (let basename =
           (case find_last (\<lambda>c. c = CHR ''/'' \<or> c = CHR 0x5C) filename of
              Some pos \<Rightarrow> drop (pos + 1) filename
            | None \<Rightarrow> filename)
         in if basename = [] \<or> basename = ''.'' \<or> basename = ''..'' then [] else basename))"

section \<open>Percent decoding\<close>

definition hex_digit_value :: "char \<Rightarrow> int" where
  "hex_digit_value c =
     (if is_digit c then int (of_char c) - 48
      else if char_between CHR ''a'' CHR ''f'' c then int (of_char c) - 97 + 10
      else if char_between CHR ''A'' CHR ''F'' c then int (of_char c) - 65 + 10
      else - 1)"

text \<open>\<^verbatim>\<open>(hi << 4) | lo\<close> of two values in \<^verbatim>\<open>[0, 15]\<close>, truncated to a byte.\<close>

definition hex_pair :: "int \<Rightarrow> int \<Rightarrow> char" where
  "hex_pair hi lo = char_of (nat (or (push_bit 4 hi) lo))"

function unescape_loop :: "string \<Rightarrow> nat \<Rightarrow> nat \<Rightarrow> nat \<Rightarrow> string \<times> nat" where
  "unescape_loop data sz rpos wpos =
     (if rpos < sz \<and> data ! rpos \<noteq> NUL then
        (if data ! rpos = CHR ''+'' then
           unescape_loop (data[wpos := CHR '' '']) sz (rpos + 1) (wpos + 1)
         else if data ! rpos = CHR ''%'' \<and> sz - rpos > 2 \<and>
                 hex_digit_value (data ! (rpos + 1)) \<ge> 0 \<and> hex_digit_value (data ! (rpos + 2)) \<ge> 0 then
           unescape_loop
             (data[wpos := hex_pair (hex_digit_value (data ! (rpos + 1)))
                                    (hex_digit_value (data ! (rpos + 2)))])
             sz (rpos + 3) (wpos + 1)
         else unescape_loop (data[wpos := data ! rpos]) sz (rpos + 1) (wpos + 1))
      else (data, wpos))"
  by pat_completeness auto
termination
  by (relation "measure (\<lambda>(data, sz, rpos, wpos). sz - rpos)") auto

declare unescape_loop.simps [simp del]

definition unescape_buf_raw :: "string \<Rightarrow> nat \<Rightarrow> string \<times> nat" where
  "unescape_buf_raw data sz = (if sz = 0 then (data, 0) else unescape_loop data sz 0 0)"

text \<open>The new contents of \<^verbatim>\<open>*val\<close> and the returned length.\<close>

definition http_unescape :: "string \<Rightarrow> string \<times> nat" where
  "http_unescape val =
     (if val = [] then ([], 0)
      else (let (data, new_size) = unescape_buf_raw val (length val) in (take new_size data, new_size)))"

text \<open>A user supplied unescaper replaces the decoder; it is an argument here.\<close>

definition base_unescaper :: "(string \<Rightarrow> string) option \<Rightarrow> string \<Rightarrow> string \<times> nat" where
  "base_unescaper unescaper s =
     (if s = [] \<or> hd s = NUL then (s, 0)
      else (case unescaper of
              Some f \<Rightarrow> (f s, length (f s))
            | None \<Rightarrow> http_unescape s))"

section \<open>Reference definitions\<close>

text \<open>The maximal runs between separators, empty ones included.\<close>

fun segments :: "char \<Rightarrow> string \<Rightarrow> string list" where
  "segments sep [] = [[]]"
| "segments sep (c # cs) =
     (if c = sep then [] # segments sep cs
      else (case segments sep cs of [] \<Rightarrow> [[c]] | t # ts \<Rightarrow> (c # t) # ts))"

text \<open>Percent decoding of a list of bytes that ends at the first NUL.\<close>

fun decode :: "string \<Rightarrow> string" where
  "decode [] = []"
| "decode (c # cs) =
     (if c = NUL then []
      else if c = CHR ''+'' then CHR '' '' # decode cs
      else if c = CHR ''%'' then
        (case cs of
           h # l # rest \<Rightarrow>
             if hex_digit_value h \<ge> 0 \<and> hex_digit_value l \<ge> 0
             then hex_pair (hex_digit_value h) (hex_digit_value l) # decode rest
             else c # decode cs
         | _ \<Rightarrow> c # decode cs)
      else c # decode cs)"

text \<open>\<^verbatim>\<open>%HH\<close> encoding of every byte, the inverse direction used to state the round trip.\<close>

definition hex_upper :: "nat \<Rightarrow> char" where
  "hex_upper d = (if d < 10 then char_of (48 + d) else char_of (55 + d))"

definition percent_encode :: "string \<Rightarrow> string" where
  "percent_encode s =
     concat (map (\<lambda>c. [CHR ''%'', hex_upper (of_char c div 16), hex_upper (of_char c mod 16)]) s)"

section \<open>Splitting equals the filtered segments\<close>

lemma segments_not_Nil [simp]: "segments sep s \<noteq> []"
  by (induction s) (auto split: list.splits)

lemma segments_no_sep: "sep \<notin> set s \<Longrightarrow> segments sep s = [s]"
  by (induction s) auto

lemma segments_step:
  "sep \<notin> set p \<Longrightarrow> segments sep (p @ sep # s) = p # segments sep s"
  by (induction p) auto

lemma segments_find:
  assumes "find_char sep s = Some i"
  shows "segments sep s = take i s # segments sep (drop (Suc i) s)"
  using segments_step [of sep "take i s" "drop (Suc i) s"] find_char_split [OF assms]
    find_char_Some [OF assms] by simp

lemma segments_sep_free: "t \<in> set (segments sep s) \<Longrightarrow> sep \<notin> set t"
  by (induction s arbitrary: t) (auto split: if_splits list.splits)

lemma segments_append: "segments sep (a @ sep # b) = segments sep a @ segments sep b"
proof (induction a)
  case (Cons c a)
  obtain t ts where "segments sep a = t # ts"
    by (meson list.exhaust segments_not_Nil)
  with Cons show ?case by simp
qed simp

lemma segments_join_id:
  "ts \<noteq> [] \<Longrightarrow> \<forall>t \<in> set ts. sep \<notin> set t \<Longrightarrow> segments sep (join [sep] ts) = ts"
proof (induction ts)
  case (Cons t ts)
  then show ?case
    by (cases ts) (simp_all add: segments_no_sep segments_step)
qed simp

lemma segments_join: "join [sep] (segments sep s) = s"
proof (induction s)
  case (Cons c cs)
  obtain t ts where "segments sep cs = t # ts"
    by (meson list.exhaust segments_not_Nil)
  with Cons show ?case
    by (cases ts) auto
qed simp

lemma split_loop_segments:
  "start \<le> length s \<Longrightarrow> split_loop s sep collapse start res = (st, ts) \<Longrightarrow>
   ts = res @ filter (keep_token collapse) (butlast (segments sep (drop start s))) \<and>
   drop st s = last (segments sep (drop start s)) \<and> st \<le> length s"
proof (induction s sep collapse start res rule: split_loop.induct)
  case (1 s sep collapse start res)
  show ?case
  proof (cases "find_from s sep start")
    case None
    then have "segments sep (drop start s) = [drop start s]"
      by (simp add: find_from_def find_char_None segments_no_sep)
    with None 1(2-) show ?thesis
      by (simp add: split_loop.simps [of s sep collapse start res])
  next
    case (Some e)
    then obtain i where i: "find_char sep (drop start s) = Some i" "e = start + i"
      by (auto simp: find_from_def)
    have le: "e + 1 \<le> length s"
      using find_from_bounds(2) [OF Some] by simp
    have seg: "segments sep (drop start s) =
        substr s start (e - start) # segments sep (drop (e + 1) s)"
      using segments_find [OF i(1)] i(2) by (simp add: substr_def add.commute)
    show ?thesis
      using 1(1) [OF Some refl le] 1(3) Some seg
      by (simp add: split_loop.simps [of s sep collapse start res] Let_def)
  qed
qed

lemma string_split_segments:
  "string_split s sep collapse =
     filter (keep_token collapse) (butlast (segments sep s)) @
     (if last (segments sep s) = [] then [] else [last (segments sep s)])"
proof (cases "s = []")
  case True
  then show ?thesis by (simp add: string_split_def)
next
  case False
  obtain st rs where L: "split_loop s sep collapse 0 [] = (st, rs)"
    by fastforce
  from split_loop_segments [OF _ L]
  have rs: "rs = filter (keep_token collapse) (butlast (segments sep s))"
    and st: "drop st s = last (segments sep s)" "st \<le> length s"
    by simp_all
  have "st < length s \<longleftrightarrow> last (segments sep s) \<noteq> []"
    using st by (metis drop_eq_Nil linorder_not_le)
  with False L rs st show ?thesis
    by (auto simp: string_split_def keep_token_def)
qed

lemma string_split_collapse: "string_split s sep True = filter (\<lambda>t. t \<noteq> []) (segments sep s)"
proof -
  obtain ts t where "segments sep s = ts @ [t]"
    by (meson rev_exhaust segments_not_Nil)
  moreover have "keep_token True = (\<lambda>t. t \<noteq> [])"
    by (simp add: keep_token_def fun_eq_iff)
  ultimately show ?thesis
    by (simp add: string_split_segments)
qed

lemma tokenize_url_tokens:
  "t \<in> set (tokenize_url u) \<Longrightarrow> t \<noteq> [] \<and> CHR ''/'' \<notin> set t"
  by (auto simp: tokenize_url_def string_split_collapse dest: segments_sep_free)

lemma tokenize_url_Nil [simp]: "tokenize_url [] = []"
  by (simp add: tokenize_url_def string_split_def)

lemma tokenize_url_join:
  assumes "\<forall>t \<in> set ts. t \<noteq> [] \<and> CHR ''/'' \<notin> set t"
  shows "tokenize_url (concat (map (\<lambda>t. CHR ''/'' # t) ts)) = ts"
proof -
  have "segments (CHR ''/'') (concat (map (\<lambda>t. CHR ''/'' # t) ts)) = [] # ts"
    using assms
  proof (induction ts)
    case (Cons t ts)
    then show ?case
    proof (cases ts)
      case (Cons u us)
      have "segments (CHR ''/'') (t @ CHR ''/'' # (u @ concat (map (\<lambda>t. CHR ''/'' # t) us)))
          = t # segments (CHR ''/'') (u @ concat (map (\<lambda>t. CHR ''/'' # t) us))"
        using Cons.prems by (intro segments_step) simp
      with Cons.IH Cons.prems Cons show ?thesis by simp
    qed (simp add: segments_no_sep)
  qed simp
  with assms show ?thesis
    by (simp add: tokenize_url_def string_split_collapse filter_id_conv)
qed

section \<open>Percent decoding refines the byte-list decoder\<close>

lemma hex_digit_value_range: "hex_digit_value c \<ge> 0 \<Longrightarrow> hex_digit_value c < 16"
  by (auto simp: hex_digit_value_def is_digit_def char_between_def split: if_splits)

text \<open>One step of the decoder on the unread part of a buffer, by the branch the loop takes.\<close>

lemma decode_stop:
  assumes "\<not> (r < n \<and> data ! r \<noteq> NUL)" "n \<le> length data"
  shows "decode (drop r (take n data)) = []"
  using assms by (cases "r < n") (simp_all add: drop_take_nth)

lemma decode_plus:
  assumes "r < n" "n \<le> length data" "data ! r = CHR ''+''"
  shows "decode (drop r (take n data)) = CHR '' '' # decode (drop (Suc r) (take n data))"
  using assms by (simp add: drop_take_nth)

lemma decode_hex:
  assumes "r < n" "n \<le> length data" "data ! r = CHR ''%''" "n - r > 2"
    "hex_digit_value (data ! (r + 1)) \<ge> 0" "hex_digit_value (data ! (r + 2)) \<ge> 0"
  shows "decode (drop r (take n data)) =
    hex_pair (hex_digit_value (data ! (r + 1))) (hex_digit_value (data ! (r + 2))) #
    decode (drop (r + 3) (take n data))"
  using assms drop_take_nth [of r n data] drop_take_nth [of "Suc r" n data]
    drop_take_nth [of "Suc (Suc r)" n data]
  by (simp add: numeral_3_eq_3)

lemma decode_copy:
  assumes "r < n" "n \<le> length data" "data ! r \<noteq> NUL" "data ! r \<noteq> CHR ''+''"
    "\<not> (data ! r = CHR ''%'' \<and> n - r > 2 \<and>
        hex_digit_value (data ! (r + 1)) \<ge> 0 \<and> hex_digit_value (data ! (r + 2)) \<ge> 0)"
  shows "decode (drop r (take n data)) = data ! r # decode (drop (Suc r) (take n data))"
proof (cases "n - r > 2")
  case True
  with assms drop_take_nth [of r n data] drop_take_nth [of "Suc r" n data]
    drop_take_nth [of "Suc (Suc r)" n data]
  show ?thesis by auto
next
  case False
  then have "length (drop (Suc r) (take n data)) < 2"
    using assms by simp
  then have "drop (Suc r) (take n data) = [] \<or> (\<exists>h. drop (Suc r) (take n data) = [h])"
    by (cases "drop (Suc r) (take n data)") auto
  with assms drop_take_nth [of r n data] show ?thesis
    by auto
qed

lemmas decode_step = decode_stop decode_plus decode_hex decode_copy

lemma unescape_loop_decode:
  "wpos \<le> rpos \<Longrightarrow> rpos \<le> sz \<Longrightarrow> sz \<le> length data \<Longrightarrow> unescape_loop data sz rpos wpos = (d, w) \<Longrightarrow>
   take w d = take wpos data @ decode (drop rpos (take sz data)) \<and> length d = length data \<and>
   w \<le> sz"
proof (induction data sz rpos wpos rule: unescape_loop.induct)
  case (1 data sz rpos wpos)
  note unfold = unescape_loop.simps [of data sz rpos wpos]
  show ?case
  proof (cases "rpos < sz \<and> data ! rpos \<noteq> NUL")
    case False
    with 1(4-) show ?thesis by (auto simp: unfold decode_stop)
  next
    case cont: True
    have T: "take (Suc wpos) (data[wpos := x]) = take wpos data @ [x]"
      and R: "rpos < k \<Longrightarrow> drop k (take sz (data[wpos := x])) = drop k (take sz data)" for x k
      using cont 1(4-) by (simp_all add: take_Suc_update drop_take_update)
    show ?thesis
    proof (cases "data ! rpos = CHR ''+''")
      case True
      with 1(1) [OF cont True] 1(4-) cont T R show ?thesis
        by (simp add: unfold decode_plus)
    next
      case np: False
      show ?thesis
      proof (cases "data ! rpos = CHR ''%'' \<and> sz - rpos > 2 \<and>
          hex_digit_value (data ! (rpos + 1)) \<ge> 0 \<and> hex_digit_value (data ! (rpos + 2)) \<ge> 0")
        case True
        then have "rpos + 3 \<le> sz" by linarith
        with True 1(2) [OF cont np True] 1(4-) cont np T R show ?thesis
          by (simp add: unfold decode_hex)
      next
        case nh: False
        have "unescape_loop data sz rpos wpos =
            unescape_loop (data[wpos := data ! rpos]) sz (rpos + 1) (wpos + 1)"
          by (subst unfold) (use cont np nh in auto)
        with 1(3) [OF cont np nh] 1(4-) cont np nh T R show ?thesis
          by (simp add: decode_copy)
      qed
    qed
  qed
qed

lemma http_unescape_decode: "http_unescape val = (decode val, length (decode val))"
proof (cases "val = []")
  case False
  obtain d w where L: "unescape_loop val (length val) 0 0 = (d, w)"
    by fastforce
  from unescape_loop_decode [OF _ _ _ L] have "take w d = decode val" "w \<le> length d"
    by simp_all
  then have "w = length (decode val)"
    by (metis length_take min.absorb2)
  with False L \<open>take w d = decode val\<close> show ?thesis
    by (simp add: http_unescape_def unescape_buf_raw_def)
qed (simp add: http_unescape_def)

lemma length_decode_le: "length (decode s) \<le> length s"
proof -
  obtain d w where L: "unescape_loop s (length s) 0 0 = (d, w)"
    by fastforce
  from unescape_loop_decode [OF _ _ _ L] show ?thesis
    by (metis append_Nil drop0 le_refl length_take min.bounded_iff min.cobounded1 take0 take_all zero_le)
qed

lemma hex_upper_value:
  "d < 16 \<Longrightarrow> hex_digit_value (hex_upper d) = int d"
  by (auto simp: hex_upper_def hex_digit_value_def is_digit_def char_between_def)

lemma hex_pair_of_char:
  "hex_pair (int (of_char c div 16)) (int (of_char c mod 16)) = c"
proof -
  have "or (push_bit 4 (n div 16)) (n mod 16) = n" for n :: int
  proof -
    have "or (push_bit 4 (drop_bit 4 n)) (take_bit 4 n) = n"
      by (rule bit_eqI) (auto simp: bit_simps)
    then show ?thesis by (simp add: drop_bit_eq_div take_bit_eq_mod)
  qed
  from this [of "int (of_char c)"] show ?thesis
    by (simp add: hex_pair_def zdiv_int zmod_int)
qed

lemma decode_percent_encode: "decode (percent_encode s) = s"
proof (induction s)
  case (Cons c s)
  have "of_char c < (256 :: nat)" by simp
  then have "of_char c div 16 < (16 :: nat)" "of_char c mod 16 < (16 :: nat)"
    using less_mult_imp_div_less [of "of_char c" 16 16] by simp_all
  with Cons show ?case
    using hex_pair_of_char [of c] by (simp add: percent_encode_def hex_upper_value)
qed (simp add: percent_encode_def)

section \<open>Canonical URLs and safe file names\<close>

text \<open>No two neighbouring slashes.\<close>

fun no_double_slash :: "string \<Rightarrow> bool" where
  "no_double_slash (a # b # cs) = (\<not> (a = CHR ''/'' \<and> b = CHR ''/'') \<and> no_double_slash (b # cs))"
| "no_double_slash _ = True"

lemma no_double_slash_Cons:
  "no_double_slash (a # s) \<longleftrightarrow>
   (s \<noteq> [] \<longrightarrow> \<not> (a = CHR ''/'' \<and> hd s = CHR ''/'')) \<and> no_double_slash s"
  by (cases s) auto

lemma unique_slashes_hd:
  "unique_slashes (Some (CHR ''/'')) s \<noteq> [] \<Longrightarrow> hd (unique_slashes (Some (CHR ''/'')) s) \<noteq> CHR ''/''"
proof (induction s)
  case (Cons c s)
  then show ?case by (cases "c = CHR ''/''") simp_all
qed simp

lemma no_double_slash_unique: "no_double_slash (unique_slashes prev s)"
proof (induction s arbitrary: prev)
  case (Cons c s)
  then show ?case
    using unique_slashes_hd [of s] by (cases "c = CHR ''/''") (simp_all add: no_double_slash_Cons)
qed simp

lemma unique_slashes_id:
  "no_double_slash s \<Longrightarrow> \<not> (prev = Some (CHR ''/'') \<and> s \<noteq> [] \<and> hd s = CHR ''/'') \<Longrightarrow>
   unique_slashes prev s = s"
proof (induction s arbitrary: prev)
  case (Cons c s)
  have "unique_slashes (Some c) s = s"
    using Cons by (intro Cons.IH) (auto simp: no_double_slash_Cons)
  with Cons.prems(2) show ?case by auto
qed simp

lemma no_double_slash_snoc:
  "no_double_slash (s @ [c]) \<longleftrightarrow>
   no_double_slash s \<and> (s \<noteq> [] \<longrightarrow> \<not> (last s = CHR ''/'' \<and> c = CHR ''/''))"
  by (induction s) (auto simp: no_double_slash_Cons hd_append)

lemma no_double_slash_butlast: "no_double_slash s \<Longrightarrow> no_double_slash (butlast s)"
  by (cases s rule: rev_cases) (simp_all add: no_double_slash_snoc)

lemma segments_unique_slashes:
  "filter (\<lambda>t. t \<noteq> []) (segments (CHR ''/'') (unique_slashes prev s)) =
   filter (\<lambda>t. t \<noteq> []) (segments (CHR ''/'') s) \<and>
   (prev \<noteq> Some (CHR ''/'') \<longrightarrow>
     hd (segments (CHR ''/'') (unique_slashes prev s)) = hd (segments (CHR ''/'') s))"
proof (induction s arbitrary: prev)
  case (Cons c cs)
  obtain t ts u us where s: "segments (CHR ''/'') cs = t # ts"
      "segments (CHR ''/'') (unique_slashes (Some c) cs) = u # us"
    by (meson list.exhaust segments_not_Nil)
  show ?case
  proof (cases "c = CHR ''/''")
    case True
    then show ?thesis
      using Cons.IH [of prev] Cons.IH [of "Some c"] by simp
  next
    case False
    then show ?thesis
      using Cons.IH [of "Some c"] s by (auto split: if_splits)
  qed
qed simp

lemma segments_snoc: "segments sep (s @ [sep]) = segments sep s @ [[]]"
proof (induction s)
  case (Cons c s)
  obtain t ts where "segments sep s = t # ts"
    by (meson list.exhaust segments_not_Nil)
  with Cons show ?case by simp
qed simp

lemma tokenize_standardize: "tokenize_url (standardize_url u) = tokenize_url u"
proof -
  have "filter (\<lambda>t. t \<noteq> []) (segments (CHR ''/'') (butlast r)) = filter (\<lambda>t. t \<noteq> []) (segments (CHR ''/'') r)"
    if "length r > 1" "last r = CHR ''/''" for r
    using that by (cases r rule: rev_cases) (simp_all add: segments_snoc)
  then show ?thesis
    using segments_unique_slashes [of None u]
    by (simp add: tokenize_url_def string_split_collapse standardize_url_def Let_def)
qed

lemma no_double_slash_standardize: "no_double_slash (standardize_url u)"
  by (simp add: standardize_url_def Let_def no_double_slash_unique no_double_slash_butlast)

lemma last_butlast_no_double:
  "no_double_slash r \<Longrightarrow> last r = CHR ''/'' \<Longrightarrow> length (butlast r) > 1 \<Longrightarrow>
   last (butlast r) \<noteq> CHR ''/''"
  by (cases r rule: rev_cases) (auto simp: no_double_slash_snoc)

lemma standardize_url_trailing:
  "length (standardize_url u) > 1 \<Longrightarrow> last (standardize_url u) \<noteq> CHR ''/''"
  using last_butlast_no_double [OF no_double_slash_unique [of None u]]
  by (auto simp: standardize_url_def Let_def split: if_splits)

lemma standardize_url_idem: "standardize_url (standardize_url u) = standardize_url u"
proof -
  have "unique_slashes None (standardize_url u) = standardize_url u"
    by (simp add: unique_slashes_id no_double_slash_standardize)
  then show ?thesis
    using standardize_url_trailing [of u] by (subst standardize_url_def) (auto simp: Let_def)
qed

abbreviation is_path_separator :: "char \<Rightarrow> bool" where
  "is_path_separator \<equiv> \<lambda>c. c = CHR ''/'' \<or> c = CHR 0x5C"

definition basename_of :: "string \<Rightarrow> string" where
  "basename_of f =
     (case find_last is_path_separator f of Some pos \<Rightarrow> drop (pos + 1) f | None \<Rightarrow> f)"

lemma basename_of_safe: "suffix (basename_of f) f \<and> list_all (\<lambda>c. \<not> is_path_separator c) (basename_of f)"
proof (cases "find_last is_path_separator f")
  case None
  then show ?thesis
    using iffD1 [OF find_last_None None] unfolding basename_of_def list_all_iff by simp
next
  case (Some i)
  then show ?thesis
    using find_last_Some [OF Some] unfolding basename_of_def list_all_iff by (simp add: suffix_drop)
qed

lemma basename_of_id: "list_all (\<lambda>c. \<not> is_path_separator c) f \<Longrightarrow> basename_of f = f"
  by (simp add: basename_of_def list_all_iff iffD2 [OF find_last_None])

lemma sanitize_alt:
  "sanitize_upload_filename f =
     (if f = [] \<or> NUL \<in> set f \<or> basename_of f \<in> {[], ''.'', ''..''} then [] else basename_of f)"
  unfolding sanitize_upload_filename_def basename_of_def Let_def
  using find_char_None [of NUL f] by simp

section \<open>Properties\<close>

text \<open>C22: the in-place decoder of \<^verbatim>\<open>unescape_helpers.hpp\<close>, which reads and writes one buffer
  at two positions, leaves in its first \<open>n\<close> bytes exactly the decoding of the bytes it was given
  (up to the first NUL): no write disturbs a byte that is still to be read, the buffer keeps its
  length and \<open>n\<close> never exceeds the given size.\<close>

theorem unescape_in_place:
  assumes "sz \<le> length data" "unescape_buf_raw data sz = (buf, n)"
  shows "take n buf = decode (take sz data) \<and> length buf = length data \<and> n \<le> sz"
proof (cases "sz = 0")
  case True
  with assms show ?thesis by (simp add: unescape_buf_raw_def)
next
  case False
  with assms have L: "unescape_loop data sz 0 0 = (buf, n)"
    by (simp add: unescape_buf_raw_def)
  from unescape_loop_decode [OF _ _ assms(1) L] show ?thesis by simp
qed

lemma unescape_in_place_witness:
  "unescape_buf_raw ''a+%41%zz'' 6 = (''a A%1%zz'', 4) \<and>
   take 4 ''a A%1%zz'' = decode (take 6 ''a+%41%zz'')"
proof -
  have E: "unescape_buf_raw ''a+%41%zz'' 6 = (''a A%1%zz'', 4)"
    by code_simp
  have "6 \<le> length ''a+%41%zz''"
    by simp
  from unescape_in_place [OF this E] E show ?thesis by blast
qed

text \<open>percent-encoding every byte of any string and handing the result to
  \<^verbatim>\<open>http_unescape\<close> gives the string back, with its length, NUL bytes included.\<close>

theorem http_unescape_roundtrip: "http_unescape (percent_encode s) = (s, length s)"
  by (simp add: http_unescape_decode decode_percent_encode)

text \<open>\<^verbatim>\<open>string_split\<close> returns, for both settings of \<^verbatim>\<open>collapse\<close>, the runs between
  separators without an empty last one, and with collapsing exactly the non-empty runs; the
  runs glued back with the separator are the input.\<close>

theorem string_split_spec:
  "string_split s sep True = filter (\<lambda>t. t \<noteq> []) (segments sep s) \<and>
   string_split s sep False =
     (if last (segments sep s) = [] then butlast (segments sep s) else segments sep s) \<and>
   join [sep] (segments sep s) = s"
proof -
  have "filter (keep_token False) ts = ts" for ts
    by (simp add: keep_token_def)
  moreover obtain ts t where "segments sep s = ts @ [t]"
    by (meson rev_exhaust segments_not_Nil)
  ultimately have "string_split s sep False =
     (if last (segments sep s) = [] then butlast (segments sep s) else segments sep s)"
    by (simp add: string_split_segments)
  then show ?thesis
    by (simp add: string_split_collapse segments_join)
qed

text \<open>\<^verbatim>\<open>standardize_url\<close> yields a canonical URL: applying it again changes nothing, no two
  slashes are adjacent, only the root ends in a slash, and the path segments the router sees are
  those of the original URL.\<close>

theorem standardize_url_canonical:
  "standardize_url (standardize_url u) = standardize_url u \<and>
   no_double_slash (standardize_url u) \<and>
   \<not> (length (standardize_url u) > 1 \<and> last (standardize_url u) = CHR ''/'') \<and>
   tokenize_url (standardize_url u) = tokenize_url u"
  using standardize_url_trailing [of u]
  by (auto simp: standardize_url_idem no_double_slash_standardize tokenize_standardize)

text \<open>C23: a file name a client sends never leaves the upload directory: the sanitised name is
  empty (rejected) or a suffix of the given one that contains no slash, backslash or NUL and is
  neither \<^verbatim>\<open>.\<close> nor \<^verbatim>\<open>..\<close>; and sanitising is idempotent.\<close>

theorem sanitize_upload_filename_safe:
  "sanitize_upload_filename f = [] \<or>
   suffix (sanitize_upload_filename f) f \<and>
   list_all (\<lambda>c. c \<notin> {CHR ''/'', CHR 0x5C, NUL}) (sanitize_upload_filename f) \<and>
   sanitize_upload_filename f \<notin> {''.'', ''..''} \<and>
   sanitize_upload_filename (sanitize_upload_filename f) = sanitize_upload_filename f"
proof (cases "sanitize_upload_filename f = []")
  case False
  define b where "b = basename_of f"
  have b: "sanitize_upload_filename f = b" "NUL \<notin> set f" "b \<notin> {[], ''.'', ''..''}"
    using False by (simp_all add: sanitize_alt b_def split: if_splits)
  moreover have S: "suffix b f" "list_all (\<lambda>c. \<not> is_path_separator c) b"
    using basename_of_safe [of f] by (simp_all add: b_def)
  moreover have N: "NUL \<notin> set b"
    using b(2) S(1) set_mono_suffix by blast
  moreover have "sanitize_upload_filename b = b"
    using b(3) N by (simp add: sanitize_alt basename_of_id [OF S(2)])
  moreover have "list_all (\<lambda>c. c \<notin> {CHR ''/'', CHR 0x5C, NUL}) b"
    using S(2) N unfolding list_all_iff by blast
  ultimately show ?thesis
    by simp
qed simp

end
