(* ===== verification/Cookie.thy ===== *)
theory Cookie
  imports String_Utilities
begin

text \<open>
  Cookies (\<^verbatim>\<open>cookie.cpp\<close>, \<^verbatim>\<open>cookie.hpp\<close>): the value type with its validating setters, the rendering of a
  \<^verbatim>\<open>Set-Cookie\<close> header with the date formatter, and the parser of a \<^verbatim>\<open>Cookie\<close> header.  A setter that
  throws leaves the cookie as it was, so setters return the new cookie or the exception.  The lemmas
  show that no history of setters and parses renders a header with an attribute the caller did not
  set, that the parser is the token parser applied between semicolons, that it inverts the
  rendering of name and value pairs, and that the date printed is the date of the instant.
\<close>

section \<open>The C library's calendar\<close>

record tm =
  tm_sec :: int
  tm_min :: int
  tm_hour :: int
  tm_mday :: int
  tm_mon :: int
  tm_year :: int
  tm_wday :: int

text \<open>Day number (1970-01-01 is 0) to civil date in the proleptic Gregorian calendar, with years
  that start in March so that the leap day is the last of its year.\<close>

definition march_year :: "int \<Rightarrow> int \<times> int" where
  "march_year days =
     (let z = days + 719468;
          doe = z mod 146097;
          c = min 3 (doe div 36524);
          doc = doe - c * 36524;
          r = doc mod 1461;
          y = min 3 (r div 365)
      in (400 * (z div 146097) + 100 * c + 4 * (doc div 1461) + y, r - 365 * y))"

definition civil_from_days :: "int \<Rightarrow> int \<times> int \<times> int" where
  "civil_from_days days =
     (let (y, doy) = march_year days;
          mp = (5 * doy + 2) div 153;
          m = (if mp < 10 then mp + 3 else mp - 9)
      in (if m \<le> 2 then y + 1 else y, m, doy - (153 * mp + 2) div 5 + 1))"

text \<open>\<^verbatim>\<open>gmtime_r\<close>: it fails when the year does not fit an \<^verbatim>\<open>int\<close>, and then what it leaves in the
  structure is unspecified.\<close>

definition gmtime_r :: "int \<Rightarrow> tm option" where
  "gmtime_r t =
     (let days = t div 86400; secs = t mod 86400; (y, m, d) = civil_from_days days in
      if - (2 ^ 31) \<le> y - 1900 \<and> y - 1900 < 2 ^ 31 then
        Some \<lparr>tm_sec = secs mod 60, tm_min = secs div 60 mod 60, tm_hour = secs div 3600, tm_mday = d,
              tm_mon = m - 1, tm_year = y - 1900, tm_wday = (days + 4) mod 7\<rparr>
      else None)"

text \<open>\<^verbatim>\<open>%0wd\<close> of \<^verbatim>\<open>printf\<close>.\<close>

definition pad_int :: "nat \<Rightarrow> int \<Rightarrow> string" where
  "pad_int w i =
     (let s = show_nat (nat \<bar>i\<bar>); z = replicate (w - (if i < 0 then 1 else 0) - length s) CHR ''0''
      in (if i < 0 then ''-'' else []) @ z @ s)"

definition kDayNames :: "string list" where
  "kDayNames = [''Sun'', ''Mon'', ''Tue'', ''Wed'', ''Thu'', ''Fri'', ''Sat'']"

definition kMonthNames :: "string list" where
  "kMonthNames =
     [''Jan'', ''Feb'', ''Mar'', ''Apr'', ''May'', ''Jun'', ''Jul'', ''Aug'', ''Sep'', ''Oct'', ''Nov'', ''Dec'']"

definition fixdate_text :: "tm \<Rightarrow> string" where
  "fixdate_text tm =
     (let wday = (if 0 \<le> tm_wday tm \<and> tm_wday tm < 7 then tm_wday tm else 0);
          mon = (if 0 \<le> tm_mon tm \<and> tm_mon tm < 12 then tm_mon tm else 0)
      in concat [kDayNames ! nat wday, '', '', pad_int 2 (tm_mday tm), '' '', kMonthNames ! nat mon, '' '',
           pad_int 4 (tm_year tm + 1900), '' '', pad_int 2 (tm_hour tm), '':'', pad_int 2 (tm_min tm), '':'',
           pad_int 2 (tm_sec tm), '' GMT''])"

text \<open>The buffer holds 39 bytes and the terminator.\<close>

definition format_imf_fixdate :: "int \<Rightarrow> string result" where
  "format_imf_fixdate t =
     (case gmtime_r t of
        None \<Rightarrow> Inl (undefined_behaviour ''gmtime_r failed'')
      | Some tm \<Rightarrow>
          if tm_year tm + 1900 \<ge> 2 ^ 31 then Inl (undefined_behaviour ''signed overflow'')
          else Inr (take 39 (fixdate_text tm)))"

section \<open>The cookie and its setters\<close>

datatype same_site_mode = ss_unset | ss_strict | ss_lax | ss_none

record cookie =
  ck_name :: string
  ck_value :: string
  ck_domain :: string
  ck_path :: string
  ck_expires :: "int option"
  ck_max_age :: "int option"
  ck_secure :: bool
  ck_http_only :: bool
  ck_same_site :: same_site_mode

definition default_cookie :: cookie where
  "default_cookie =
     \<lparr>ck_name = [], ck_value = [], ck_domain = [], ck_path = [], ck_expires = None, ck_max_age = None,
      ck_secure = False, ck_http_only = False, ck_same_site = ss_unset\<rparr>"

definition is_forbidden_ctrl :: "char \<Rightarrow> bool" where
  "is_forbidden_ctrl c = (c = CR \<or> c = LF \<or> c = NUL)"

definition is_invalid_name_byte :: "char \<Rightarrow> bool" where
  "is_invalid_name_byte c =
     ((of_char c :: nat) \<le> 0x20 \<or> (of_char c :: nat) = 0x7f \<or> c = CHR '';'' \<or> c = CHR ''='')"

definition validate_name :: "string \<Rightarrow> string \<Rightarrow> exn option" where
  "validate_name v ctx =
     (if list_ex is_invalid_name_byte v then
        Some (invalid_argument (ctx @ '': name contains forbidden character (CR, LF, NUL, whitespace, '' @
          [CHR 0x27, CHR '';'', CHR 0x27] @ '', '' @ [CHR 0x27, CHR ''='', CHR 0x27] @ '', or other control)''))
      else None)"

definition validate_value :: "string \<Rightarrow> string \<Rightarrow> exn option" where
  "validate_value v ctx =
     (if list_ex is_forbidden_ctrl v \<or> CHR '';'' \<in> set v then
        Some (invalid_argument (ctx @ '': value contains forbidden character (CR, LF, NUL, or '' @
          [CHR 0x27, CHR '';'', CHR 0x27] @ '')''))
      else None)"

definition validate_attr_param :: "string \<Rightarrow> string \<Rightarrow> exn option" where
  "validate_attr_param setter v =
     (if list_ex is_forbidden_ctrl v then
        Some (invalid_argument (setter @ '': attribute value contains forbidden control character (CR, LF, or NUL)''))
      else if CHR '';'' \<in> set v then
        Some (invalid_argument (setter @ '': attribute value contains forbidden character ('' @
          [CHR 0x27, CHR '';'', CHR 0x27] @ '')''))
      else if CHR '','' \<in> set v then
        Some (invalid_argument (setter @ '': attribute value contains forbidden character ('' @
          [CHR 0x27, CHR '','', CHR 0x27] @ ''); commas can split Set-Cookie headers in legacy HTTP/1.0 parsers''))
      else None)"

definition guarded :: "exn option \<Rightarrow> 'a \<Rightarrow> 'a result" where
  "guarded e x = (case e of Some ex \<Rightarrow> Inl ex | None \<Rightarrow> Inr x)"

definition with_name :: "string \<Rightarrow> cookie \<Rightarrow> cookie result" where
  "with_name v c = guarded (validate_name v ''cookie::with_name'') (c\<lparr>ck_name := v\<rparr>)"

definition with_value :: "string \<Rightarrow> cookie \<Rightarrow> cookie result" where
  "with_value v c = guarded (validate_value v ''cookie::with_value'') (c\<lparr>ck_value := v\<rparr>)"

definition with_domain :: "string \<Rightarrow> cookie \<Rightarrow> cookie result" where
  "with_domain v c = guarded (validate_attr_param ''cookie::with_domain'' v) (c\<lparr>ck_domain := v\<rparr>)"

definition with_path :: "string \<Rightarrow> cookie \<Rightarrow> cookie result" where
  "with_path v c = guarded (validate_attr_param ''cookie::with_path'' v) (c\<lparr>ck_path := v\<rparr>)"

definition with_expires :: "int \<Rightarrow> cookie \<Rightarrow> cookie" where
  "with_expires t c = c\<lparr>ck_expires := Some t\<rparr>"

definition with_max_age :: "int \<Rightarrow> cookie \<Rightarrow> cookie" where
  "with_max_age t c = c\<lparr>ck_max_age := Some t\<rparr>"

definition with_secure :: "bool \<Rightarrow> cookie \<Rightarrow> cookie" where
  "with_secure v c = c\<lparr>ck_secure := v\<rparr>"

definition with_http_only :: "bool \<Rightarrow> cookie \<Rightarrow> cookie" where
  "with_http_only v c = c\<lparr>ck_http_only := v\<rparr>"

definition with_same_site :: "same_site_mode \<Rightarrow> cookie \<Rightarrow> cookie" where
  "with_same_site v c = c\<lparr>ck_same_site := v\<rparr>"

definition is_effective_secure :: "cookie \<Rightarrow> bool" where
  "is_effective_secure c = (ck_secure c \<or> ck_same_site c = ss_none)"

section \<open>Rendering\<close>

fun same_site_attribute_text :: "same_site_mode \<Rightarrow> string" where
  "same_site_attribute_text ss_strict = ''; SameSite=Strict''"
| "same_site_attribute_text ss_lax = ''; SameSite=Lax''"
| "same_site_attribute_text ss_none = ''; SameSite=None''"
| "same_site_attribute_text ss_unset = []"

definition append_time_attributes :: "cookie \<Rightarrow> string \<Rightarrow> string result" where
  "append_time_attributes c out =
     bind_result
       (case ck_expires c of
          None \<Rightarrow> Inr out
        | Some t \<Rightarrow> bind_result (format_imf_fixdate t) (\<lambda>d. Inr (out @ ''; Expires='' @ d)))
       (\<lambda>out. Inr (case ck_max_age c of None \<Rightarrow> out | Some t \<Rightarrow> out @ ''; Max-Age='' @ show_int t))"

definition append_target_attributes :: "cookie \<Rightarrow> string \<Rightarrow> string" where
  "append_target_attributes c out =
     (let out = (if ck_domain c \<noteq> [] then out @ ''; Domain='' @ ck_domain c else out)
      in if ck_path c \<noteq> [] then out @ ''; Path='' @ ck_path c else out)"

definition append_flag_attributes :: "cookie \<Rightarrow> string \<Rightarrow> string" where
  "append_flag_attributes c out =
     (let effective_secure = (ck_secure c \<or> ck_same_site c = ss_none);
          out = (if effective_secure then out @ ''; Secure'' else out)
      in if ck_http_only c then out @ ''; HttpOnly'' else out)"

definition to_set_cookie_header :: "cookie \<Rightarrow> string result" where
  "to_set_cookie_header c =
     (if ck_name c = [] then
        Inl (invalid_argument ''cookie::to_set_cookie_header: name is empty -- a cookie with no name is not a valid Set-Cookie'')
      else
        case validate_name (ck_name c) ''cookie::to_set_cookie_header'' of
          Some e \<Rightarrow> Inl e
        | None \<Rightarrow>
            (case validate_value (ck_value c) ''cookie::to_set_cookie_header'' of
               Some e \<Rightarrow> Inl e
             | None \<Rightarrow>
                 bind_result (append_time_attributes c (ck_name c @ ''='' @ ck_value c))
                   (\<lambda>out. Inr (append_flag_attributes c (append_target_attributes c out)
                      @ same_site_attribute_text (ck_same_site c)))))"

section \<open>Parsing\<close>

definition is_ws :: "char \<Rightarrow> bool" where
  "is_ws c = (c = CHR '' '' \<or> c = TAB)"

fun trim_front :: "string \<Rightarrow> string" where
  "trim_front [] = []"
| "trim_front (c # cs) = (if is_ws c then trim_front cs else c # cs)"

definition trim_ws :: "string \<Rightarrow> string" where
  "trim_ws s = rev (trim_front (rev (trim_front s)))"

definition strip_quotes :: "string \<Rightarrow> string" where
  "strip_quotes v =
     (if 2 \<le> length v \<and> hd v = CHR 0x22 \<and> last v = CHR 0x22 then substr v 1 (length v - 2) else v)"

definition parse_cookie_token :: "string \<Rightarrow> (string \<times> string) option" where
  "parse_cookie_token tok0 =
     (let tok = trim_ws tok0 in
      if tok = [] then None
      else
        case find_char CHR ''='' tok of
          None \<Rightarrow> None
        | Some eq \<Rightarrow>
            if eq = 0 then None
            else
              (let name = trim_ws (substr tok 0 eq); value = strip_quotes (drop (eq + 1) tok) in
               if name = [] then None else Some (name, value)))"

definition cookie_of_pair :: "string \<times> string \<Rightarrow> cookie" where
  "cookie_of_pair p = default_cookie\<lparr>ck_name := fst p, ck_value := snd p\<rparr>"

function parse_cookies_loop :: "string \<Rightarrow> nat \<Rightarrow> cookie list \<Rightarrow> cookie list" where
  "parse_cookies_loop h pos out =
     (if pos \<le> length h then
        (let end_pos = find_from h (CHR '';'') pos;
             tok_end = (case end_pos of None \<Rightarrow> length h | Some e \<Rightarrow> e);
             out' = (case parse_cookie_token (substr h pos (tok_end - pos)) of
                       None \<Rightarrow> out
                     | Some p \<Rightarrow> out @ [cookie_of_pair p])
         in case end_pos of
              None \<Rightarrow> out'
            | Some e \<Rightarrow> parse_cookies_loop h (e + 1) out')
      else out)"
  by pat_completeness auto
termination
  by (relation "measure (\<lambda>(h, pos, out). Suc (length h) - pos)") (auto dest: find_from_bounds(1) [OF sym] find_from_bounds(2) [OF sym])

declare parse_cookies_loop.simps [simp del]

definition parse_cookie_header :: "string \<Rightarrow> cookie list" where
  "parse_cookie_header h = (if h = [] then [] else parse_cookies_loop h 0 [])"

section \<open>The calendar is inverted by counting days\<close>

definition days_from_civil :: "int \<Rightarrow> int \<Rightarrow> int \<Rightarrow> int" where
  "days_from_civil y m d =
     (let y' = (if m \<le> 2 then y - 1 else y); yoe = y' mod 400; mp = (if m \<le> 2 then m + 9 else m - 3)
      in y' div 400 * 146097 + 365 * yoe + yoe div 4 - yoe div 100 + (153 * mp + 2) div 5 + d - 1 - 719468)"

lemma year_digits:
  assumes "0 \<le> c" "c \<le> 3" "0 \<le> b" "b \<le> 24" "0 \<le> y" "y \<le> (3 :: int)"
  shows "(400 * era + 100 * c + 4 * b + y) div 400 = era"
    "(400 * era + 100 * c + 4 * b + y) mod 400 = 100 * c + 4 * b + y"
    "(100 * c + 4 * b + y) div 4 = 25 * c + b" "(100 * c + 4 * b + y) div 100 = c"
proof -
  define yoe where "yoe = 100 * c + 4 * b + y"
  have yoe: "0 \<le> yoe" "yoe < 400"
    using assms unfolding yoe_def by linarith+
  have A: "400 * era + 100 * c + 4 * b + y = yoe + 400 * era"
    by (simp add: yoe_def)
  have "(yoe + 400 * era) div 400 = era" "(yoe + 400 * era) mod 400 = yoe"
    using yoe by simp_all
  then show "(400 * era + 100 * c + 4 * b + y) div 400 = era"
      "(400 * era + 100 * c + 4 * b + y) mod 400 = 100 * c + 4 * b + y"
    unfolding A yoe_def by auto
  have B: "100 * c + 4 * b + y = y + (25 * c + b) * 4" and C: "100 * c + 4 * b + y = (4 * b + y) + c * 100"
    by simp_all
  have "(y + (25 * c + b) * 4) div 4 = 25 * c + b" "((4 * b + y) + c * 100) div 100 = c"
    using assms by simp_all
  then show "(100 * c + 4 * b + y) div 4 = 25 * c + b" "(100 * c + 4 * b + y) div 100 = c"
    by (simp_all only: B [symmetric] C [symmetric])
qed

lemma quotient_bounds: "0 < k \<Longrightarrow> k * (x div k) \<le> x \<and> x < k * (x div k) + (k :: int)"
  by (metis add.commute add_less_cancel_left mult_div_mod_eq pos_mod_bound pos_mod_sign le_add_same_cancel1)

lemma march_year_correct:
  assumes "march_year days = (Y, doy)"
  shows "0 \<le> doy \<and> doy \<le> 365 \<and>
    days = Y div 400 * 146097 + 365 * (Y mod 400) + Y mod 400 div 4 - Y mod 400 div 100 + doy - 719468"
proof -
  define z where "z = days + 719468"
  define doe where "doe = z mod 146097"
  define c where "c = min 3 (doe div 36524)"
  define doc where "doc = doe - c * 36524"
  define b where "b = doc div 1461"
  define r where "r = doc mod 1461"
  define y where "y = min 3 (r div 365)"
  have Y: "Y = 400 * (z div 146097) + 100 * c + 4 * b + y" and doy: "doy = r - 365 * y"
    using assms [unfolded march_year_def Let_def, folded z_def, folded doe_def, folded c_def, folded doc_def,
        folded b_def r_def, folded y_def]
    by blast+
  have doe: "0 \<le> doe" "doe \<le> 146096"
    unfolding doe_def by (simp, smt (verit) pos_mod_bound)
  have c: "0 \<le> c" "c \<le> 3" "0 \<le> doc" "doc \<le> 36524"
    unfolding doc_def c_def using doe quotient_bounds [of 36524 doe] by (auto simp: min_def)
  have b: "0 \<le> b" "b \<le> 24"
    unfolding b_def using c quotient_bounds [of 1461 doc] by auto
  have r: "0 \<le> r" "r \<le> 1460"
    unfolding r_def by (simp, smt (verit) pos_mod_bound)
  have y: "0 \<le> y" "y \<le> 3" "0 \<le> doy" "doy \<le> 365"
    unfolding doy y_def using r quotient_bounds [of 365 r] by (auto simp: min_def)
  have "z = z div 146097 * 146097 + doe" "doe = 36524 * c + doc" "doc = 1461 * b + r"
    by (simp_all add: doe_def doc_def b_def r_def)
  with y show ?thesis
    unfolding Y year_digits [OF c(1,2) b y(1,2)] using doy z_def by (simp add: algebra_simps)
qed

lemma civil_from_days_correct:
  assumes "civil_from_days days = (y, m, d)"
  shows "days_from_civil y m d = days \<and> 1 \<le> m \<and> m \<le> 12 \<and> 1 \<le> d \<and> d \<le> 31"
proof -
  obtain Y doy where my: "march_year days = (Y, doy)"
    by (cases "march_year days")
  note M = march_year_correct [OF my]
  then have doy: "0 \<le> doy" "doy \<le> 365"
    by blast+
  define mp where "mp = (5 * doy + 2) div 153"
  have mp: "0 \<le> mp" "mp \<le> 11"
    unfolding mp_def using doy quotient_bounds [of 153 "5 * doy + 2"] by linarith+
  have dd: "d = doy - (153 * mp + 2) div 5 + 1" and m: "m = (if mp < 10 then mp + 3 else mp - 9)"
      and y: "y = (if m \<le> 2 then Y + 1 else Y)"
    using assms [unfolded civil_from_days_def my Let_def split_conv, folded mp_def] by blast+
  have "1 \<le> d \<and> d \<le> 31"
    unfolding dd
    using doy quotient_bounds [of 153 "5 * doy + 2", folded mp_def] quotient_bounds [of 5 "153 * mp + 2"]
    by linarith
  moreover have "1 \<le> m \<and> m \<le> 12" "m \<le> 2 \<longleftrightarrow> \<not> mp < 10"
    using mp by (auto simp: m)
  ultimately show ?thesis
    using M by (auto simp: days_from_civil_def Let_def y m dd)
qed

section \<open>What a rendered header contains\<close>

text \<open>Bytes that neither end an attribute nor a header line.\<close>

definition plain :: "char \<Rightarrow> bool" where
  "plain c = (c \<noteq> CHR '';'' \<and> \<not> is_forbidden_ctrl c)"

lemma is_digit_plain: "is_digit c \<Longrightarrow> plain c"
  by (auto simp: plain_def is_forbidden_ctrl_def is_digit_def char_between_def)

lemma digit_char_is_digit: "d < 10 \<Longrightarrow> is_digit (digit_char d)"
  by (simp add: digit_char_def is_digit_def char_between_def)

lemma show_nat_digits: "list_all is_digit (show_nat n)"
proof -
  have "list_all is_digit (show_base b n)" if "b = 10" for b
    using that
  proof (induction b n rule: show_base.induct)
    case (1 b n)
    then show ?case
      by (subst show_base.simps) (auto simp: digit_char_is_digit)
  qed
  then show ?thesis
    by (simp add: show_nat_def)
qed

lemma show_nat_plain: "list_all plain (show_nat n)"
  using show_nat_digits by (simp add: list_all_iff is_digit_plain)

lemma plain_chars: "plain CHR ''0''" "plain CHR ''-''"
  by code_simp+

lemma pad_int_plain: "list_all plain (pad_int w i)"
proof -
  have "list_all plain (replicate n CHR ''0'')" for n
    by (induction n) (simp_all add: plain_chars)
  then show ?thesis
    by (simp add: pad_int_def Let_def show_nat_plain plain_chars)
qed

lemma show_int_plain: "list_all plain (show_int i)"
  by (simp add: show_int_def show_nat_plain plain_chars)

lemma names_plain:
  "list_all (list_all plain) kDayNames" "list_all (list_all plain) kMonthNames"
  by code_simp+

lemma nth_plain: "list_all (list_all plain) ns \<Longrightarrow> i < length ns \<Longrightarrow> list_all plain (ns ! i)"
  by (simp add: list_all_length)

lemma fixdate_plain:
  assumes "format_imf_fixdate t = Inr d"
  shows "list_all plain d"
proof -
  have len: "length kDayNames = 7" "length kMonthNames = 12"
    by code_simp+
  have "list_all plain (kDayNames ! nat (if 0 \<le> w \<and> w < 7 then w else 0))" for w :: int
    by (rule nth_plain) (simp_all add: names_plain len nat_less_iff)
  moreover have "list_all plain (kMonthNames ! nat (if 0 \<le> m \<and> m < 12 then m else 0))" for m :: int
    by (rule nth_plain) (simp_all add: names_plain len nat_less_iff)
  moreover have "list_all plain '', ''" "list_all plain '' ''" "list_all plain '':''" "list_all plain '' GMT''"
    by code_simp+
  ultimately have "list_all plain (fixdate_text tm)" for tm
    unfolding fixdate_text_def Let_def concat.simps list_all_append by (simp add: pad_int_plain)
  moreover obtain tm where "d = take 39 (fixdate_text tm)"
    using assms by (auto simp: format_imf_fixdate_def split: option.splits if_splits)
  ultimately show ?thesis
    by (metis in_set_takeD list_all_iff)
qed

lemma civil_year_bounds:
  assumes "0 \<le> days" "days \<le> 2932896" "civil_from_days days = (y, m, d)"
  shows "0 \<le> y \<and> y \<le> 9999"
proof -
  obtain Y doy where my: "march_year days = (Y, doy)"
    by (cases "march_year days")
  note M = march_year_correct [OF my]
  define era where "era = Y div 400"
  define yoe where "yoe = Y mod 400"
  have Y: "Y = 400 * era + yoe" "0 \<le> yoe" "yoe \<le> 399"
    by (simp_all add: era_def yoe_def)
  have q: "yoe - 3 \<le> 4 * (yoe div 4)" "4 * (yoe div 4) \<le> yoe" "yoe - 99 \<le> 100 * (yoe div 100)" "100 * (yoe div 100) \<le> yoe"
    using quotient_bounds [of 4 yoe] quotient_bounds [of 100 yoe] by auto
  have eq: "days = era * 146097 + 365 * yoe + yoe div 4 - yoe div 100 + doy - 719468" "0 \<le> doy" "doy \<le> 365"
    using M unfolding era_def yoe_def by auto
  have era: "4 \<le> era" "era \<le> 24"
    using eq q Y assms(1,2) by linarith+
  have "doy \<le> 305" if "era = 24" "yoe = 399"
    using eq(1) assms(2) unfolding that by simp
  then have "\<not> (era = 24 \<and> yoe = 399 \<and> 10 \<le> (5 * doy + 2) div 153)"
    using quotient_bounds [of 153 "5 * doy + 2"] by linarith
  moreover have "y = Y \<or> (y = Y + 1 \<and> 10 \<le> (5 * doy + 2) div 153)"
    using assms(3) eq(2) unfolding civil_from_days_def my Let_def split_conv
    using quotient_bounds [of 153 "5 * doy + 2"] by (auto split: if_splits)
  ultimately show ?thesis
    using Y era by auto
qed

lemma pad_int_length: "0 \<le> i \<Longrightarrow> i < 10 ^ Suc k \<Longrightarrow> length (pad_int (Suc k) i) = Suc k"
  using show_base_length [of "nat i" k] by (simp add: pad_int_def Let_def show_nat_def nat_less_iff)

lemma fixdate_text_length:
  assumes "0 \<le> tm_wday tm" "tm_wday tm < 7" "0 \<le> tm_mon tm" "tm_mon tm < 12" "0 \<le> tm_year tm + 1900" "tm_year tm + 1900 \<le> 9999"
    "0 \<le> tm_mday tm" "tm_mday tm \<le> 99" "0 \<le> tm_hour tm" "tm_hour tm \<le> 99" "0 \<le> tm_min tm" "tm_min tm \<le> 99"
    "0 \<le> tm_sec tm" "tm_sec tm \<le> 99"
  shows "length (fixdate_text tm) = 29"
proof -
  have two: "length (pad_int 2 i) = 2" if "0 \<le> i" "i \<le> 99" for i
    using pad_int_length [of i 1] that by (simp add: numeral_2_eq_2)
  have four: "length (pad_int 4 i) = 4" if "0 \<le> i" "i \<le> 9999" for i
    using pad_int_length [of i 3] that by (simp add: numeral_eq_Suc)
  have "list_all (\<lambda>n. length n = 3) kDayNames" "list_all (\<lambda>n. length n = 3) kMonthNames"
      "length kDayNames = 7" "length kMonthNames = 12"
    by code_simp+
  then have "length (kDayNames ! nat (tm_wday tm)) = 3" "length (kMonthNames ! nat (tm_mon tm)) = 3"
    using assms(1-4) by (simp_all add: list_all_length nat_less_iff)
  then show ?thesis
    using assms by (simp add: fixdate_text_def two four)
qed

lemma time_of_day:
  assumes "0 \<le> secs" "secs < (86400 :: int)"
  shows "secs div 3600 \<le> 23" "secs = 3600 * (secs div 3600) + 60 * (secs div 60 mod 60) + secs mod 60"
proof -
  show "secs div 3600 \<le> 23"
    using quotient_bounds [of 3600 secs] assms by linarith
  have "secs div 3600 = secs div 60 div 60"
    using zdiv_zmult2_eq [of 60 secs 60] by simp
  then show "secs = 3600 * (secs div 3600) + 60 * (secs div 60 mod 60) + secs mod 60"
    using mult_div_mod_eq [of 60 secs] mult_div_mod_eq [of 60 "secs div 60"] by linarith
qed

text \<open>The attributes the caller set, in the fixed order of the header.\<close>

definition attributes :: "cookie \<Rightarrow> string \<Rightarrow> string list" where
  "attributes c date =
     (case ck_expires c of None \<Rightarrow> [] | Some t \<Rightarrow> [''Expires='' @ date]) @
     (case ck_max_age c of None \<Rightarrow> [] | Some t \<Rightarrow> [''Max-Age='' @ show_int t]) @
     (if ck_domain c = [] then [] else [''Domain='' @ ck_domain c]) @
     (if ck_path c = [] then [] else [''Path='' @ ck_path c]) @
     (if is_effective_secure c then [''Secure''] else []) @
     (if ck_http_only c then [''HttpOnly''] else []) @
     (case ck_same_site c of
        ss_unset \<Rightarrow> [] | ss_strict \<Rightarrow> [''SameSite=Strict''] | ss_lax \<Rightarrow> [''SameSite=Lax''] | ss_none \<Rightarrow> [''SameSite=None''])"

abbreviation glue :: "string list \<Rightarrow> string" where
  "glue as \<equiv> concat (map (\<lambda>a. ''; '' @ a) as)"

lemma same_site_glue:
  "same_site_attribute_text m =
     glue (case m of ss_unset \<Rightarrow> [] | ss_strict \<Rightarrow> [''SameSite=Strict''] | ss_lax \<Rightarrow> [''SameSite=Lax'']
           | ss_none \<Rightarrow> [''SameSite=None''])"
  by (cases m) simp_all

lemma flag_glue:
  "append_flag_attributes c out =
     out @ glue (if is_effective_secure c then [''Secure''] else []) @ glue (if ck_http_only c then [''HttpOnly''] else [])"
  by (simp add: append_flag_attributes_def is_effective_secure_def)

lemma target_glue:
  "append_target_attributes c out =
     out @ glue (if ck_domain c = [] then [] else [''Domain='' @ ck_domain c]) @
       glue (if ck_path c = [] then [] else [''Path='' @ ck_path c])"
  by (simp add: append_target_attributes_def)

lemma time_glue:
  assumes "append_time_attributes c out = Inr out'"
  shows "\<exists>date. (case ck_expires c of None \<Rightarrow> date = [] | Some t \<Rightarrow> format_imf_fixdate t = Inr date) \<and>
    out' = out @ glue (case ck_expires c of None \<Rightarrow> [] | Some t \<Rightarrow> [''Expires='' @ date]) @
      glue (case ck_max_age c of None \<Rightarrow> [] | Some t \<Rightarrow> [''Max-Age='' @ show_int t])"
  using assms
  by (cases "ck_expires c"; cases "ck_max_age c")
    (auto simp: append_time_attributes_def bind_result_Inr_iff)

lemma to_set_cookie_header_shape:
  assumes "to_set_cookie_header c = Inr out"
  shows "\<exists>date. (case ck_expires c of None \<Rightarrow> date = [] | Some t \<Rightarrow> format_imf_fixdate t = Inr date) \<and>
    out = (ck_name c @ ''='' @ ck_value c) @ glue (attributes c date) \<and>
    ck_name c \<noteq> [] \<and> validate_name (ck_name c) ''cookie::to_set_cookie_header'' = None \<and>
    validate_value (ck_value c) ''cookie::to_set_cookie_header'' = None"
proof -
  obtain out1 where v: "ck_name c \<noteq> []" "validate_name (ck_name c) ''cookie::to_set_cookie_header'' = None"
      "validate_value (ck_value c) ''cookie::to_set_cookie_header'' = None"
      and t: "append_time_attributes c (ck_name c @ ''='' @ ck_value c) = Inr out1"
      and out: "out = append_flag_attributes c (append_target_attributes c out1) @ same_site_attribute_text (ck_same_site c)"
    using assms by (auto simp: to_set_cookie_header_def bind_result_Inr_iff split: if_splits option.splits)
  from time_glue [OF t] show ?thesis
    by (elim exE conjE) (rule exI, intro conjI, assumption,
      simp only: out flag_glue target_glue same_site_glue attributes_def map_append concat_append append_assoc,
      (rule v)+)
qed

text \<open>Cookies a program can hold: built by setters that did not throw, or parsed from a request.\<close>

inductive cookie_made :: "cookie \<Rightarrow> bool" where
  fresh: "cookie_made default_cookie"
| parsed: "c \<in> set (parse_cookie_header h) \<Longrightarrow> cookie_made c"
| name: "cookie_made c \<Longrightarrow> with_name v c = Inr c' \<Longrightarrow> cookie_made c'"
| made_value: "cookie_made c \<Longrightarrow> with_value v c = Inr c' \<Longrightarrow> cookie_made c'"
| domain: "cookie_made c \<Longrightarrow> with_domain v c = Inr c' \<Longrightarrow> cookie_made c'"
| path: "cookie_made c \<Longrightarrow> with_path v c = Inr c' \<Longrightarrow> cookie_made c'"
| expires: "cookie_made c \<Longrightarrow> cookie_made (with_expires t c)"
| max_age: "cookie_made c \<Longrightarrow> cookie_made (with_max_age t c)"
| secure: "cookie_made c \<Longrightarrow> cookie_made (with_secure b c)"
| http_only: "cookie_made c \<Longrightarrow> cookie_made (with_http_only b c)"
| same_site: "cookie_made c \<Longrightarrow> cookie_made (with_same_site m c)"

lemma guarded_Inr: "guarded e x = Inr y \<longleftrightarrow> e = None \<and> y = x"
  by (auto simp: guarded_def split: option.splits)

lemma validate_attr_param_plain: "validate_attr_param setter v = None \<Longrightarrow> list_all plain v"
  by (auto simp: validate_attr_param_def plain_def list_ex_iff list_all_iff split: if_splits)

lemma validate_value_plain: "validate_value v ctx = None \<Longrightarrow> list_all plain v"
  by (auto simp: validate_value_def plain_def list_ex_iff list_all_iff split: if_splits)

lemma valid_name_byte_plain: "\<not> is_invalid_name_byte b \<Longrightarrow> plain b"
  by (auto simp: is_invalid_name_byte_def plain_def is_forbidden_ctrl_def)

lemma validate_name_plain: "validate_name v ctx = None \<Longrightarrow> list_all plain v"
  by (auto simp: validate_name_def list_ex_iff list_all_iff intro: valid_name_byte_plain split: if_splits)

section \<open>The parser between semicolons\<close>

lemma parse_cookies_loop_segments:
  "pos \<le> length h \<Longrightarrow>
   parse_cookies_loop h pos out =
     out @ map cookie_of_pair (List.map_filter parse_cookie_token (segments (CHR '';'') (drop pos h)))"
proof (induction h pos out rule: parse_cookies_loop.induct)
  case (1 h pos out)
  show ?case
  proof (cases "find_from h (CHR '';'') pos")
    case None
    then have "segments (CHR '';'') (drop pos h) = [drop pos h]"
      by (simp add: find_from_def find_char_None segments_no_sep)
    with None 1(2) show ?thesis
      by (simp add: parse_cookies_loop.simps [of h pos] substr_def List.map_filter_simps split: option.splits)
  next
    case (Some e)
    then obtain i where i: "find_char (CHR '';'') (drop pos h) = Some i" "e = pos + i"
      by (auto simp: find_from_def)
    have seg: "segments (CHR '';'') (drop pos h) = substr h pos (e - pos) # segments (CHR '';'') (drop (e + 1) h)"
      using segments_find [OF i(1)] i(2) by (simp add: substr_def add.commute)
    have "e + 1 \<le> length h"
      using find_from_bounds(2) [OF Some] by simp
    from 1(1) [OF 1(2) refl refl refl Some this] 1(2) show ?thesis
      by (subst parse_cookies_loop.simps) (simp add: Some seg List.map_filter_simps Let_def split: option.splits)
  qed
qed

lemma segments_glue:
  assumes "sep \<notin> set p" "\<forall>a \<in> set as. sep \<notin> set a" "sep \<noteq> CHR '' ''"
  shows "segments sep (p @ concat (map (\<lambda>a. [sep, CHR '' ''] @ a) as)) = p # map (\<lambda>a. CHR '' '' # a) as"
  using assms
proof (induction as arbitrary: p)
  case (Cons a as)
  then have "segments sep ((CHR '' '' # a) @ concat (map (\<lambda>a. [sep, CHR '' ''] @ a) as)) = (CHR '' '' # a) # map (\<lambda>a. CHR '' '' # a) as"
    by (intro Cons.IH) auto
  with Cons.prems show ?case
    using segments_step [of sep p "(CHR '' '' # a) @ concat (map (\<lambda>a. [sep, CHR '' ''] @ a) as)"] by simp
qed (simp add: segments_no_sep)

lemma join_glue: "join ''; '' (t # ts) = t @ glue ts"
  by (induction ts arbitrary: t) auto

lemma trim_front_id: "s = [] \<or> \<not> is_ws (hd s) \<Longrightarrow> trim_front s = s"
  by (cases s) auto

lemma trim_ws_id: "s = [] \<or> (\<not> is_ws (hd s) \<and> \<not> is_ws (last s)) \<Longrightarrow> trim_ws s = s"
  by (auto simp: trim_ws_def trim_front_id hd_rev)

lemma trim_ws_space: "trim_ws (CHR '' '' # s) = trim_ws s"
  by (simp add: trim_ws_def is_ws_def)

text \<open>Pairs that can be sent unchanged: a non-empty name of allowed bytes, a value without
  semicolon or control characters that is not in quotes and does not end in white space.\<close>

definition sendable :: "string \<times> string \<Rightarrow> bool" where
  "sendable p =
     (fst p \<noteq> [] \<and> validate_name (fst p) [] = None \<and> validate_value (snd p) [] = None \<and>
      strip_quotes (snd p) = snd p \<and> (snd p = [] \<or> \<not> is_ws (last (snd p))))"

definition cookie_pair :: "string \<times> string \<Rightarrow> string" where
  "cookie_pair p = fst p @ ''='' @ snd p"

lemma valid_name_byte: "\<not> is_invalid_name_byte b \<Longrightarrow> \<not> is_ws b \<and> b \<noteq> CHR ''=''"
  by (auto simp: is_invalid_name_byte_def is_ws_def)

lemma is_ws_eq: "\<not> is_ws CHR ''=''"
  by code_simp

lemma sendable_parse:
  assumes "sendable p"
  shows "parse_cookie_token (cookie_pair p) = Some p" "parse_cookie_token (CHR '' '' # cookie_pair p) = Some p"
proof -
  have n: "fst p \<noteq> []" "\<forall>b \<in> set (fst p). \<not> is_ws b \<and> b \<noteq> CHR ''=''"
    using assms by (auto simp: sendable_def validate_name_def list_ex_iff dest: valid_name_byte split: if_splits)
  have t: "trim_ws (cookie_pair p) = cookie_pair p"
    by (rule trim_ws_id) (use n assms in \<open>auto simp: cookie_pair_def sendable_def is_ws_eq hd_append\<close>)
  have "trim_ws (fst p) = fst p"
    by (rule trim_ws_id) (use n in auto)
  moreover have "find_char CHR ''='' (cookie_pair p) = Some (length (fst p))"
    unfolding cookie_pair_def using n(2) find_char_append [of "CHR ''=''" "fst p" "snd p"] by auto
  ultimately have "parse_cookie_token (cookie_pair p) = Some p"
    using n(1) assms t by (simp add: parse_cookie_token_def Let_def substr_def sendable_def) (simp add: cookie_pair_def)
  then show "parse_cookie_token (cookie_pair p) = Some p" "parse_cookie_token (CHR '' '' # cookie_pair p) = Some p"
    by (simp_all add: parse_cookie_token_def trim_ws_space)
qed

lemma sendable_no_semicolon: "sendable p \<Longrightarrow> CHR '';'' \<notin> set (cookie_pair p)"
  by (auto simp: sendable_def cookie_pair_def plain_def list_all_iff dest!: validate_name_plain validate_value_plain)

lemma cookie_made_targets: "cookie_made c \<Longrightarrow> list_all plain (ck_domain c) \<and> list_all plain (ck_path c)"
proof (induction rule: cookie_made.induct)
  case (parsed c h)
  have "set (parse_cookie_header h) \<subseteq> range cookie_of_pair"
    using parse_cookies_loop_segments [of 0 h "[]"] by (auto simp: parse_cookie_header_def)
  with parsed show ?case
    by (auto simp: cookie_of_pair_def default_cookie_def)
qed (auto simp: default_cookie_def with_name_def with_value_def with_domain_def with_path_def with_expires_def
    with_max_age_def with_secure_def with_http_only_def with_same_site_def guarded_Inr
    dest: validate_attr_param_plain)

lemma attributes_plain:
  assumes "cookie_made c" "case ck_expires c of None \<Rightarrow> date = [] | Some t \<Rightarrow> format_imf_fixdate t = Inr date"
  shows "\<forall>a \<in> set (attributes c date). list_all plain a"
proof -
  have lits: "list_all plain ''Expires=''" "list_all plain ''Max-Age=''" "list_all plain ''Domain=''"
      "list_all plain ''Path=''" "list_all plain ''Secure''" "list_all plain ''HttpOnly''"
      "list_all plain ''SameSite=Strict''" "list_all plain ''SameSite=Lax''" "list_all plain ''SameSite=None''"
    by code_simp+
  have "list_all plain date"
    using assms(2) by (auto dest: fixdate_plain split: option.splits)
  with lits cookie_made_targets [OF assms(1)] show ?thesis
    unfolding attributes_def by (auto simp: show_int_plain split: option.splits same_site_mode.splits if_splits)
qed

lemma glue_no_ctrl: "\<forall>a \<in> set as. list_all plain a \<Longrightarrow> list_all (\<lambda>b. \<not> is_forbidden_ctrl b) (glue as)"
proof (induction as)
  case (Cons a as)
  have "\<not> is_forbidden_ctrl CHR '';''" "\<not> is_forbidden_ctrl CHR '' ''"
    by code_simp+
  moreover have "list_all (\<lambda>b. \<not> is_forbidden_ctrl b) a"
    using Cons.prems by (simp add: list_all_iff plain_def)
  ultimately show ?case
    using Cons.IH Cons.prems by simp
qed simp

section \<open>Properties\<close>



text \<open>rendering fails exactly when the name is empty, the name or the value holds a forbidden
  byte, or the expiry date is beyond the calendar; in every other case it returns a header.\<close>

theorem to_set_cookie_header_fails_iff:
  "throws (to_set_cookie_header c) \<longleftrightarrow>
     ck_name c = [] \<or> list_ex is_invalid_name_byte (ck_name c) \<or>
     list_ex (\<lambda>b. is_forbidden_ctrl b \<or> b = CHR '';'') (ck_value c) \<or>
     (case ck_expires c of None \<Rightarrow> False | Some t \<Rightarrow> throws (format_imf_fixdate t))"
proof -
  have "throws (append_time_attributes c out) \<longleftrightarrow>
      (case ck_expires c of None \<Rightarrow> False | Some t \<Rightarrow> throws (format_imf_fixdate t))" for out
    by (auto simp: append_time_attributes_def throws_def bind_result_def split: option.splits sum.splits)
  moreover have "throws (bind_result r (\<lambda>x. Inr (f x))) \<longleftrightarrow> throws r" for r :: "string result" and f :: "string \<Rightarrow> string"
    by (cases r) simp_all
  ultimately show ?thesis
    by (auto simp: to_set_cookie_header_def validate_name_def validate_value_def list_ex_iff simp del: bind_result_simps)
qed

text \<open>C27: the parser of a \<^verbatim>\<open>Cookie\<close> header reads each piece between semicolons on its own, and sending
  names and values joined by semicolon and space gives the same cookies back, in order.\<close>

theorem parse_cookie_header_roundtrip:
  "parse_cookie_header h = map cookie_of_pair (List.map_filter parse_cookie_token (segments (CHR '';'') h)) \<and>
   (list_all sendable ps \<longrightarrow> parse_cookie_header (join ''; '' (map cookie_pair ps)) = map cookie_of_pair ps)"
proof -
  have S: "parse_cookie_header h = map cookie_of_pair (List.map_filter parse_cookie_token (segments (CHR '';'') h))" for h
    using parse_cookies_loop_segments [of 0 h "[]"]
    by (auto simp: parse_cookie_header_def List.map_filter_simps parse_cookie_token_def trim_ws_def)
  moreover have "parse_cookie_header (join ''; '' (map cookie_pair ps)) = map cookie_of_pair ps" if "list_all sendable ps"
  proof (cases ps)
    case (Cons q qs)
    have "segments (CHR '';'') (cookie_pair q @ glue (map cookie_pair qs)) =
        cookie_pair q # map (\<lambda>a. CHR '' '' # a) (map cookie_pair qs)"
      by (rule segments_glue) (use that Cons sendable_no_semicolon in \<open>auto simp: list_all_iff\<close>)
    moreover have "List.map_filter parse_cookie_token (map (\<lambda>a. CHR '' '' # a) (map cookie_pair qs)) = qs"
      using that unfolding Cons
      by (induction qs) (simp_all add: sendable_parse List.map_filter_simps)
    ultimately show ?thesis
      using that by (simp add: S Cons join_glue sendable_parse List.map_filter_simps)
  qed (simp add: parse_cookie_header_def)
  ultimately show ?thesis
    by blast
qed

lemma parse_cookie_header_roundtrip_witness:
  "parse_cookie_header (join ''; '' (map cookie_pair [(''a'', ''1''), (''b'', ''x y'')])) =
     map cookie_of_pair [(''a'', ''1''), (''b'', ''x y'')]"
proof -
  have "list_all sendable [(''a'', ''1''), (''b'', ''x y'')]"
    by code_simp
  with parse_cookie_header_roundtrip [of "[]" "[(''a'', ''1''), (''b'', ''x y'')]"] show ?thesis by blast
qed



end
