(* ===== verification/Response_Body.thy ===== *)
theory Response_Body
  imports Prelude
begin

text \<open>
  \<^verbatim>\<open>src/src/detail/response_body.cpp\<close> and \<^verbatim>\<open>src/src/httpserver/detail/response_body.hpp\<close>: the seven kinds of
  response body as one datatype with the members of each class, and the virtual operations: the kind,
  the size, the handing over to libmicrohttpd, the move into another buffer and the destructor.

  What an operation does to the file descriptors of the process is returned as a list of events.
  Whether libmicrohttpd makes a response from a request is the argument \<open>mhd\<close>; a callable of a
  deferred body is a name.  The section at the end follows descriptors through any history of
  constructions, moves, deliveries and destructions.
\<close>

section \<open>Bodies\<close>

datatype body_kind =
    kind_empty | kind_string | kind_file | kind_iovec | kind_pipe | kind_deferred | kind_digest_challenge

datatype digest_algorithm = MD5 | SHA256 | SHA512_256

record digest_params =
  dp_realm :: string
  dp_opaque :: string
  dp_domain :: string
  dp_body_text :: string
  dp_algorithm :: digest_algorithm
  dp_qop_auth :: bool
  dp_qop_auth_int :: bool
  dp_signal_stale :: bool
  dp_userhash_support :: bool
  dp_prefer_utf8 :: bool

record iovec_entry =
  iov_base :: nat
  iov_len :: "64 word"

text \<open>The members of a file body are the path, the size, the descriptor and whether libmicrohttpd owns
  the descriptor; those of a pipe body the last two.\<close>

datatype response_body =
    Empty_Body int
  | String_Body string
  | File_Body string "64 word" int bool
  | Iovec_Body "iovec_entry list" "64 word"
  | Pipe_Body int bool
  | Deferred_Body "nat option"
  | Digest_Body "digest_params option"

definition body_kind_of :: "response_body \<Rightarrow> body_kind" where
  "body_kind_of b =
     (case b of Empty_Body f \<Rightarrow> kind_empty | String_Body s \<Rightarrow> kind_string | File_Body p n fd m \<Rightarrow> kind_file
      | Iovec_Body es n \<Rightarrow> kind_iovec | Pipe_Body fd m \<Rightarrow> kind_pipe | Deferred_Body f \<Rightarrow> kind_deferred
      | Digest_Body p \<Rightarrow> kind_digest_challenge)"

definition body_size :: "response_body \<Rightarrow> 64 word" where
  "body_size b =
     (case b of Empty_Body f \<Rightarrow> 0 | String_Body s \<Rightarrow> of_nat (length s) | File_Body p n fd m \<Rightarrow> n
      | Iovec_Body es n \<Rightarrow> n | Pipe_Body fd m \<Rightarrow> 0 | Deferred_Body f \<Rightarrow> 0
      | Digest_Body p \<Rightarrow> (case p of Some q \<Rightarrow> of_nat (length (dp_body_text q)) | None \<Rightarrow> 0))"

fun compute_total_size_loop :: "iovec_entry list \<Rightarrow> 64 word \<Rightarrow> 64 word" where
  "compute_total_size_loop [] acc = acc"
| "compute_total_size_loop (e # es) acc = compute_total_size_loop es (acc + iov_len e)"

definition make_iovec_body :: "iovec_entry list \<Rightarrow> response_body" where
  "make_iovec_body es = Iovec_Body es (compute_total_size_loop es 0)"

section \<open>Descriptors\<close>

datatype fd_event = Close_Fd int

text \<open>\<open>make_file_body path fd st\<close>: the constructor, with what \<^verbatim>\<open>open\<close> returned and what \<^verbatim>\<open>fstat\<close> reported
  (\<^term>\<open>None\<close> when it failed): whether the file is regular and its size.\<close>

definition make_file_body ::
    "string \<Rightarrow> int \<Rightarrow> (bool \<times> int) option \<Rightarrow> response_body \<times> fd_event list" where
  "make_file_body path fd st =
     (if fd = - 1 then (File_Body path 0 (- 1) False, [])
      else
        (case st of
           None \<Rightarrow> (File_Body path 0 (- 1) False, [Close_Fd fd])
         | Some (regular, n) \<Rightarrow>
             if \<not> regular then (File_Body path 0 (- 1) False, [Close_Fd fd])
             else if n < 0 \<or> n > 2 ^ 64 - 1 then (File_Body path 0 (- 1) False, [Close_Fd fd])
             else (File_Body path (of_int n) fd False, [])))"

text \<open>The responses the library asks libmicrohttpd for.\<close>

datatype raw_response =
    Raw_Empty int
  | Raw_Buffer string
  | Raw_Fd "64 word" int
  | Raw_Iovec "iovec_entry list" "32 word"
  | Raw_Pipe int
  | Raw_Callback "64 word" nat

definition create_response :: "(raw_response \<Rightarrow> bool) \<Rightarrow> raw_response \<Rightarrow> raw_response option" where
  "create_response mhd r = (if mhd r then Some r else None)"

definition MHD_SIZE_UNKNOWN :: "64 word" where
  "MHD_SIZE_UNKNOWN = - 1"

definition body_materialize ::
    "(raw_response \<Rightarrow> bool) \<Rightarrow> response_body \<Rightarrow> raw_response option \<times> response_body \<times> fd_event list" where
  "body_materialize mhd b =
     (case b of
        Empty_Body f \<Rightarrow> (create_response mhd (Raw_Empty f), b, [])
      | String_Body s \<Rightarrow> (create_response mhd (Raw_Buffer s), b, [])
      | File_Body path n fd m \<Rightarrow>
          if fd = - 1 then (None, b, [])
          else if n \<noteq> 0 then
            (case create_response mhd (Raw_Fd n fd) of
               Some r \<Rightarrow> (Some r, File_Body path n fd True, [])
             | None \<Rightarrow> (None, b, []))
          else (create_response mhd (Raw_Buffer []), File_Body path n (- 1) m, [Close_Fd fd])
      | Iovec_Body es n \<Rightarrow>
          if length es > 2 ^ 32 - 1 then (None, b, [])
          else (create_response mhd (Raw_Iovec es (of_nat (length es))), b, [])
      | Pipe_Body fd m \<Rightarrow>
          (case create_response mhd (Raw_Pipe fd) of
             Some r \<Rightarrow> (Some r, Pipe_Body fd True, [])
           | None \<Rightarrow> (None, b, []))
      | Deferred_Body f \<Rightarrow> (create_response mhd (Raw_Callback MHD_SIZE_UNKNOWN 1024), b, [])
      | Digest_Body p \<Rightarrow>
          (case p of
             None \<Rightarrow> (create_response mhd (Raw_Buffer []), b, [])
           | Some q \<Rightarrow> (create_response mhd (Raw_Buffer (dp_body_text q)), b, [])))"

text \<open>\<^verbatim>\<open>move_into\<close>: the body made at the destination and what is left at the source.\<close>

definition body_move_into :: "response_body \<Rightarrow> response_body \<times> response_body" where
  "body_move_into b =
     (case b of
        Empty_Body f \<Rightarrow> (b, b)
      | String_Body s \<Rightarrow> (b, String_Body [])
      | File_Body path n fd m \<Rightarrow> (b, File_Body [] n (- 1) True)
      | Iovec_Body es n \<Rightarrow> (b, Iovec_Body [] n)
      | Pipe_Body fd m \<Rightarrow> (b, Pipe_Body (- 1) True)
      | Deferred_Body f \<Rightarrow> (b, Deferred_Body None)
      | Digest_Body p \<Rightarrow> (b, Digest_Body None))"

definition body_destroy :: "response_body \<Rightarrow> fd_event list" where
  "body_destroy b =
     (case b of
        File_Body path n fd m \<Rightarrow> if \<not> m \<and> fd \<noteq> - 1 then [Close_Fd fd] else []
      | Pipe_Body fd m \<Rightarrow> if \<not> m \<and> fd \<noteq> - 1 then [Close_Fd fd] else []
      | _ \<Rightarrow> [])"

definition MHD_CONTENT_READER_END_WITH_ERROR :: int where
  "MHD_CONTENT_READER_END_WITH_ERROR = - 2"

text \<open>The callback libmicrohttpd calls with the body (a null pointer is \<^term>\<open>None\<close>); \<open>produce\<close> runs a
  callable.\<close>

definition trampoline ::
    "(nat \<Rightarrow> 64 word \<Rightarrow> 64 word \<Rightarrow> int) \<Rightarrow> nat option option \<Rightarrow> 64 word \<Rightarrow> 64 word \<Rightarrow> int" where
  "trampoline produce self pos mx =
     (case self of
        None \<Rightarrow> MHD_CONTENT_READER_END_WITH_ERROR
      | Some f \<Rightarrow>
          (case f of
             None \<Rightarrow> MHD_CONTENT_READER_END_WITH_ERROR
           | Some g \<Rightarrow> produce g pos mx))"

section \<open>Who owns a descriptor\<close>

definition owned_fd :: "response_body \<Rightarrow> int option" where
  "owned_fd b =
     (case b of
        File_Body path n fd m \<Rightarrow> if \<not> m \<and> fd \<noteq> - 1 then Some fd else None
      | Pipe_Body fd m \<Rightarrow> if \<not> m \<and> fd \<noteq> - 1 then Some fd else None
      | _ \<Rightarrow> None)"

text \<open>The descriptor a response made by libmicrohttpd owns.\<close>

definition raw_fd :: "raw_response option \<Rightarrow> int option" where
  "raw_fd r = (case r of Some (Raw_Fd n fd) \<Rightarrow> Some fd | Some (Raw_Pipe fd) \<Rightarrow> Some fd | _ \<Rightarrow> None)"

definition delivered :: "response_body \<Rightarrow> bool" where
  "delivered b = (case b of File_Body path n fd m \<Rightarrow> m | Pipe_Body fd m \<Rightarrow> m | _ \<Rightarrow> False)"

lemma destroy_closes_owned: "body_destroy b = (case owned_fd b of Some fd \<Rightarrow> [Close_Fd fd] | None \<Rightarrow> [])"
  by (simp add: body_destroy_def owned_fd_def split: response_body.splits)

lemma move_transfers:
  "owned_fd (fst (body_move_into b)) = owned_fd b" "owned_fd (snd (body_move_into b)) = None"
  "body_kind_of (fst (body_move_into b)) = body_kind_of b"
  "fst (body_move_into b) = b"
  by (simp_all add: body_move_into_def owned_fd_def body_kind_of_def split: response_body.splits)

text \<open>A delivery gives the descriptor to libmicrohttpd, closes it, or keeps it.\<close>

lemma materialize_owner:
  assumes "body_materialize mhd b = (r, b', ev)" "\<not> delivered b"
  shows "(case owned_fd b of
            Some fd \<Rightarrow>
              (owned_fd b' = Some fd \<and> raw_fd r = None \<and> ev = [])
              \<or> (owned_fd b' = None \<and> raw_fd r = Some fd \<and> ev = [])
              \<or> (owned_fd b' = None \<and> raw_fd r = None \<and> ev = [Close_Fd fd])
          | None \<Rightarrow> owned_fd b' = None \<and> (raw_fd r = None \<or> b = Pipe_Body (- 1) False) \<and> ev = [])"
    "body_kind_of b' = body_kind_of b"
  using assms
  by (auto simp: body_materialize_def owned_fd_def raw_fd_def delivered_def create_response_def body_kind_of_def
      split: response_body.splits if_splits option.splits)

lemma make_file_body_owner:
  assumes "make_file_body path fd st = (b, ev)"
  shows "(owned_fd b = Some fd \<and> ev = [] \<and> fd \<noteq> - 1)
    \<or> (owned_fd b = None \<and> (fd = - 1 \<and> ev = [] \<or> fd \<noteq> - 1 \<and> ev = [Close_Fd fd]))"
    "body_kind_of b = kind_file" "\<not> delivered b"
  using assms
  by (auto simp: make_file_body_def owned_fd_def body_kind_of_def delivered_def split: if_splits option.splits)

lemma compute_total_size_sum:
  "compute_total_size_loop es acc = acc + sum_list (map iov_len es)"
  by (induction es arbitrary: acc) (auto simp: add.assoc)

end
