(* ===== verification/Http_Response.thy ===== *)
theory Http_Response
  imports Header_Map Cookie Response_Body
begin

text \<open>
  \<^verbatim>\<open>src/src/http_response.cpp\<close>, \<^verbatim>\<open>src/src/http_response_factories.cpp\<close> and \<^verbatim>\<open>src/src/httpserver/http_response.hpp\<close>:
  a response with its header maps, its cookies with the lazily rebuilt mirror, and the one body it
  holds in its own buffer or on the heap; the setters, the factories, and the moves and destruction
  that hand the body on.

  A moved-from \<^verbatim>\<open>std::map\<close>, \<^verbatim>\<open>std::vector\<close> or \<^verbatim>\<open>std::string\<close> is empty, as in every implementation of the
  standard library.  The section on histories follows the file descriptors of the bodies through any
  sequence of operations on any number of responses.
\<close>

section \<open>Responses\<close>

type_synonym header_map = "string ordered_map"

record http_response =
  status_code :: int
  resp_headers :: header_map
  resp_footers :: header_map
  resp_cookies :: header_map
  cookies_mirror_valid :: bool
  structured_cookies :: "cookie list"
  resp_kind :: body_kind
  resp_body :: "response_body option"
  body_inline :: bool

definition default_response :: http_response where
  "default_response =
     \<lparr>status_code = - 1, resp_headers = [], resp_footers = [], resp_cookies = [],
      cookies_mirror_valid = False, structured_cookies = [], resp_kind = kind_empty, resp_body = None,
      body_inline = False\<rparr>"

section \<open>Body lifecycle\<close>

definition destroy_body :: "http_response \<Rightarrow> http_response \<times> fd_event list" where
  "destroy_body r =
     (case resp_body r of
        None \<Rightarrow> (r, [])
      | Some b \<Rightarrow> (r\<lparr>resp_body := None, body_inline := False\<rparr>, body_destroy b))"

text \<open>\<open>adopt_body_from self other\<close>: the new values of both objects and what happens to descriptors.\<close>

definition adopt_body_from ::
    "http_response \<Rightarrow> http_response \<Rightarrow> http_response \<times> http_response \<times> fd_event list" where
  "adopt_body_from self other =
     (case resp_body other of
        None \<Rightarrow> (self, other, [])
      | Some b \<Rightarrow>
          (let other' = other\<lparr>resp_body := None, body_inline := False, resp_kind := kind_empty\<rparr> in
           if body_inline other then
             (let (moved, rest) = body_move_into b in
              (self\<lparr>resp_body := Some moved, body_inline := True\<rparr>, other', body_destroy rest))
           else (self\<lparr>resp_body := Some b, body_inline := False\<rparr>, other', [])))"

text \<open>The members that move one by one.\<close>

definition take_members :: "http_response \<Rightarrow> http_response \<Rightarrow> http_response" where
  "take_members other self =
     self\<lparr>status_code := status_code other, resp_headers := resp_headers other,
          resp_footers := resp_footers other, resp_cookies := resp_cookies other,
          cookies_mirror_valid := cookies_mirror_valid other,
          structured_cookies := structured_cookies other, resp_kind := resp_kind other\<rparr>"

definition leave_members :: "http_response \<Rightarrow> http_response" where
  "leave_members other =
     other\<lparr>resp_headers := [], resp_footers := [], resp_cookies := [], structured_cookies := []\<rparr>"

definition response_move_construct ::
    "http_response \<Rightarrow> http_response \<times> http_response \<times> fd_event list" where
  "response_move_construct other =
     adopt_body_from (take_members other default_response) (leave_members other)"

text \<open>Move assignment between two distinct objects.\<close>

definition response_move_assign ::
    "http_response \<Rightarrow> http_response \<Rightarrow> http_response \<times> http_response \<times> fd_event list" where
  "response_move_assign self other =
     (let (self1, ev1) = destroy_body self;
          (self2, other2, ev2) = adopt_body_from (take_members other self1) (leave_members other) in
      (self2, other2, ev1 @ ev2))"

definition shoutCAST :: "http_response \<Rightarrow> http_response" where
  "shoutCAST r = r\<lparr>status_code := sint (or (word_of_int (status_code r) :: 32 word) (push_bit 31 1))\<rparr>"

section \<open>Setters\<close>

definition kForbiddenFieldChars :: "char list" where
  "kForbiddenFieldChars = [CR, LF, NUL]"

definition has_forbidden :: "string \<Rightarrow> bool" where
  "has_forbidden s = list_ex (\<lambda>c. c \<in> set kForbiddenFieldChars) s"

definition validate_http_field :: "string \<Rightarrow> string \<Rightarrow> string \<Rightarrow> exn option" where
  "validate_http_field setter_name key v =
     (if has_forbidden key then
        Some (invalid_argument (setter_name @ '': key contains forbidden control character (CR, LF, or NUL)''))
      else if has_forbidden v then
        Some (invalid_argument (setter_name @ '': value contains forbidden control character (CR, LF, or NUL)''))
      else None)"

definition with_header :: "string \<Rightarrow> string \<Rightarrow> http_response \<Rightarrow> http_response result" where
  "with_header key v r =
     guarded (validate_http_field ''with_header'' key v)
       (r\<lparr>resp_headers := insert_or_assign header_less key v (resp_headers r)\<rparr>)"

definition with_footer :: "string \<Rightarrow> string \<Rightarrow> http_response \<Rightarrow> http_response result" where
  "with_footer key v r =
     guarded (validate_http_field ''with_footer'' key v)
       (r\<lparr>resp_footers := insert_or_assign header_less key v (resp_footers r)\<rparr>)"

text \<open>The replacement of the first cookie with an equivalent name, or the append.\<close>

fun put_cookie :: "cookie \<Rightarrow> cookie list \<Rightarrow> cookie list" where
  "put_cookie c [] = [c]"
| "put_cookie c (d # ds) =
     (if \<not> header_less (ck_name d) (ck_name c) \<and> \<not> header_less (ck_name c) (ck_name d) then c # ds
      else d # put_cookie c ds)"

definition with_cookie_pair :: "string \<Rightarrow> string \<Rightarrow> http_response \<Rightarrow> http_response result" where
  "with_cookie_pair key v r =
     bind_result (with_name key default_cookie) (\<lambda>c.
     bind_result (with_value v c) (\<lambda>c'.
       Inr (r\<lparr>cookies_mirror_valid := False,
              structured_cookies := put_cookie c' (structured_cookies r)\<rparr>)))"

definition with_cookie :: "cookie \<Rightarrow> http_response \<Rightarrow> http_response" where
  "with_cookie c r =
     r\<lparr>cookies_mirror_valid := False, structured_cookies := structured_cookies r @ [c]\<rparr>"

definition with_status :: "int \<Rightarrow> http_response \<Rightarrow> http_response result" where
  "with_status code r =
     (if code < 100 \<or> code > 599 then
        Inl (invalid_argument ''with_status: HTTP status code out of range [100, 599]'')
      else Inr (r\<lparr>status_code := code\<rparr>))"

section \<open>Reading\<close>

definition header_map_find_view :: "header_map \<Rightarrow> string \<Rightarrow> string" where
  "header_map_find_view m key = (case map_find header_less key m of None \<Rightarrow> [] | Some v \<Rightarrow> v)"

definition get_header :: "string \<Rightarrow> http_response \<Rightarrow> string" where
  "get_header key r = header_map_find_view (resp_headers r) key"

definition get_footer :: "string \<Rightarrow> http_response \<Rightarrow> string" where
  "get_footer key r = header_map_find_view (resp_footers r) key"

definition mirror_of :: "cookie list \<Rightarrow> header_map" where
  "mirror_of cs = fold (\<lambda>c. insert_or_assign header_less (ck_name c) (ck_value c)) cs []"

definition ensure_cookie_mirror :: "http_response \<Rightarrow> http_response" where
  "ensure_cookie_mirror r =
     (if cookies_mirror_valid r then r
      else r\<lparr>resp_cookies := mirror_of (structured_cookies r), cookies_mirror_valid := True\<rparr>)"

definition get_cookie :: "string \<Rightarrow> http_response \<Rightarrow> string \<times> http_response" where
  "get_cookie key r = (let r' = ensure_cookie_mirror r in (header_map_find_view (resp_cookies r') key, r'))"

section \<open>Factories\<close>

text \<open>Every body class fits the buffer of 64 bytes (asserted at compile time), so a factory places the
  body inline; the assertion that the slot is empty is the guard.\<close>

definition emplace_body :: "body_kind \<Rightarrow> response_body \<Rightarrow> http_response \<Rightarrow> http_response result" where
  "emplace_body k b r =
     (if resp_body r \<noteq> None then Inl (undefined_behaviour ''emplace_body: body slot already populated'')
      else Inr (r\<lparr>resp_body := Some b, body_inline := True, resp_kind := k\<rparr>))"

definition response_empty :: "int \<Rightarrow> http_response result" where
  "response_empty mhd_flags =
     emplace_body kind_empty (Empty_Body mhd_flags) (default_response\<lparr>status_code := 204\<rparr>)"

definition response_string :: "string \<Rightarrow> string \<Rightarrow> http_response result" where
  "response_string text content_type =
     bind_result (with_header ''Content-Type'' content_type (default_response\<lparr>status_code := 200\<rparr>))
       (emplace_body kind_string (String_Body text))"

text \<open>\<open>response_file b\<close>: the body is what its constructor made of the path.\<close>

definition response_file :: "response_body \<Rightarrow> http_response result" where
  "response_file b =
     bind_result
       (with_header ''Content-Type'' ''application/octet-stream'' (default_response\<lparr>status_code := 200\<rparr>))
       (emplace_body kind_file b)"

definition response_iovec :: "iovec_entry list \<Rightarrow> http_response result" where
  "response_iovec es = emplace_body kind_iovec (make_iovec_body es) (default_response\<lparr>status_code := 200\<rparr>)"

definition response_pipe :: "int \<Rightarrow> http_response result" where
  "response_pipe fd = emplace_body kind_pipe (Pipe_Body fd False) (default_response\<lparr>status_code := 200\<rparr>)"

definition response_deferred :: "nat \<Rightarrow> http_response result" where
  "response_deferred producer =
     emplace_body kind_deferred (Deferred_Body (Some producer)) (default_response\<lparr>status_code := 200\<rparr>)"

fun escape_realm :: "string \<Rightarrow> string" where
  "escape_realm [] = []"
| "escape_realm (c # cs) =
     (if c = CHR 0x5C then [CHR 0x5C] else if c = CHR 0x22 then [CHR 0x5C] else []) @ c # escape_realm cs"

definition basic_challenge :: "string \<Rightarrow> string \<Rightarrow> string" where
  "basic_challenge scheme realm =
     scheme @ '' realm='' @ [CHR 0x22]
     @ (if list_ex (\<lambda>c. c = CHR 0x5C \<or> c = CHR 0x22) realm then escape_realm realm else realm)
     @ [CHR 0x22]"

definition response_unauthorized :: "string \<Rightarrow> string \<Rightarrow> string \<Rightarrow> http_response result" where
  "response_unauthorized scheme realm text =
     (if has_forbidden scheme then
        Inl (invalid_argument
          (''http_response::unauthorized: scheme contains forbidden control ''
           @ ''character (CR, LF, or NUL)''))
      else if has_forbidden realm then
        Inl (invalid_argument
          (''http_response::unauthorized: realm contains forbidden control ''
           @ ''character (CR, LF, or NUL)''))
      else
        bind_result
          (with_header ''WWW-Authenticate'' (basic_challenge scheme realm) (default_response\<lparr>status_code := 401\<rparr>))
          (emplace_body kind_string (String_Body text)))"

definition reject_ctrl_chars :: "string \<Rightarrow> string \<Rightarrow> exn option" where
  "reject_ctrl_chars field v =
     (if has_forbidden v then
        Some (invalid_argument
          (''http_response::unauthorized(digest_challenge): '' @ field
           @ '' contains forbidden control character (CR, LF, or NUL)''))
      else None)"

definition response_digest :: "digest_params \<Rightarrow> http_response result" where
  "response_digest p =
     bind_result (guarded (reject_ctrl_chars ''realm'' (dp_realm p)) ()) (\<lambda>u.
     bind_result (guarded (reject_ctrl_chars ''opaque'' (dp_opaque p)) ()) (\<lambda>u.
     bind_result (guarded (reject_ctrl_chars ''domain'' (dp_domain p)) ()) (\<lambda>u.
     bind_result (guarded (reject_ctrl_chars ''response_body'' (dp_body_text p)) ()) (\<lambda>u.
       if dp_qop_auth_int p then
         Inl (invalid_argument
           (''http_response::unauthorized(digest_challenge): '' @ ''qop_auth_int (qop='' @ [CHR 0x22]
            @ ''auth-int'' @ [CHR 0x22] @ '') is not implemented; '' @ ''leave it false''))
       else
         emplace_body kind_digest_challenge (Digest_Body (Some p)) (default_response\<lparr>status_code := 401\<rparr>)))))"

section \<open>What every response keeps\<close>

definition clean :: "string \<Rightarrow> bool" where
  "clean s = (CR \<notin> set s \<and> LF \<notin> set s \<and> NUL \<notin> set s)"

definition clean_map :: "header_map \<Rightarrow> bool" where
  "clean_map m = list_all (\<lambda>(k, v). clean k \<and> clean v) m"

text \<open>The kind names the body, the header maps are sorted and hold no byte that could end a header line, and a
  valid mirror is the map of the cookies.\<close>

definition body_agrees :: "http_response \<Rightarrow> bool" where
  "body_agrees r =
     (resp_kind r = (case resp_body r of None \<Rightarrow> kind_empty | Some b \<Rightarrow> body_kind_of b))"

definition fields_ok :: "http_response \<Rightarrow> bool" where
  "fields_ok r =
     (hdr.map_ok (resp_headers r) \<and> hdr.map_ok (resp_footers r)
      \<and> clean_map (resp_headers r) \<and> clean_map (resp_footers r)
      \<and> (cookies_mirror_valid r \<longrightarrow> resp_cookies r = mirror_of (structured_cookies r)))"

definition response_ok :: "http_response \<Rightarrow> bool" where
  "response_ok r = (body_agrees r \<and> fields_ok r)"

lemma has_forbidden_iff: "has_forbidden s \<longleftrightarrow> \<not> clean s"
  by (auto simp: has_forbidden_def clean_def kForbiddenFieldChars_def list_ex_iff)

lemma guarded_Inr_iff [simp]: "guarded e x = Inr y \<longleftrightarrow> e = None \<and> y = x"
  by (auto simp: guarded_def split: option.splits)

lemma validate_http_field_None: "validate_http_field n k v = None \<longleftrightarrow> clean k \<and> clean v"
  by (simp add: validate_http_field_def has_forbidden_iff)

lemma clean_map_insert:
  "clean_map m \<Longrightarrow> clean k \<Longrightarrow> clean v \<Longrightarrow> clean_map (insert_or_assign lt k v m)"
  by (induction m) (auto simp: clean_map_def)

lemma with_header_ok:
  "with_header k v r = Inr r' \<Longrightarrow> response_ok r \<Longrightarrow> response_ok r'"
  by (auto simp: with_header_def validate_http_field_None response_ok_def fields_ok_def body_agrees_def
      clean_map_insert hdr.insert_ok)

lemma with_footer_ok:
  "with_footer k v r = Inr r' \<Longrightarrow> response_ok r \<Longrightarrow> response_ok r'"
  by (auto simp: with_footer_def validate_http_field_None response_ok_def fields_ok_def body_agrees_def
      clean_map_insert hdr.insert_ok)

lemma with_cookie_ok: "response_ok r \<Longrightarrow> response_ok (with_cookie c r)"
  by (simp add: with_cookie_def response_ok_def fields_ok_def body_agrees_def)

lemma with_cookie_pair_ok: "with_cookie_pair k v r = Inr r' \<Longrightarrow> response_ok r \<Longrightarrow> response_ok r'"
  by (auto simp: with_cookie_pair_def bind_result_Inr_iff response_ok_def fields_ok_def body_agrees_def)

lemma with_status_ok: "with_status n r = Inr r' \<Longrightarrow> response_ok r \<Longrightarrow> response_ok r'"
  by (auto simp: with_status_def response_ok_def fields_ok_def body_agrees_def split: if_splits)

lemma shoutCAST_ok: "response_ok r \<Longrightarrow> response_ok (shoutCAST r)"
  by (simp add: shoutCAST_def response_ok_def fields_ok_def body_agrees_def)

lemma ensure_cookie_mirror_ok: "response_ok r \<Longrightarrow> response_ok (ensure_cookie_mirror r)"
  by (simp add: ensure_cookie_mirror_def response_ok_def fields_ok_def body_agrees_def)

lemma default_fields_ok [simp]: "fields_ok (default_response\<lparr>status_code := n\<rparr>)"
  by (simp add: fields_ok_def default_response_def hdr.map_ok_Nil clean_map_def)

lemma emplace_body_ok:
  "emplace_body k b r = Inr r' \<Longrightarrow> fields_ok r \<Longrightarrow> k = body_kind_of b \<Longrightarrow>
     response_ok r' \<and> resp_body r' = Some b"
  by (auto simp: emplace_body_def response_ok_def fields_ok_def body_agrees_def split: if_splits)

lemma body_move_into_eq: "body_move_into b = (b, snd (body_move_into b))"
  by (metis move_transfers(4) prod.collapse)

lemma move_leaves_nothing: "body_destroy (snd (body_move_into b)) = []"
  by (simp add: destroy_closes_owned move_transfers)

lemma adopt_body_eq:
  "adopt_body_from self other =
     (case resp_body other of
        None \<Rightarrow> (self, other, [])
      | Some b \<Rightarrow>
          (self\<lparr>resp_body := Some b, body_inline := body_inline other\<rparr>,
           other\<lparr>resp_body := None, body_inline := False, resp_kind := kind_empty\<rparr>, []))"
proof (cases "resp_body other")
  case (Some b)
  then show ?thesis
    by (subst adopt_body_from_def, subst body_move_into_eq) (simp add: move_leaves_nothing Let_def)
qed (simp add: adopt_body_from_def)

lemma move_construct_eq:
  "response_move_construct other =
     (take_members other default_response\<lparr>resp_body := resp_body other,
        body_inline := (resp_body other \<noteq> None \<and> body_inline other)\<rparr>,
      (if resp_body other = None then leave_members other
       else leave_members other\<lparr>resp_body := None, body_inline := False, resp_kind := kind_empty\<rparr>), [])"
  by (cases "resp_body other")
    (simp_all add: response_move_construct_def adopt_body_eq leave_members_def take_members_def default_response_def)

lemma move_construct_ok:
  assumes "response_ok other" "response_move_construct other = (new, rest, ev)"
  shows "response_ok new" "response_ok rest" "ev = []" "resp_body new = resp_body other" "resp_body rest = None"
  using assms
  by (auto simp: move_construct_eq response_ok_def body_agrees_def fields_ok_def take_members_def
      leave_members_def default_response_def hdr.map_ok_Nil clean_map_def mirror_of_def split: option.splits)

lemma destroy_body_eq:
  "destroy_body r =
     (case resp_body r of None \<Rightarrow> (r, []) | Some b \<Rightarrow>
        (r\<lparr>resp_body := None, body_inline := False\<rparr>,
         case owned_fd b of Some fd \<Rightarrow> [Close_Fd fd] | None \<Rightarrow> []))"
  by (cases "resp_body r") (simp_all add: destroy_body_def destroy_closes_owned)

definition resp_owned :: "http_response \<Rightarrow> int option" where
  "resp_owned r = Option.bind (resp_body r) owned_fd"

definition close_events :: "int option \<Rightarrow> fd_event list" where
  "close_events f = (case f of Some fd \<Rightarrow> [Close_Fd fd] | None \<Rightarrow> [])"

lemma destroy_events: "snd (destroy_body r) = close_events (resp_owned r)"
  by (cases "resp_body r") (simp_all add: destroy_body_eq resp_owned_def close_events_def)

lemma move_assign_ok:
  assumes "response_ok other" "response_move_assign self other = (new, rest, ev)"
  shows "response_ok new" "response_ok rest" "ev = close_events (resp_owned self)"
    "resp_body new = resp_body other" "resp_body rest = None"
  using assms
  by (cases "resp_body self"; cases "resp_body other";
      auto simp: response_move_assign_def destroy_body_eq adopt_body_eq response_ok_def body_agrees_def
      fields_ok_def take_members_def leave_members_def hdr.map_ok_Nil clean_map_def mirror_of_def
      close_events_def resp_owned_def)+

section \<open>Histories of responses and descriptors\<close>

text \<open>The descriptors the process has open, those libmicrohttpd owns, and whether a descriptor was ever
  closed that was not open or not the library's to close.\<close>

record fd_state =
  open_fds :: "int set"
  mhd_fds :: "int set"
  misuse :: bool

definition close_fd :: "fd_event \<Rightarrow> fd_state \<Rightarrow> fd_state" where
  "close_fd ev s =
     (case ev of Close_Fd fd \<Rightarrow>
        s\<lparr>open_fds := open_fds s - {fd}, misuse := (misuse s \<or> fd \<notin> open_fds s \<or> fd \<in> mhd_fds s)\<rparr>)"

definition open_fd :: "int \<Rightarrow> fd_state \<Rightarrow> fd_state" where
  "open_fd fd s = (if fd = - 1 then s else s\<lparr>open_fds := insert fd (open_fds s)\<rparr>)"

definition mhd_takes :: "int option \<Rightarrow> fd_state \<Rightarrow> fd_state" where
  "mhd_takes f s = (case f of Some fd \<Rightarrow> s\<lparr>mhd_fds := insert fd (mhd_fds s)\<rparr> | None \<Rightarrow> s)"

text \<open>Responses made without a descriptor, and changes that keep the body.\<close>

definition made_plain :: "http_response \<Rightarrow> bool" where
  "made_plain r =
     ((\<exists>f. response_empty f = Inr r) \<or> (\<exists>t c. response_string t c = Inr r) \<or> (\<exists>es. response_iovec es = Inr r)
      \<or> (\<exists>g. response_deferred g = Inr r) \<or> (\<exists>s m t. response_unauthorized s m t = Inr r)
      \<or> (\<exists>p. response_digest p = Inr r) \<or> r = default_response)"

definition changed :: "http_response \<Rightarrow> http_response \<Rightarrow> bool" where
  "changed r r' =
     ((\<exists>k v. with_header k v r = Inr r') \<or> (\<exists>k v. with_footer k v r = Inr r')
      \<or> (\<exists>k v. with_cookie_pair k v r = Inr r') \<or> (\<exists>c. r' = with_cookie c r)
      \<or> (\<exists>n. with_status n r = Inr r') \<or> r' = shoutCAST r \<or> r' = ensure_cookie_mirror r)"

type_synonym response_state = "(nat \<Rightarrow> http_response option) \<times> fd_state"

inductive response_step :: "response_state \<Rightarrow> response_state \<Rightarrow> bool" where
  make_plain: "made_plain r \<Longrightarrow> st a = None \<Longrightarrow> response_step (st, s) (st(a := Some r), s)"
| make_file:
    "make_file_body path fd stat = (b, ev) \<Longrightarrow> response_file b = Inr r \<Longrightarrow> st a = None \<Longrightarrow>
     fd \<notin> open_fds s \<Longrightarrow> response_step (st, s) (st(a := Some r), fold close_fd ev (open_fd fd s))"
| make_pipe:
    "response_pipe fd = Inr r \<Longrightarrow> st a = None \<Longrightarrow> fd \<noteq> - 1 \<Longrightarrow> fd \<notin> open_fds s \<Longrightarrow>
     response_step (st, s) (st(a := Some r), open_fd fd s)"
| change: "st a = Some r \<Longrightarrow> changed r r' \<Longrightarrow> response_step (st, s) (st(a := Some r'), s)"
| move_make:
    "st a = Some r \<Longrightarrow> st b = None \<Longrightarrow> response_move_construct r = (r1, r2, ev) \<Longrightarrow>
     response_step (st, s) (st(b := Some r1, a := Some r2), fold close_fd ev s)"
| move_over:
    "st a = Some r \<Longrightarrow> st b = Some q \<Longrightarrow> a \<noteq> b \<Longrightarrow> response_move_assign q r = (r1, r2, ev) \<Longrightarrow>
     response_step (st, s) (st(b := Some r1, a := Some r2), fold close_fd ev s)"
| destroy:
    "st a = Some r \<Longrightarrow>
     response_step (st, s) (st(a := None), fold close_fd (snd (destroy_body r)) s)"
| deliver:
    "st a = Some r \<Longrightarrow> resp_body r = Some b \<Longrightarrow> \<not> delivered b \<Longrightarrow> body_materialize mhd b = (raw, b', ev) \<Longrightarrow>
     response_step (st, s)
       (st(a := Some (r\<lparr>resp_body := Some b'\<rparr>)), mhd_takes (raw_fd raw) (fold close_fd ev s))"
| mhd_closes:
    "fd \<in> mhd_fds s \<Longrightarrow>
     response_step (st, s) (st, s\<lparr>open_fds := open_fds s - {fd}, mhd_fds := mhd_fds s - {fd}\<rparr>)"

definition owned_at :: "(nat \<Rightarrow> http_response option) \<Rightarrow> nat \<Rightarrow> int option" where
  "owned_at st a = Option.bind (st a) resp_owned"

text \<open>Every open descriptor has one owner: libmicrohttpd or exactly one response.\<close>

definition fd_ok :: "(nat \<Rightarrow> int option) \<Rightarrow> fd_state \<Rightarrow> bool" where
  "fd_ok own s =
     (\<not> misuse s \<and> - 1 \<notin> open_fds s \<and> mhd_fds s \<subseteq> open_fds s
      \<and> open_fds s = mhd_fds s \<union> ran own
      \<and> ran own \<inter> mhd_fds s = {}
      \<and> inj_on own (dom own))"

definition good_response :: "http_response \<Rightarrow> bool" where
  "good_response r = (response_ok r \<and> resp_body r \<noteq> Some (Pipe_Body (- 1) False))"

definition responses_ok :: "response_state \<Rightarrow> bool" where
  "responses_ok x = (fd_ok (owned_at (fst x)) (snd x) \<and> (\<forall>a r. fst x a = Some r \<longrightarrow> good_response r))"

lemma owned_at_upd [simp]: "owned_at (st(a := x)) = (owned_at st)(a := Option.bind x resp_owned)"
  by (auto simp: owned_at_def)

lemma ran_drop:
  assumes "own a = Some fd" "\<forall>b. own b = Some fd \<longrightarrow> b = a"
  shows "ran (own(a := None)) = ran own - {fd}"
proof (rule set_eqI)
  fix x
  have "x \<in> ran (own(a := None)) \<longleftrightarrow> (\<exists>b. b \<noteq> a \<and> own b = Some x)" by (auto simp: ran_def)
  also have "\<dots> \<longleftrightarrow> (\<exists>b. own b = Some x) \<and> x \<noteq> fd" using assms by (metis option.inject)
  also have "\<dots> \<longleftrightarrow> x \<in> ran own - {fd}" by (simp add: ran_def)
  finally show "x \<in> ran (own(a := None)) \<longleftrightarrow> x \<in> ran own - {fd}" .
qed

lemma fd_ok_inj: "fd_ok own s \<Longrightarrow> inj_on own (dom own)"
  unfolding fd_ok_def by blast

lemma fd_ok_clean: "fd_ok own s \<Longrightarrow> \<not> misuse s"
  unfolding fd_ok_def by blast

lemma fd_ok_drop:
  assumes "fd_ok own s" "own a = Some fd"
  shows "ran (own(a := None)) = ran own - {fd}" "fd \<in> open_fds s" "fd \<notin> mhd_fds s" "fd \<in> ran own"
proof -
  have "b = a" if "own b = Some fd" for b
    using inj_onD [OF fd_ok_inj [OF assms(1)], of b a] that assms(2) by (simp add: domI)
  then show "ran (own(a := None)) = ran own - {fd}" using assms(2) by (intro ran_drop) blast+
  show r: "fd \<in> ran own" using assms(2) by (rule ranI)
  show "fd \<in> open_fds s" "fd \<notin> mhd_fds s" using assms(1) r unfolding fd_ok_def by blast+
qed

lemma inj_drop: "inj_on own (dom own) \<Longrightarrow> inj_on (own(a := None)) (dom own - {a})"
  by (auto simp: inj_on_def)

lemma fd_ok_gain:
  assumes "fd_ok own s" "own a = None" "fd \<notin> open_fds s" "fd \<noteq> - 1"
  shows "fd_ok (own(a := Some fd)) (open_fd fd s)"
proof -
  have "fd \<notin> ran own" using assms unfolding fd_ok_def by blast
  then have "\<forall>b. own b \<noteq> Some fd" by (simp add: ran_def)
  then have "inj_on (own(a := Some fd)) (dom (own(a := Some fd)))"
    using assms(1) unfolding fd_ok_def inj_on_def dom_def by auto
  moreover have "ran (own(a := Some fd)) = insert fd (ran own)" using assms(2) by (rule ran_map_upd)
  ultimately show ?thesis
    using assms(1,3,4) \<open>fd \<notin> ran own\<close> unfolding fd_ok_def open_fd_def by auto
qed

lemma fd_ok_close:
  assumes ok: "fd_ok own s" and a: "own a = Some fd"
  shows "fd_ok (own(a := None)) (close_fd (Close_Fd fd) s)"
proof -
  note d = fd_ok_drop [OF assms]
  have *: "open_fds s - {fd} = mhd_fds s \<union> (ran own - {fd})" "mhd_fds s \<subseteq> open_fds s - {fd}"
    "(ran own - {fd}) \<inter> mhd_fds s = {}" "- 1 \<notin> open_fds s - {fd}"
    using ok d(3) unfolding fd_ok_def by blast+
  note fd_ok_inj [OF ok] fd_ok_clean [OF ok]
  with * d(2,3) show ?thesis unfolding fd_ok_def close_fd_def d(1) by (simp add: inj_drop)
qed

lemma fd_ok_give:
  assumes ok: "fd_ok own s" and a: "own a = Some fd"
  shows "fd_ok (own(a := None)) (mhd_takes (Some fd) s)"
proof -
  note d = fd_ok_drop [OF assms]
  have *: "open_fds s = insert fd (mhd_fds s) \<union> (ran own - {fd})" "insert fd (mhd_fds s) \<subseteq> open_fds s"
    "(ran own - {fd}) \<inter> insert fd (mhd_fds s) = {}" "- 1 \<notin> open_fds s"
    using ok d unfolding fd_ok_def by blast+
  note fd_ok_inj [OF ok] fd_ok_clean [OF ok]
  with * show ?thesis unfolding fd_ok_def mhd_takes_def d(1) by (auto simp: inj_drop)
qed

lemma fd_ok_transfer:
  assumes ok: "fd_ok own s" and ab: "a \<noteq> b" "own b = None"
  shows "fd_ok (own(b := own a, a := None)) s"
proof -
  let ?o = "own(b := own a, a := None)"
  have "x \<in> ran ?o \<longleftrightarrow> x \<in> ran own" for x
  proof
    assume "x \<in> ran own"
    then obtain c where c: "own c = Some x" by (auto simp: ran_def)
    then have "?o (if c = a then b else c) = Some x" using ab by auto
    then show "x \<in> ran ?o" by (rule ranI)
  next
    assume "x \<in> ran ?o"
    then obtain c where c: "?o c = Some x" by (auto simp: ran_def)
    then have "own (if c = b then a else c) = Some x" using ab by (auto split: if_splits)
    then show "x \<in> ran own" by (rule ranI)
  qed
  then have "ran ?o = ran own" by blast
  moreover have "inj_on ?o (dom ?o)"
    using ok ab unfolding fd_ok_def inj_on_def dom_def by (auto split: if_splits)
  ultimately show ?thesis using ok unfolding fd_ok_def by (elim conjE) (simp only: simp_thms)
qed

lemma fd_ok_mhd_closes:
  assumes "fd_ok own s" "fd \<in> mhd_fds s"
  shows "fd_ok own (s\<lparr>open_fds := open_fds s - {fd}, mhd_fds := mhd_fds s - {fd}\<rparr>)"
proof -
  have "open_fds s - {fd} = (mhd_fds s - {fd}) \<union> ran own" "ran own \<inter> (mhd_fds s - {fd}) = {}"
    "mhd_fds s - {fd} \<subseteq> open_fds s - {fd}" "- 1 \<notin> open_fds s - {fd}"
    using assms unfolding fd_ok_def by blast+
  moreover note fd_ok_inj [OF assms(1)] fd_ok_clean [OF assms(1)]
  ultimately show ?thesis unfolding fd_ok_def by simp
qed
lemma fd_ok_close_events:
  "fd_ok own s \<Longrightarrow> fd_ok (own(a := None)) (fold close_fd (close_events (own a)) s)"
  by (cases "own a") (auto simp: close_events_def fd_ok_close fun_upd_idem)

lemma fd_ok_file:
  assumes "fd_ok own s" "own a = None" "fd \<notin> open_fds s" "make_file_body path fd stat = (b, ev)"
  shows "fd_ok (own(a := owned_fd b)) (fold close_fd ev (open_fd fd s))"
proof -
  consider "owned_fd b = Some fd" "ev = []" "fd \<noteq> - 1" | "owned_fd b = None" "fd = - 1" "ev = []"
    | "owned_fd b = None" "fd \<noteq> - 1" "ev = [Close_Fd fd]"
    using make_file_body_owner(1) [OF assms(4)] by (elim disjE conjE)
  then show ?thesis
  proof cases
    case 3
    from fd_ok_close [OF fd_ok_gain [OF assms(1,2,3) 3(2)], of a fd] 3 show ?thesis by simp
  qed (use assms fd_ok_gain in \<open>auto simp: open_fd_def fun_upd_idem\<close>)
qed

lemma fd_ok_deliver:
  assumes ok: "fd_ok own s" and a: "own a = owned_fd b" and m: "body_materialize mhd b = (raw, b', ev)"
    and b: "\<not> delivered b" "b \<noteq> Pipe_Body (- 1) False"
  shows "fd_ok (own(a := owned_fd b')) (mhd_takes (raw_fd raw) (fold close_fd ev s))"
proof (cases "owned_fd b")
  case None
  with materialize_owner(1) [OF m b(1)] b(2) ok a show ?thesis
    by (auto simp: mhd_takes_def fun_upd_idem)
next
  case (Some fd)
  with materialize_owner(1) [OF m b(1)] consider
      "owned_fd b' = Some fd" "raw_fd raw = None" "ev = []"
    | "owned_fd b' = None" "raw_fd raw = Some fd" "ev = []"
    | "owned_fd b' = None" "raw_fd raw = None" "ev = [Close_Fd fd]" by auto
  then show ?thesis
  proof cases
    case 1
    then show ?thesis using ok a Some by (simp add: mhd_takes_def fun_upd_idem)
  next
    case 2
    then show ?thesis using fd_ok_give [OF ok, of a fd] a Some by simp
  next
    case 3
    then show ?thesis using fd_ok_close [OF ok, of a fd] a Some by (simp add: mhd_takes_def)
  qed
qed


section \<open>Every step keeps the invariant\<close>

lemma with_header_fields: "with_header k v r = Inr r' \<Longrightarrow> fields_ok r \<Longrightarrow> fields_ok r'"
  by (auto simp: with_header_def validate_http_field_None fields_ok_def clean_map_insert hdr.insert_ok)

lemma emplaced:
  assumes "emplace_body k b r = Inr r'" "fields_ok r" "k = body_kind_of b" "owned_fd b = f" "b \<noteq> Pipe_Body (- 1) False"
  shows "good_response r' \<and> resp_owned r' = f"
  using emplace_body_ok [OF assms(1-3)] assms(4,5) by (simp add: good_response_def resp_owned_def)

lemma factory_bodies [simp]:
  "body_kind_of (Empty_Body f) = kind_empty" "body_kind_of (String_Body t) = kind_string"
  "body_kind_of (make_iovec_body es) = kind_iovec" "body_kind_of (Deferred_Body g) = kind_deferred"
  "body_kind_of (Digest_Body p) = kind_digest_challenge" "body_kind_of (Pipe_Body fd m) = kind_pipe"
  "owned_fd (Empty_Body f) = None" "owned_fd (String_Body t) = None" "owned_fd (make_iovec_body es) = None"
  "owned_fd (Deferred_Body g) = None" "owned_fd (Digest_Body p) = None"
  "owned_fd (Pipe_Body fd m) = (if \<not> m \<and> fd \<noteq> - 1 then Some fd else None)"
  "make_iovec_body es \<noteq> Pipe_Body fd m"
  by (simp_all add: body_kind_of_def owned_fd_def make_iovec_body_def)

lemma made_plain_ok:
  assumes "made_plain r"
  shows "good_response r \<and> resp_owned r = None"
proof -
  have default: "good_response default_response \<and> resp_owned default_response = None"
    by (simp add: good_response_def response_ok_def body_agrees_def fields_ok_def default_response_def
        hdr.map_ok_Nil clean_map_def resp_owned_def)
  have headed: "good_response r' \<and> resp_owned r' = None"
    if "bind_result (with_header k v (default_response\<lparr>status_code := n\<rparr>)) (emplace_body kind_string (String_Body t)) = Inr r'"
    for k v n t r'
    using that with_header_fields emplaced [of kind_string "String_Body t"]
    by (auto simp: bind_result_Inr_iff)
  show ?thesis
    using assms default headed
    by (auto simp: made_plain_def response_empty_def response_string_def response_iovec_def response_deferred_def
        response_unauthorized_def response_digest_def bind_result_Inr_iff
        intro: with_header_fields [OF _ default_fields_ok] dest!: emplaced [where f = None] split: if_splits)
qed

lemma made_file_ok:
  assumes "response_file b = Inr r" "body_kind_of b = kind_file"
  shows "good_response r \<and> resp_owned r = owned_fd b"
proof -
  from assms(1) obtain x where x: "fields_ok x" "emplace_body kind_file b x = Inr r"
    by (auto simp: response_file_def bind_result_Inr_iff intro: with_header_fields [OF _ default_fields_ok])
  have "b \<noteq> Pipe_Body (- 1) False" using assms(2) by auto
  from emplaced [OF x(2,1) _ refl this] assms(2) show ?thesis by simp
qed

lemma made_pipe_ok:
  "response_pipe fd = Inr r \<Longrightarrow> fd \<noteq> - 1 \<Longrightarrow> good_response r \<and> resp_owned r = Some fd"
  by (auto simp: response_pipe_def dest!: emplaced [where f = "Some fd"])

lemma changed_ok:
  assumes "changed r r'" "good_response r"
  shows "good_response r' \<and> resp_owned r' = resp_owned r"
proof -
  have "resp_body r' = resp_body r"
    using assms(1)
    by (auto simp: changed_def with_header_def with_footer_def with_cookie_pair_def with_cookie_def
        with_status_def shoutCAST_def ensure_cookie_mirror_def bind_result_Inr_iff split: if_splits)
  moreover have "response_ok r'"
    using assms with_header_ok with_footer_ok with_cookie_pair_ok with_cookie_ok with_status_ok shoutCAST_ok
      ensure_cookie_mirror_ok
    unfolding changed_def good_response_def by metis
  ultimately show ?thesis using assms(2) by (simp add: good_response_def resp_owned_def)
qed

lemma materialize_pipe:
  "body_materialize mhd b = (raw, b', ev) \<Longrightarrow> b \<noteq> Pipe_Body (- 1) False \<Longrightarrow> b' \<noteq> Pipe_Body (- 1) False"
  by (auto simp: body_materialize_def create_response_def split: response_body.splits if_splits option.splits)

lemma responses_ok_upd:
  "responses_ok (st(a := x), s') \<longleftrightarrow>
     fd_ok ((owned_at st)(a := Option.bind x resp_owned)) s'
     \<and> (\<forall>r. x = Some r \<longrightarrow> good_response r) \<and> (\<forall>b r. b \<noteq> a \<longrightarrow> st b = Some r \<longrightarrow> good_response r)"
  by (auto simp: responses_ok_def)

lemma response_step_ok: "response_step x x' \<Longrightarrow> responses_ok x \<Longrightarrow> responses_ok x'"
proof (induction rule: response_step.induct)
  case (make_plain r st a s)
  then have "owned_at st a = None" by (simp add: owned_at_def)
  with make_plain made_plain_ok show ?case by (auto simp: responses_ok_upd responses_ok_def fun_upd_idem)
next
  case (make_file path fd stat b ev r st a s)
  then have "owned_at st a = None" by (simp add: owned_at_def)
  with make_file fd_ok_file [of "owned_at st" s a fd path stat b ev]
    made_file_ok [OF make_file(2) make_file_body_owner(2) [OF make_file(1)]]
  show ?case by (auto simp: responses_ok_upd responses_ok_def)
next
  case (make_pipe fd r st a s)
  then have "owned_at st a = None" by (simp add: owned_at_def)
  with make_pipe fd_ok_gain [of "owned_at st" s a fd] made_pipe_ok show ?case
    by (auto simp: responses_ok_upd responses_ok_def)
next
  case (change st a r r' s)
  then have "good_response r" "owned_at st a = resp_owned r" by (auto simp: responses_ok_def owned_at_def)
  with change changed_ok [of r r'] show ?case by (auto simp: responses_ok_upd responses_ok_def fun_upd_idem)
next
  case (move_make st a r b r1 r2 ev s)
  then have good: "good_response r" and own: "owned_at st a = resp_owned r" "owned_at st b = None"
    by (auto simp: responses_ok_def owned_at_def)
  from move_construct_ok [OF _ move_make(3)] good
  have "good_response r1" "good_response r2" "ev = []" "resp_owned r1 = owned_at st a" "resp_owned r2 = None"
    by (auto simp: good_response_def resp_owned_def own)
  moreover have "a \<noteq> b" using move_make by auto
  ultimately show ?case
    using move_make(4) fd_ok_transfer [of "owned_at st" s a b] own
    by (auto simp: responses_ok_def fun_upd_twist [of a b])
next
  case (move_over st a r b q r1 r2 ev s)
  then have good: "good_response r" and own: "owned_at st a = resp_owned r" "owned_at st b = resp_owned q"
    by (auto simp: responses_ok_def owned_at_def)
  from move_assign_ok [OF _ move_over(4)] good
  have new: "good_response r1" "good_response r2" "ev = close_events (owned_at st b)"
    "resp_owned r1 = owned_at st a" "resp_owned r2 = None"
    by (auto simp: good_response_def resp_owned_def own)
  have "fd_ok ((owned_at st)(b := None)) (fold close_fd ev s)"
    using move_over(5) fd_ok_close_events [of "owned_at st" s b] by (simp add: responses_ok_def new)
  then have "fd_ok ((owned_at st)(b := owned_at st a, a := None)) (fold close_fd ev s)"
    using fd_ok_transfer [of "(owned_at st)(b := None)" _ a b] move_over(3) by simp
  then show ?case using move_over(5) new by (auto simp: responses_ok_def)
next
  case (destroy st a r s)
  then show ?case
    using fd_ok_close_events [of "owned_at st" s a]
    by (auto simp: responses_ok_def destroy_events owned_at_def)
next
  case (deliver st a r b mhd raw b' ev s)
  then have good: "good_response r" and own: "owned_at st a = owned_fd b"
    by (auto simp: responses_ok_def owned_at_def resp_owned_def)
  have pipe: "b \<noteq> Pipe_Body (- 1) False" using deliver(2) good by (auto simp: good_response_def)
  have "response_ok (r\<lparr>resp_body := Some b'\<rparr>)"
    using good deliver(2) materialize_owner(2) [OF deliver(4,3)]
    by (simp add: good_response_def response_ok_def body_agrees_def fields_ok_def)
  then have "good_response (r\<lparr>resp_body := Some b'\<rparr>)"
    using materialize_pipe [OF deliver(4)] pipe by (simp add: good_response_def)
  then show ?case
    using deliver(5) fd_ok_deliver [where own = "owned_at st", OF _ own deliver(4,3) pipe, of s]
    by (auto simp: responses_ok_def resp_owned_def)
next
  case (mhd_closes fd s st)
  then show ?case using fd_ok_mhd_closes by (auto simp: responses_ok_def)
qed

lemma response_steps_ok: "response_step\<^sup>*\<^sup>* x x' \<Longrightarrow> responses_ok x \<Longrightarrow> responses_ok x'"
  by (induction rule: rtranclp_induct) (auto dest: response_step_ok)

definition no_responses :: response_state where
  "no_responses = (\<lambda>a. None, \<lparr>open_fds = {}, mhd_fds = {}, misuse = False\<rparr>)"

lemma responses_ok_start: "responses_ok no_responses"
  by (auto simp: responses_ok_def no_responses_def fd_ok_def owned_at_def ran_def inj_on_def)

section \<open>Cookies\<close>

lemma mirror_find:
  "hdr.map_ok (mirror_of cs)
   \<and> map_find header_less k (mirror_of cs) =
       map_of (rev (map (\<lambda>c. (header_norm (ck_name c), ck_value c)) cs)) (header_norm k)"
  by (induction cs rule: rev_induct)
    (auto simp: mirror_of_def hdr.map_ok_Nil hdr.insert_ok hdr.find_insert)

lemma put_cookie_names:
  "distinct (map (header_norm \<circ> ck_name) cs) \<Longrightarrow> distinct (map (header_norm \<circ> ck_name) (put_cookie c cs))
   \<and> header_norm ` ck_name ` set (put_cookie c cs) = insert (header_norm (ck_name c)) (header_norm ` ck_name ` set cs)"
  by (induction cs) (auto simp: hdr.equivalent_iff)

section \<open>The quoted realm\<close>

text \<open>A quoted string of RFC 7235 read back: the bytes up to the closing quote, a backslash standing for
  the byte after it.\<close>

fun read_quoted :: "string \<Rightarrow> (string \<times> string) option" where
  "read_quoted [] = None"
| "read_quoted (c # cs) =
     (if c = CHR 0x22 then Some ([], cs)
      else if c = CHR 0x5C then
        (case cs of [] \<Rightarrow> None | d # ds \<Rightarrow> map_option (\<lambda>(a, b). (d # a, b)) (read_quoted ds))
      else map_option (\<lambda>(a, b). (c # a, b)) (read_quoted cs))"

lemma read_escaped: "read_quoted (escape_realm s @ CHR 0x22 # rest) = Some (s, rest)"
  by (induction s) auto

lemma escape_plain: "\<not> list_ex (\<lambda>c. c = CHR 0x5C \<or> c = CHR 0x22) s \<Longrightarrow> escape_realm s = s"
  by (induction s) auto

lemma basic_challenge_escaped:
  "basic_challenge scheme realm = scheme @ '' realm='' @ CHR 0x22 # escape_realm realm @ [CHR 0x22]"
  using escape_plain [of realm] by (auto simp: basic_challenge_def)

lemma clean_escape: "clean s \<Longrightarrow> clean (escape_realm s)"
  by (induction s) (auto simp: clean_def)

lemma clean_basic_challenge: "clean scheme \<Longrightarrow> clean realm \<Longrightarrow> clean (basic_challenge scheme realm)"
  using clean_escape [of realm] by (auto simp: basic_challenge_escaped clean_def)

section \<open>Properties\<close>

text \<open>C33: Through any history of responses made, changed, moved, delivered and destroyed, every file
  descriptor is closed at most once and never while libmicrohttpd owns it, every open descriptor has
  exactly one owner, and when no response is left only libmicrohttpd's descriptors are open.\<close>

theorem descriptors_closed_once:
  assumes "response_step\<^sup>*\<^sup>* no_responses (st, s)"
  shows "\<not> misuse s \<and> open_fds s = mhd_fds s \<union> ran (owned_at st) \<and> ran (owned_at st) \<inter> mhd_fds s = {}
    \<and> inj_on (owned_at st) (dom (owned_at st)) \<and> (st = (\<lambda>a. None) \<longrightarrow> open_fds s = mhd_fds s)"
proof -
  have "fd_ok (owned_at st) s"
    using response_steps_ok [OF assms responses_ok_start] by (simp add: responses_ok_def)
  moreover have "st = (\<lambda>a. None) \<Longrightarrow> ran (owned_at st) = {}" by (simp add: owned_at_def ran_def)
  ultimately show ?thesis unfolding fd_ok_def by (elim conjE) simp
qed

definition example_pipe :: http_response where
  "example_pipe =
     default_response\<lparr>status_code := 200, resp_body := Some (Pipe_Body 7 False), body_inline := True,
       resp_kind := kind_pipe\<rparr>"

lemma example_pipe_step:
  "response_step no_responses ((\<lambda>a. None)(0 := Some example_pipe), open_fd 7 (snd no_responses))"
proof -
  have "response_pipe 7 = Inr example_pipe"
    by (simp add: response_pipe_def emplace_body_def example_pipe_def default_response_def)
  then show ?thesis
    unfolding no_responses_def snd_conv by (rule response_step.make_pipe) simp_all
qed

text \<open>A response with a pipe on descriptor 7 is made: the descriptor is open and the response is its owner.\<close>

theorem descriptors_closed_once_witness:
  "open_fds (open_fd 7 (snd no_responses)) = ran (owned_at ((\<lambda>a. None)(0 := Some example_pipe)))
   \<and> \<not> misuse (open_fd 7 (snd no_responses))"
  using descriptors_closed_once [OF r_into_rtranclp [of response_step, OF example_pipe_step]]
  by (simp add: open_fd_def no_responses_def)

text \<open>C34: Every response a program can build and move keeps its form: the kind names the body it holds (no
  body has the kind empty), the header and footer maps stay sorted by name, hold no CR, LF or NUL in any
  name or value, and a valid cookie mirror is the map of the cookies.\<close>

theorem responses_well_formed:
  assumes "response_step\<^sup>*\<^sup>* no_responses (st, s)" "st a = Some r"
  shows "resp_kind r = (case resp_body r of None \<Rightarrow> kind_empty | Some b \<Rightarrow> body_kind_of b)
    \<and> (\<forall>(k, v) \<in> set (resp_headers r) \<union> set (resp_footers r). clean k \<and> clean v)
    \<and> sorted_wrt header_less (map fst (resp_headers r)) \<and> sorted_wrt header_less (map fst (resp_footers r))
    \<and> (cookies_mirror_valid r \<longrightarrow> resp_cookies r = mirror_of (structured_cookies r))"
proof -
  have "good_response r"
    using response_steps_ok [OF assms(1) responses_ok_start] assms(2) by (simp add: responses_ok_def)
  then show ?thesis
    by (auto simp: good_response_def response_ok_def body_agrees_def fields_ok_def clean_map_def
        hdr.map_ok_def list_all_iff)
qed

theorem responses_well_formed_witness:
  "resp_kind example_pipe = body_kind_of (Pipe_Body 7 False)"
  using responses_well_formed [OF r_into_rtranclp [of response_step, OF example_pipe_step], of 0 example_pipe]
  by (simp add: example_pipe_def)



end
