(* ===== verification/Path_Normalize.thy ===== *)
theory Path_Normalize
  imports String_Utilities
begin

text \<open>
  The path canonicalisation of \<^verbatim>\<open>src/src/detail/webserver_callbacks.cpp\<close>: \<^verbatim>\<open>normalize_path\<close> with its
  output buffer and stack of segment offsets, the normalisation of the configured authentication
  skip list and the skip decision of a request.  The buffer is shown to hold at every moment the
  rendering of a stack of segments, so that the function refines the usual resolution of dot
  segments; the skip decision is characterised by the segments of the path.
\<close>

section \<open>The code\<close>

function normalize_loop :: "string \<Rightarrow> nat \<Rightarrow> string \<Rightarrow> nat list \<Rightarrow> string" where
  "normalize_loop path start out seg_marks =
     (if start < length path then
        (let e = (case find_from path (CHR ''/'') start of Some e \<Rightarrow> e | None \<Rightarrow> length path);
             seg = substr path start (e - start);
             start' = e + 1
         in if seg = [] \<or> seg = ''.'' then normalize_loop path start' out seg_marks
            else if seg = ''..'' then
              (if seg_marks \<noteq> []
               then normalize_loop path start' (take (last seg_marks) out) (butlast seg_marks)
               else normalize_loop path start' out seg_marks)
            else normalize_loop path start'
                   ((if length out > 1 then out @ ''/'' else out) @ seg) (seg_marks @ [length out]))
      else out)"
  by pat_completeness auto
termination
  by (relation "measure (\<lambda>(path, start, out, seg_marks). length path - start)")
    (auto split: option.splits dest: find_from_measure)

declare normalize_loop.simps [simp del]

definition normalize_path :: "string \<Rightarrow> string" where
  "normalize_path path =
     normalize_loop path (if path \<noteq> [] \<and> path ! 0 = CHR ''/'' then 1 else 0) ''/'' []"

text \<open>The test for a trailing \<^verbatim>\<open>/*\<close> that both the configuration and the request path use.\<close>

definition has_wildcard_suffix :: "string \<Rightarrow> bool" where
  "has_wildcard_suffix s = (length s \<ge> 2 \<and> last s = CHR ''*'' \<and> s ! (length s - 2) = CHR ''/'')"

definition percent_entry_error :: "string \<Rightarrow> exn" where
  "percent_entry_error entry = invalid_argument
     (''auth_skip_paths entry contains a percent-encoded sequence ('' @ [CHR 0x27] @ entry @ [CHR 0x27] @
      ''). Skip-path entries must be provided in decoded form (e.g. '' @ [CHR 0x27] @ ''/public/test'' @
      [CHR 0x27] @ '', not '' @ [CHR 0x27] @ ''/public%2Ftest'' @ [CHR 0x27] @ '').'')"

definition normalize_skip_entry :: "string \<Rightarrow> string" where
  "normalize_skip_entry entry =
     (if has_wildcard_suffix entry then
        (if length entry = 2 then ''/*''
         else
           (let normalized_prefix = normalize_path (take (length entry - 2) entry) in
            if normalized_prefix = ''/'' then ''/*'' else normalized_prefix @ ''/*''))
      else normalize_path entry)"

fun normalize_auth_skip_paths :: "string list \<Rightarrow> string list result" where
  "normalize_auth_skip_paths [] = Inr []"
| "normalize_auth_skip_paths (entry # raw) =
     (if find_char (CHR ''%'') entry \<noteq> None then Inl (percent_entry_error entry)
      else bind_result (normalize_auth_skip_paths raw) (\<lambda>out. Inr (normalize_skip_entry entry # out)))"

text \<open>\<^verbatim>\<open>normalized.compare(0, n, prefix, n) == 0\<close> compares the first \<open>n\<close> bytes.\<close>

definition skip_entry_matches :: "string \<Rightarrow> string \<Rightarrow> bool" where
  "skip_entry_matches normalized skip_path =
     (skip_path = normalized \<or>
      has_wildcard_suffix skip_path \<and>
      take (length skip_path - 1) normalized = take (length skip_path - 1) skip_path)"

definition should_skip_auth :: "string list \<Rightarrow> string \<Rightarrow> bool" where
  "should_skip_auth auth_skip_paths_normalized path =
     (if auth_skip_paths_normalized = [] then False
      else list_ex (skip_entry_matches (normalize_path path)) auth_skip_paths_normalized)"

text \<open>The path every later stage of a request sees (\<^verbatim>\<open>answer_to_connection\<close>), from the decoded URL.\<close>

definition dispatch_path :: "string \<Rightarrow> string" where
  "dispatch_path decoded_url = normalize_path (standardize_url decoded_url)"

section \<open>Resolution of dot segments on a stack\<close>

definition push_segment :: "string list \<Rightarrow> string \<Rightarrow> string list" where
  "push_segment st seg =
     (if seg = [] \<or> seg = ''.'' then st else if seg = ''..'' then butlast st else st @ [seg])"

definition resolve :: "string list \<Rightarrow> string list" where
  "resolve segs = foldl push_segment [] segs"

definition render :: "string list \<Rightarrow> string" where
  "render st = CHR ''/'' # join ''/'' st"

definition marks :: "string list \<Rightarrow> nat list" where
  "marks st = map (\<lambda>i. length (render (take i st))) [0..<length st]"

definition path_segment :: "string \<Rightarrow> bool" where
  "path_segment s = (s \<noteq> [] \<and> s \<noteq> ''.'' \<and> s \<noteq> ''..'' \<and> CHR ''/'' \<notin> set s)"

lemma marks_snoc: "marks (st @ [s]) = marks st @ [length (render st)]"
  by (simp add: marks_def)

lemma marks_Nil_iff [simp]: "marks st = [] \<longleftrightarrow> st = []"
  by (simp add: marks_def)

lemma render_Nil [simp]: "render [] = ''/''"
  by (simp add: render_def)

lemma render_snoc:
  "render (st @ [s]) = (if st = [] then render st else render st @ ''/'') @ s"
  by (simp add: render_def join_snoc)

lemma length_render_gt1: "[] \<notin> set st \<Longrightarrow> length (render st) > 1 \<longleftrightarrow> st \<noteq> []"
  using join_eq_Nil [of st "''/''"] by (auto simp: render_def)

lemma render_pop: "take (length (render st)) (render (st @ [s])) = render st"
  by (simp add: render_snoc)

lemma push_segment_nonempty: "[] \<notin> set st \<Longrightarrow> [] \<notin> set (push_segment st s)"
  by (auto simp: push_segment_def dest: in_set_butlastD)

lemma segments_at:
  assumes "start < length path"
    and "e = (case find_from path (CHR ''/'') start of Some e \<Rightarrow> e | None \<Rightarrow> length path)"
  shows "foldl push_segment st (segments (CHR ''/'') (drop start path)) =
    foldl push_segment (push_segment st (substr path start (e - start)))
      (segments (CHR ''/'') (drop (e + 1) path))"
proof (cases "find_from path (CHR ''/'') start")
  case None
  then have "segments (CHR ''/'') (drop start path) = [drop start path]"
    by (simp add: find_from_def find_char_None segments_no_sep)
  moreover have "substr path start (e - start) = drop start path" "drop (e + 1) path = []"
    using None assms by (simp_all add: substr_def)
  ultimately show ?thesis
    by (simp add: push_segment_def)
next
  case (Some i)
  then obtain j where j: "find_char (CHR ''/'') (drop start path) = Some j" "e = start + j"
    using assms by (auto simp: find_from_def)
  then have "segments (CHR ''/'') (drop start path) =
      substr path start (e - start) # segments (CHR ''/'') (drop (e + 1) path)"
    using segments_find [OF j(1)] by (simp add: substr_def add.commute)
  then show ?thesis by simp
qed

lemma normalize_loop_render:
  "[] \<notin> set st \<Longrightarrow> normalize_loop path start (render st) (marks st) =
   render (foldl push_segment st (segments (CHR ''/'') (drop start path)))"
proof (induction "length path - start" arbitrary: start st rule: less_induct)
  case less
  note unfold = normalize_loop.simps [of path start "render st" "marks st"]
  show ?case
  proof (cases "start < length path")
    case False
    then show ?thesis
      by (simp add: unfold push_segment_def)
  next
    case True
    define e where "e = (case find_from path (CHR ''/'') start of Some e \<Rightarrow> e | None \<Rightarrow> length path)"
    define seg where "seg = substr path start (e - start)"
    have "length path - (e + 1) < length path - start"
      using True by (auto simp: e_def split: option.splits dest: find_from_measure)
    then have IH: "normalize_loop path (e + 1) (render st') (marks st') =
        render (foldl push_segment st' (segments (CHR ''/'') (drop (e + 1) path)))"
      if "[] \<notin> set st'" for st'
      using less.hyps that by blast
    have "normalize_loop path start (render st) (marks st) =
        normalize_loop path (e + 1) (render (push_segment st seg)) (marks (push_segment st seg))"
    proof (cases st rule: rev_cases)
      case Nil
      with True less.prems show ?thesis
        unfolding unfold Let_def e_def [symmetric] seg_def [symmetric]
        by (simp add: push_segment_def marks_snoc [of "[]", simplified] render_def marks_def)
    next
      case (snoc st0 s)
      then have "st \<noteq> []" "butlast st = st0" "last (marks st) = length (render st0)"
          "butlast (marks st) = marks st0" "take (length (render st0)) (render st) = render st0"
        by (simp_all add: marks_snoc render_pop)
      with True less.prems length_render_gt1 [of st] show ?thesis
        unfolding unfold Let_def e_def [symmetric] seg_def [symmetric]
        by (simp add: push_segment_def marks_snoc render_snoc)
    qed
    also have "\<dots> = render (foldl push_segment (push_segment st seg) (segments (CHR ''/'') (drop (e + 1) path)))"
      using less.prems by (intro IH push_segment_nonempty)
    finally show ?thesis
      using segments_at [OF True e_def] by (simp add: seg_def)
  qed
qed

lemma normalize_path_resolve: "normalize_path p = render (resolve (segments (CHR ''/'') p))"
proof -
  have "segments (CHR ''/'') (CHR ''/'' # cs) = [] # segments (CHR ''/'') cs" for cs
    by simp
  then show ?thesis
    using normalize_loop_render [of "[]" p "if p \<noteq> [] \<and> p ! 0 = CHR ''/'' then 1 else 0"]
    by (cases p) (auto simp: normalize_path_def resolve_def render_def marks_def push_segment_def)
qed

section \<open>Canonical paths\<close>

lemma push_segment_cases:
  obtains "push_segment st x = st" | "push_segment st x = butlast st"
  | "push_segment st x = st @ [x]" "x \<noteq> []" "x \<noteq> ''.''" "x \<noteq> ''..''"
  unfolding push_segment_def by presburger

lemma push_segment_path:
  assumes "CHR ''/'' \<notin> set x" "\<forall>s \<in> set st. path_segment s"
  shows "\<forall>s \<in> set (push_segment st x). path_segment s"
proof (cases rule: push_segment_cases [of st x])
  case 1
  with assms(2) show ?thesis by (simp only:)
next
  case 2
  with assms(2) show ?thesis by (metis in_set_butlastD)
next
  case 3
  with assms(1) have "path_segment x" unfolding path_segment_def by blast
  with 3 assms(2) show ?thesis by simp
qed

lemma resolve_path_segments:
  assumes "\<forall>s \<in> set segs. CHR ''/'' \<notin> set s"
  shows "\<forall>s \<in> set (resolve segs). path_segment s"
proof -
  have "\<forall>s \<in> set segs. CHR ''/'' \<notin> set s \<Longrightarrow> \<forall>s \<in> set st. path_segment s \<Longrightarrow>
      \<forall>s \<in> set (foldl push_segment st segs). path_segment s" for st
  proof (induction segs arbitrary: st)
    case (Cons x segs)
    then have "\<forall>s \<in> set (push_segment st x). path_segment s"
      by (intro push_segment_path) simp_all
    with Cons show ?case by simp
  qed simp
  from this [of "[]"] assms show ?thesis by (simp add: resolve_def)
qed

lemma resolve_segments_path: "\<forall>s \<in> set (resolve (segments (CHR ''/'') p)). path_segment s"
  by (rule resolve_path_segments) (auto dest: segments_sep_free)

lemma foldl_push_path_segments:
  "\<forall>s \<in> set segs. path_segment s \<Longrightarrow> foldl push_segment st segs = st @ segs"
proof (induction segs arbitrary: st)
  case (Cons x segs)
  then have "push_segment st x = st @ [x]"
    by (simp add: push_segment_def path_segment_def)
  with Cons show ?case by simp
qed simp

lemma resolve_id: "\<forall>s \<in> set segs. path_segment s \<Longrightarrow> resolve segs = segs"
  by (simp add: resolve_def foldl_push_path_segments)

lemma foldl_push_filter:
  "foldl push_segment st (filter (\<lambda>t. t \<noteq> []) segs) = foldl push_segment st segs"
  by (induction segs arbitrary: st) (auto simp: push_segment_def)

lemma resolve_tokens: "resolve (segments (CHR ''/'') p) = resolve (tokenize_url p)"
  by (simp add: resolve_def tokenize_url_def string_split_collapse foldl_push_filter)

lemma render_concat: "st \<noteq> [] \<Longrightarrow> render st = concat (map (\<lambda>t. CHR ''/'' # t) st)"
  unfolding render_def by (induction "''/''" st rule: join.induct) auto

lemma tokenize_render:
  assumes "\<forall>s \<in> set st. path_segment s"
  shows "tokenize_url (render st) = st"
proof (cases "st = []")
  case True
  then show ?thesis
    by (simp add: render_def tokenize_url_def string_split_collapse)
next
  case False
  then show ?thesis
    using assms tokenize_url_join [of st] by (auto simp: render_concat path_segment_def)
qed

lemma normalize_path_tokens: "normalize_path p = render (resolve (tokenize_url p))"
  by (simp add: normalize_path_resolve resolve_tokens)

lemma tokenize_normalize: "tokenize_url (normalize_path p) = resolve (tokenize_url p)"
  using resolve_segments_path [of p] by (simp add: normalize_path_tokens tokenize_render resolve_tokens)

lemma path_segments_resolve: "\<forall>s \<in> set (resolve (tokenize_url p)). path_segment s"
  using resolve_segments_path [of p] by (simp add: resolve_tokens)

lemma normalize_path_idem: "normalize_path (normalize_path p) = normalize_path p"
  using resolve_id [OF path_segments_resolve [of p]]
  by (simp add: normalize_path_tokens [of "normalize_path p"] tokenize_normalize)
    (simp add: normalize_path_tokens)

lemma normalize_standardize: "normalize_path (standardize_url p) = normalize_path p"
  by (simp add: normalize_path_tokens tokenize_standardize)

section \<open>The skip list\<close>

lemma render_inject:
  assumes "\<forall>s \<in> set a. path_segment s" "\<forall>s \<in> set b. path_segment s"
  shows "render a = render b \<longleftrightarrow> a = b"
  by (metis assms tokenize_render)

lemma tokenize_append: "tokenize_url (a @ CHR ''/'' # b) = tokenize_url a @ tokenize_url b"
  by (simp add: tokenize_url_def string_split_collapse segments_append)

lemma tokenize_star: "tokenize_url ''*'' = [''*'']"
  by (simp add: tokenize_url_def string_split_collapse)

lemma wildcard_suffix_split:
  assumes "has_wildcard_suffix e"
  shows "e = take (length e - 2) e @ ''/*''"
proof -
  obtain p c d where e: "e = p @ [c, d]"
    using assms by (cases e rule: rev_cases; cases "butlast e" rule: rev_cases)
      (auto simp: has_wildcard_suffix_def)
  with assms show ?thesis
    by (simp add: has_wildcard_suffix_def nth_append)
qed

lemma wildcard_suffix_append [simp]: "has_wildcard_suffix (s @ ''/*'')"
  by (simp add: has_wildcard_suffix_def nth_append)

lemma resolve_snoc_star: "resolve (ts @ [''*'']) = resolve ts @ [''*'']"
  by (simp add: resolve_def push_segment_def)

lemma render_snoc_star: "render (st @ [''*'']) = (if st = [] then ''/*'' else render st @ ''/*'')"
  by (simp add: render_snoc)

lemma normalize_wildcard:
  assumes "has_wildcard_suffix e"
  shows "normalize_path e = render (resolve (tokenize_url (take (length e - 2) e)) @ [''*''])"
proof -
  have "tokenize_url e = tokenize_url (take (length e - 2) e) @ [''*'']"
    using tokenize_append [of "take (length e - 2) e" "''*''"] wildcard_suffix_split [OF assms]
    by (simp add: tokenize_star)
  then show ?thesis
    by (simp add: normalize_path_tokens resolve_snoc_star)
qed

lemma render_eq_root: "\<forall>s \<in> set st. path_segment s \<Longrightarrow> render st = ''/'' \<longleftrightarrow> st = []"
  using render_inject [of st "[]"] by (simp add: render_def)

lemma normalize_skip_entry_path: "normalize_skip_entry e = normalize_path e"
proof (cases "has_wildcard_suffix e")
  case True
  let ?ps = "resolve (tokenize_url (take (length e - 2) e))"
  have "?ps = []" if "length e = 2"
    using that by (simp add: resolve_def)
  moreover have "normalize_path (take (length e - 2) e) = render ?ps"
    by (rule normalize_path_tokens)
  moreover have "render ?ps = ''/'' \<longleftrightarrow> ?ps = []"
    by (rule render_eq_root [OF path_segments_resolve])
  ultimately show ?thesis
    using True by (simp add: normalize_skip_entry_def normalize_wildcard render_snoc_star Let_def)
qed (simp add: normalize_skip_entry_def)

lemma normalize_auth_skip_paths_Inr:
  "normalize_auth_skip_paths raw = Inr out \<longleftrightarrow>
   (\<forall>e \<in> set raw. CHR ''%'' \<notin> set e) \<and> out = map normalize_path raw"
  by (induction raw arbitrary: out)
    (auto simp: bind_result_Inr_iff find_char_None normalize_skip_entry_path)

lemma has_wildcard_suffix_render:
  assumes "\<forall>s \<in> set st. path_segment s"
  shows "has_wildcard_suffix (render st) \<longleftrightarrow> st \<noteq> [] \<and> last st = ''*''"
proof
  assume R: "has_wildcard_suffix (render st)"
  have "st = tokenize_url (render st)"
    using tokenize_render [OF assms] by simp
  also have "\<dots> = tokenize_url (take (length (render st) - 2) (render st)) @ [''*'']"
    using tokenize_append [of "take (length (render st) - 2) (render st)" "''*''"]
      wildcard_suffix_split [OF R] by (simp add: tokenize_star)
  finally show "st \<noteq> [] \<and> last st = ''*''"
    by (metis last_snoc snoc_eq_iff_butlast)
next
  assume "st \<noteq> [] \<and> last st = ''*''"
  then obtain st0 where "st = st0 @ [''*'']"
    by (metis append_butlast_last_id)
  then show "has_wildcard_suffix (render st)"
    using wildcard_suffix_append [of "[]"] by (simp add: render_snoc_star)
qed

lemma prefix_render:
  assumes "\<forall>s \<in> set ts. path_segment s" "\<forall>s \<in> set st. path_segment s" "st \<noteq> []"
  shows "prefix (render st @ ''/'') (render ts) \<longleftrightarrow> strict_prefix st ts"
proof
  assume "prefix (render st @ ''/'') (render ts)"
  then obtain y where y: "render ts = render st @ CHR ''/'' # y"
    by (auto simp: prefix_def)
  then have "ts = st @ tokenize_url y"
    using tokenize_append [of "render st" y] assms by (metis tokenize_render)
  moreover have "ts \<noteq> st"
    using y by auto
  ultimately show "strict_prefix st ts"
    by (simp add: strict_prefix_def)
next
  assume "strict_prefix st ts"
  then obtain t r where "ts = st @ t # r"
    by (meson strict_prefixE')
  with assms(3) show "prefix (render st @ ''/'') (render ts)"
    by (auto simp: render_concat prefix_def)
qed

text \<open>Which requests a configured entry covers, on the segments of the entry and of the path.\<close>

definition entry_covers :: "string list \<Rightarrow> string list \<Rightarrow> bool" where
  "entry_covers st ts =
     (if st \<noteq> [] \<and> last st = ''*'' then butlast st = [] \<or> strict_prefix (butlast st) ts else ts = st)"

lemma skip_entry_matches_covers:
  assumes "\<forall>s \<in> set ts. path_segment s" "\<forall>s \<in> set st. path_segment s"
  shows "skip_entry_matches (render ts) (render st) \<longleftrightarrow> entry_covers st ts"
proof (cases "st \<noteq> [] \<and> last st = ''*''")
  case False
  then show ?thesis
    using assms has_wildcard_suffix_render [OF assms(2)] render_inject [of st ts]
    by (auto simp: skip_entry_matches_def entry_covers_def)
next
  case True
  then obtain st0 where st: "st = st0 @ [''*'']"
    by (metis append_butlast_last_id)
  define h where "h = take (length (render st) - 1) (render st)"
  have "h = (if st0 = [] then ''/'' else render st0 @ ''/'')"
    by (simp add: h_def st render_snoc_star)
  then have "prefix h (render ts) \<longleftrightarrow> st0 = [] \<or> strict_prefix st0 ts"
    using prefix_render [OF assms(1), of st0] assms(2) st by (auto simp: render_def)
  moreover have "prefix h (render ts) \<longleftrightarrow> take (length (render st) - 1) (render ts) = h"
    by (auto simp: h_def prefix_def intro: exI [of _ "drop (length (render st) - 1) (render ts)"])
      (metis append_take_drop_id)
  moreover have "render st = render ts \<Longrightarrow> take (length (render st) - 1) (render ts) = h"
    by (simp add: h_def)
  moreover have "has_wildcard_suffix (render st)"
    using True has_wildcard_suffix_render [OF assms(2)] by simp
  ultimately show ?thesis
    using True by (auto simp: skip_entry_matches_def entry_covers_def st h_def)
qed

section \<open>Properties\<close>

text \<open>C20: \<^verbatim>\<open>normalize_path\<close>, which truncates its buffer at recorded offsets, computes the
  canonical absolute path: a slash and the slash-separated segments that remain when empty and
  \<^verbatim>\<open>.\<close> segments are dropped and every \<^verbatim>\<open>..\<close> removes the segment before it (or nothing at the root).
  The result has no empty, \<^verbatim>\<open>.\<close> or \<^verbatim>\<open>..\<close> segment, normalising again changes nothing, and the slash
  canonicalisation done before it has no influence.\<close>

theorem normalize_path_canonical:
  "normalize_path p = render (resolve (tokenize_url p)) \<and>
   tokenize_url (normalize_path p) = resolve (tokenize_url p) \<and>
   list_all path_segment (resolve (tokenize_url p)) \<and>
   normalize_path (normalize_path p) = normalize_path p \<and>
   normalize_path (standardize_url p) = normalize_path p"
  using path_segments_resolve [of p]
  by (simp add: tokenize_normalize normalize_path_idem normalize_standardize list_all_iff)
    (simp add: normalize_path_tokens)



text \<open>for a skip list that passes the configuration check, a request skips authentication
  exactly when some configured entry covers it: an entry whose last segment is \<^verbatim>\<open>*\<close> covers the paths
  strictly below the segments before it (every path for \<^verbatim>\<open>/*\<close>), any other entry covers exactly the
  path with the same segments.  The configuration check fails on exactly the lists with a percent
  sign.\<close>

theorem should_skip_auth_spec:
  assumes "normalize_auth_skip_paths raw = Inr skips"
  shows "(should_skip_auth skips path \<longleftrightarrow>
      list_ex (\<lambda>e. entry_covers (resolve (tokenize_url e)) (resolve (tokenize_url path))) raw) \<and>
    list_all (\<lambda>e. CHR ''%'' \<notin> set e) raw"
proof -
  have R: "list_all (\<lambda>e. CHR ''%'' \<notin> set e) raw" "skips = map normalize_path raw"
    using assms by (simp_all add: normalize_auth_skip_paths_Inr list_all_iff)
  have "skip_entry_matches (normalize_path path) (normalize_path e) \<longleftrightarrow>
      entry_covers (resolve (tokenize_url e)) (resolve (tokenize_url path))" for e
    by (simp add: normalize_path_tokens skip_entry_matches_covers path_segments_resolve)
  then show ?thesis
    using R by (auto simp: should_skip_auth_def list_ex_iff)
qed

lemma should_skip_auth_spec_witness:
  "normalize_auth_skip_paths [''/public/./*'', ''/health/''] = Inr [''/public/*'', ''/health''] \<and>
   (should_skip_auth [''/public/*'', ''/health''] ''/public/a'' \<longleftrightarrow>
     list_ex (\<lambda>e. entry_covers (resolve (tokenize_url e)) (resolve (tokenize_url ''/public/a'')))
       [''/public/./*'', ''/health/'']) \<and>
   should_skip_auth [''/public/*'', ''/health''] ''/public/a'' \<and>
   \<not> should_skip_auth [''/public/*'', ''/health''] ''/public''"
proof -
  have E: "normalize_auth_skip_paths [''/public/./*'', ''/health/''] = Inr [''/public/*'', ''/health'']"
    by code_simp
  have "should_skip_auth [''/public/*'', ''/health''] ''/public/a''"
      "\<not> should_skip_auth [''/public/*'', ''/health''] ''/public''"
    by code_simp+
  with should_skip_auth_spec [OF E, of "''/public/a''"] E show ?thesis by blast
qed

end
