(* ===== verification/Http_Endpoint.thy ===== *)
theory Http_Endpoint
  imports Path_Normalize
begin

text \<open>
  \<^verbatim>\<open>src/src/detail/http_endpoint.cpp\<close>: the canonical key, the pattern text and the parameters of a
  registered path, and the tier classification of \<^verbatim>\<open>src/src/httpserver/detail/route_tier.hpp\<close>.
  The lemmas relate the key of a registration to the key of a lookup and describe the pieces and
  parameters the constructor extracts.
\<close>

section \<open>Endpoints\<close>

record 're http_endpoint =
  url_complete :: string
  url_normalized :: string
  url_pars :: "string list"
  url_pieces :: "string list"
  chunk_positions :: "nat list"
  re_url_normalized :: "'re option"
  family_url :: bool
  reg_compiled :: bool

text \<open>\<^verbatim>\<open>url_complete[url_complete.size() - 1]\<close> is out of range for the empty string.\<close>

definition normalize_url_complete :: "string \<Rightarrow> string result" where
  "normalize_url_complete url =
     (if url = [] then Inl (undefined_behaviour ''url_complete[size() - 1]'')
      else
        (let url1 = (if last url = CHR ''/'' then butlast url else url) in
         Inr (if url1 = [] \<or> hd url1 \<noteq> CHR ''/'' then CHR ''/'' # url1 else url1)))"

definition append_non_registration_part ::
    "string \<Rightarrow> 're http_endpoint \<times> bool \<Rightarrow> 're http_endpoint \<times> bool" where
  "append_non_registration_part part s =
     (let (h, first) = s in
      (h\<lparr>url_normalized := url_normalized h @ (if first then [] else ''/'') @ part,
         url_pieces := url_pieces h @ [part]\<rparr>, False))"

definition append_literal_url_part ::
    "string \<Rightarrow> 're http_endpoint \<times> bool \<Rightarrow> 're http_endpoint \<times> bool" where
  "append_literal_url_part part s =
     (let (h, first) = s in
      (h\<lparr>url_normalized :=
           (if first then (if hd part = CHR ''^'' then [] else url_normalized h) @ part
            else url_normalized h @ ''/'' @ part),
         url_pieces := url_pieces h @ [part]\<rparr>, False))"

definition default_parameter_regex :: string where
  "default_parameter_regex = ''([^'' @ [CHR 0x5C] @ ''/]+)''"

definition append_parameter_url_part ::
    "string \<Rightarrow> nat \<Rightarrow> 're http_endpoint \<times> bool \<Rightarrow> ('re http_endpoint \<times> bool) result" where
  "append_parameter_url_part part i s =
     (if length part < 3 \<or> hd part \<noteq> CHR ''{'' \<or> last part \<noteq> CHR ''}''
      then Inl (invalid_argument ''Bad URL format'')
      else
        (let (h, first) = s;
             bar = find_char (CHR ''|'') part;
             par = (case bar of Some b \<Rightarrow> substr part 1 (b - 1) | None \<Rightarrow> substr part 1 (length part - 2));
             re = (case bar of Some b \<Rightarrow> substr part (b + 1) (length part - b - 2)
                   | None \<Rightarrow> default_parameter_regex)
         in Inr (h\<lparr>url_pars := url_pars h @ [par],
                   url_normalized := url_normalized h @ (if first then [] else ''/'') @ re,
                   chunk_positions := chunk_positions h @ [i],
                   url_pieces := url_pieces h @ [part]\<rparr>, False)))"

definition process_url_part ::
    "bool \<Rightarrow> string \<Rightarrow> nat \<Rightarrow> 're http_endpoint \<times> bool \<Rightarrow> ('re http_endpoint \<times> bool) result" where
  "process_url_part registration part i s =
     (if \<not> registration then Inr (append_non_registration_part part s)
      else if part \<noteq> [] \<and> hd part \<noteq> CHR ''{'' then Inr (append_literal_url_part part s)
      else append_parameter_url_part part i s)"

fun process_url_parts ::
    "bool \<Rightarrow> string list \<Rightarrow> nat \<Rightarrow> 're http_endpoint \<times> bool \<Rightarrow> ('re http_endpoint \<times> bool) result" where
  "process_url_parts registration [] i s = Inr s"
| "process_url_parts registration (part # parts) i s =
     bind_result (process_url_part registration part i s)
       (process_url_parts registration parts (i + 1))"

definition compile_regex_url :: "'re regex_engine \<Rightarrow> 're http_endpoint \<Rightarrow> 're http_endpoint result" where
  "compile_regex_url eng h =
     (let pat = url_normalized h @ ''$'' in
      case rx_compile eng pat of
        None \<Rightarrow> Inl (invalid_argument (''Not a valid regex in URL: '' @ pat))
      | Some re \<Rightarrow> Inr (h\<lparr>url_normalized := pat, re_url_normalized := Some re, reg_compiled := True\<rparr>))"

definition make_http_endpoint ::
    "'re regex_engine \<Rightarrow> string \<Rightarrow> bool \<Rightarrow> bool \<Rightarrow> bool \<Rightarrow> 're http_endpoint result" where
  "make_http_endpoint eng url family registration use_regex =
     (if use_regex \<and> \<not> registration
      then Inl (invalid_argument ''Cannot use regex if not during registration'')
      else
        bind_result (normalize_url_complete url) (\<lambda>complete.
        bind_result
          (process_url_parts registration (tokenize_url url) 0
            (\<lparr>url_complete = complete, url_normalized = (if use_regex then ''^/'' else ''/''),
              url_pars = [], url_pieces = [], chunk_positions = [], re_url_normalized = None,
              family_url = family, reg_compiled = False\<rparr>, True)) (\<lambda>(h, first).
        if use_regex then compile_regex_url eng h else Inr h)))"

definition family_prefix :: "'re http_endpoint \<Rightarrow> 're http_endpoint \<Rightarrow> string" where
  "family_prefix h url = ''/'' @ join ''/'' (take (length (url_pieces h)) (url_pieces url))"

definition endpoint_match :: "'re regex_engine \<Rightarrow> 're http_endpoint \<Rightarrow> 're http_endpoint \<Rightarrow> bool result" where
  "endpoint_match eng h url =
     (case re_url_normalized h of
        Some re \<Rightarrow>
          if \<not> reg_compiled h then Inl (invalid_argument ''Cannot run match. Regex suppressed.'')
          else if \<not> family_url h \<or> length (url_pieces url) < length (url_pieces h)
          then Inr (rx_match eng re (url_complete url))
          else Inr (rx_match eng re (family_prefix h url))
      | None \<Rightarrow> Inl (invalid_argument ''Cannot run match. Regex suppressed.''))"

text \<open>The macro \<^verbatim>\<open>COMPARATOR\<close>: shorter strings first, then the first differing character after
  \<^verbatim>\<open>toupper\<close>.\<close>

fun compare_upper :: "string \<Rightarrow> string \<Rightarrow> bool" where
  "compare_upper (a # as) (b # bs) =
     (if char_int (c_toupper a) < char_int (c_toupper b) then True
      else if char_int (c_toupper b) < char_int (c_toupper a) then False
      else compare_upper as bs)"
| "compare_upper _ _ = False"

definition endpoint_less :: "'re http_endpoint \<Rightarrow> 're http_endpoint \<Rightarrow> bool" where
  "endpoint_less a b =
     (if family_url a \<noteq> family_url b then family_url a
      else if length (url_normalized a) < length (url_normalized b) then True
      else if length (url_normalized b) < length (url_normalized a) then False
      else compare_upper (url_normalized a) (url_normalized b))"

section \<open>Tier classification\<close>

datatype 're route_tier_result = Tier_exact | Tier_radix | Tier_regex 're

text \<open>The text \<^verbatim>\<open>e.what()\<close> of the engine's error is left out of the message.\<close>

definition classify_route_tier :: "'re regex_engine \<Rightarrow> 're http_endpoint \<Rightarrow> 're route_tier_result result" where
  "classify_route_tier eng idx =
     (if url_pars idx \<noteq> [] then Inr Tier_radix
      else if reg_compiled idx then
        (case rx_compile eng (url_normalized idx) of
           None \<Rightarrow> Inl (invalid_argument
                     (''invalid regex route pattern '' @ [CHR 0x27] @ url_normalized idx @ [CHR 0x27]))
         | Some re \<Rightarrow> if rx_match eng re (url_complete idx) then Inr Tier_exact else Inr (Tier_regex re))
      else Inr Tier_exact)"

section \<open>The lookup key\<close>

definition canonicalize_lookup_path :: "string \<Rightarrow> string" where
  "canonicalize_lookup_path path =
     (if path = [] then ''/''
      else
        (let has_leading_slash = (hd path = CHR ''/'');
             has_trailing_slash = (length path > 1 \<and> last path = CHR ''/'')
         in if has_leading_slash \<and> \<not> has_trailing_slash then path
            else (if \<not> has_leading_slash then ''/'' else []) @
                 (if has_trailing_slash then butlast path else path)))"

section \<open>Keys\<close>

lemma normalize_url_complete_lookup:
  "url \<noteq> [] \<Longrightarrow> normalize_url_complete url = Inr (canonicalize_lookup_path url)"
proof (cases url rule: rev_cases)
  case (snoc p c)
  then show ?thesis
    by (cases p; cases "c = CHR ''/''")
      (simp_all add: normalize_url_complete_def canonicalize_lookup_path_def Let_def)
qed simp

lemma canonicalize_lookup_path_hd: "\<exists>cs. canonicalize_lookup_path p = CHR ''/'' # cs"
proof (cases p rule: rev_cases)
  case (snoc q c)
  then show ?thesis
    by (cases q; cases "c = CHR ''/''") (auto simp: canonicalize_lookup_path_def Let_def)
qed (simp add: canonicalize_lookup_path_def)

lemma tokenize_canonicalize: "tokenize_url (canonicalize_lookup_path p) = tokenize_url p"
proof -
  have lead: "tokenize_url (CHR ''/'' # q) = tokenize_url q" for q
    using tokenize_append [of "[]" q] by simp
  have trail: "tokenize_url (q @ ''/'') = tokenize_url q" for q
    using tokenize_append [of q "[]"] by simp
  have trail2: "tokenize_url (a # q @ ''/'') = tokenize_url (a # q)" for a q
    using trail [of "a # q"] by simp
  show ?thesis
  proof (cases p rule: rev_cases)
    case (snoc q c)
    then show ?thesis
      by (cases "c = CHR ''/''"; cases q)
        (simp_all add: canonicalize_lookup_path_def lead trail2 Let_def)
  qed (simp add: canonicalize_lookup_path_def lead)
qed

lemma last_render:
  assumes "\<forall>s \<in> set st. path_segment s" "st \<noteq> []"
  shows "last (render st) \<noteq> CHR ''/''"
proof -
  obtain st0 s where st: "st = st0 @ [s]"
    using assms(2) by (metis rev_exhaust)
  then have "s \<noteq> []" "CHR ''/'' \<notin> set s"
    using assms(1) by (simp_all add: path_segment_def)
  then have "last (render st) = last s" "last s \<in> set s"
    by (simp_all add: st render_snoc)
  with \<open>CHR ''/'' \<notin> set s\<close> show ?thesis by metis
qed

lemma canonicalize_render:
  assumes "\<forall>s \<in> set st. path_segment s"
  shows "canonicalize_lookup_path (render st) = render st"
proof (cases "st = []")
  case True
  then show ?thesis by (simp add: canonicalize_lookup_path_def)
next
  case False
  have "hd (render st) = CHR ''/''" "render st \<noteq> []"
    by (simp_all add: render_def)
  with last_render [OF assms False] show ?thesis
    by (simp add: canonicalize_lookup_path_def Let_def)
qed

lemma canonicalize_normalize: "canonicalize_lookup_path (normalize_path p) = normalize_path p"
  by (simp add: normalize_path_tokens canonicalize_render path_segments_resolve)

section \<open>Pieces and parameters\<close>

definition bad_parameter :: "string \<Rightarrow> bool" where
  "bad_parameter part =
     (\<not> (part \<noteq> [] \<and> hd part \<noteq> CHR ''{'') \<and>
      (length part < 3 \<or> hd part \<noteq> CHR ''{'' \<or> last part \<noteq> CHR ''}''))"

definition is_parameter :: "string \<Rightarrow> bool" where
  "is_parameter part = (part = [] \<or> hd part = CHR ''{'')"

definition parameter_name :: "string \<Rightarrow> string" where
  "parameter_name part =
     (case find_char (CHR ''|'') part of
        Some b \<Rightarrow> substr part 1 (b - 1)
      | None \<Rightarrow> substr part 1 (length part - 2))"

lemma process_url_part_throws:
  "throws (process_url_part True part i s) \<longleftrightarrow> bad_parameter part"
  by (auto simp: process_url_part_def append_parameter_url_part_def bad_parameter_def Let_def
      split: prod.splits)

lemma process_url_part_ok:
  "process_url_part True part i (h, f) = Inr (h', f') \<Longrightarrow>
   url_pieces h' = url_pieces h @ [part] \<and>
   url_pars h' = url_pars h @ (if is_parameter part then [parameter_name part] else []) \<and>
   chunk_positions h' = chunk_positions h @ (if is_parameter part then [i] else []) \<and>
   url_complete h' = url_complete h \<and> family_url h' = family_url h \<and> reg_compiled h' = reg_compiled h"
  by (auto simp: process_url_part_def append_parameter_url_part_def append_literal_url_part_def
      is_parameter_def parameter_name_def Let_def split: if_splits option.splits)

lemma process_url_parts_throws:
  "throws (process_url_parts True parts i s) \<longleftrightarrow> list_ex bad_parameter parts"
proof (induction parts arbitrary: i s)
  case (Cons part parts)
  show ?case
  proof (cases "process_url_part True part i s")
    case (Inl e)
    with process_url_part_throws [of part i s] show ?thesis by simp
  next
    case (Inr t)
    with process_url_part_throws [of part i s] Cons.IH show ?thesis by simp
  qed
qed simp

lemma process_url_parts_ok:
  "process_url_parts True parts i (h, f) = Inr (h', f') \<Longrightarrow>
   url_pieces h' = url_pieces h @ parts \<and>
   url_pars h' = url_pars h @ map parameter_name (filter is_parameter parts) \<and>
   chunk_positions h' = chunk_positions h @ map fst (filter (\<lambda>(j, p). is_parameter p) (enumerate i parts)) \<and>
   url_complete h' = url_complete h \<and> family_url h' = family_url h \<and> reg_compiled h' = reg_compiled h"
proof (induction parts arbitrary: i h f)
  case (Cons part parts)
  then obtain h1 f1 where "process_url_part True part i (h, f) = Inr (h1, f1)"
      "process_url_parts True parts (i + 1) (h1, f1) = Inr (h', f')"
    by (auto simp: bind_result_Inr_iff)
  with Cons.IH process_url_part_ok show ?case by fastforce
qed simp

lemma make_http_endpoint_ok:
  assumes "make_http_endpoint eng url family True use_regex = Inr h"
  shows "url \<noteq> [] \<and> url_complete h = canonicalize_lookup_path url \<and> url_pieces h = tokenize_url url \<and>
    url_pars h = map parameter_name (filter is_parameter (tokenize_url url)) \<and>
    chunk_positions h = map fst (filter (\<lambda>(j, p). is_parameter p) (enumerate 0 (tokenize_url url))) \<and>
    family_url h = family \<and> reg_compiled h = use_regex"
proof -
  have ne: "url \<noteq> []"
    using assms by (auto simp: make_http_endpoint_def normalize_url_complete_def)
  obtain h0 f0 where P: "process_url_parts True (tokenize_url url) 0
      (\<lparr>url_complete = canonicalize_lookup_path url, url_normalized = (if use_regex then ''^/'' else ''/''),
        url_pars = [], url_pieces = [], chunk_positions = [], re_url_normalized = None,
        family_url = family, reg_compiled = False\<rparr>, True) = Inr (h0, f0)"
    and F: "(if use_regex then compile_regex_url eng h0 else Inr h0) = Inr h"
    using assms ne by (auto simp: make_http_endpoint_def normalize_url_complete_lookup bind_result_Inr_iff)
  have "url_complete h = url_complete h0 \<and> url_pieces h = url_pieces h0 \<and> url_pars h = url_pars h0 \<and>
      chunk_positions h = chunk_positions h0 \<and> family_url h = family_url h0 \<and>
      reg_compiled h = (use_regex \<or> reg_compiled h0)"
    using F by (auto simp: compile_regex_url_def Let_def split: if_splits option.splits)
  with process_url_parts_ok [OF P] ne show ?thesis by simp
qed

lemma process_url_parts_error:
  "process_url_parts True parts i s = Inl e \<Longrightarrow> e = invalid_argument ''Bad URL format''"
proof (induction parts arbitrary: i s)
  case (Cons part parts)
  then show ?case
    by (cases "process_url_part True part i s")
      (auto simp: process_url_part_def append_parameter_url_part_def Let_def split: if_splits prod.splits)
qed simp

section \<open>Properties\<close>

text \<open>constructing the endpoint of a registered path without regex checking either fails,
  exactly when some segment opens with a brace and is not a parameter of the form \<^verbatim>\<open>{x...}\<close>, with
  the documented error, or yields the canonical key, the segments of the path as pieces, the
  parameter names in order and the positions of the parameter segments.\<close>

theorem http_endpoint_construction:
  fixes eng :: "'re regex_engine"
  assumes "url \<noteq> []"
  shows "case make_http_endpoint eng url family True False of
      Inl e \<Rightarrow> e = invalid_argument ''Bad URL format'' \<and> list_ex bad_parameter (tokenize_url url)
    | Inr h \<Rightarrow>
        \<not> list_ex bad_parameter (tokenize_url url) \<and>
        url_complete h = canonicalize_lookup_path url \<and>
        url_pieces h = tokenize_url url \<and>
        url_pars h = map parameter_name (filter is_parameter (tokenize_url url)) \<and>
        chunk_positions h = map fst (filter (\<lambda>(j, p). is_parameter p) (enumerate 0 (tokenize_url url))) \<and>
        family_url h = family \<and> \<not> reg_compiled h"
proof -
  let ?h = "\<lparr>url_complete = canonicalize_lookup_path url, url_normalized = ''/'',
        url_pars = [], url_pieces = [], chunk_positions = [], re_url_normalized = None,
        family_url = family, reg_compiled = False\<rparr> :: 're http_endpoint"
  have M: "make_http_endpoint eng url family True False =
      bind_result (process_url_parts True (tokenize_url url) 0 (?h, True)) (\<lambda>(h, first). Inr h)"
    using assms by (simp add: make_http_endpoint_def normalize_url_complete_lookup)
  show ?thesis
  proof (cases "process_url_parts True (tokenize_url url) 0 (?h, True)")
    case (Inl e)
    with M process_url_parts_error [OF Inl] process_url_parts_throws [of "tokenize_url url" 0 "(?h, True)"]
    show ?thesis by simp
  next
    case (Inr r)
    then obtain h f where r: "r = (h, f)" by fastforce
    with Inr M process_url_parts_throws [of "tokenize_url url" 0 "(?h, True)"]
      make_http_endpoint_ok [of eng url family False h]
    show ?thesis by simp
  qed
qed

lemma http_endpoint_construction_witness:
  "case make_http_endpoint \<lparr>rx_compile = Some, rx_match = (=)\<rparr> ''/u/{id|[0-9]+}/x/'' False True False of
      Inl e \<Rightarrow> e = invalid_argument ''Bad URL format'' \<and> list_ex bad_parameter (tokenize_url ''/u/{id|[0-9]+}/x/'')
    | Inr h \<Rightarrow>
        \<not> list_ex bad_parameter (tokenize_url ''/u/{id|[0-9]+}/x/'') \<and>
        url_complete h = canonicalize_lookup_path ''/u/{id|[0-9]+}/x/'' \<and>
        url_pieces h = tokenize_url ''/u/{id|[0-9]+}/x/'' \<and>
        url_pars h = map parameter_name (filter is_parameter (tokenize_url ''/u/{id|[0-9]+}/x/'')) \<and>
        chunk_positions h = map fst (filter (\<lambda>(j, p). is_parameter p)
          (enumerate 0 (tokenize_url ''/u/{id|[0-9]+}/x/''))) \<and>
        family_url h = False \<and> \<not> reg_compiled h"
  by (rule http_endpoint_construction) simp

text \<open>a registration and a lookup agree on keys: the key under which a non-empty URL is
  registered is the key under which a request for the same URL is looked up, and the path the
  dispatcher passes is already such a key.\<close>

theorem registration_and_lookup_keys_agree:
  assumes "make_http_endpoint eng url family True use_regex = Inr h"
  shows "url_complete h = canonicalize_lookup_path url \<and>
    tokenize_url (url_complete h) = tokenize_url url \<and>
    canonicalize_lookup_path (dispatch_path url) = dispatch_path url"
  using make_http_endpoint_ok [OF assms]
  by (simp add: tokenize_canonicalize dispatch_path_def canonicalize_normalize)

lemma registration_and_lookup_keys_agree_witness:
  "\<exists>h. make_http_endpoint \<lparr>rx_compile = Some, rx_match = (=)\<rparr> ''a/{b}/'' False True True = Inr h \<and>
    url_complete h = canonicalize_lookup_path ''a/{b}/'' \<and>
    tokenize_url (url_complete h) = tokenize_url ''a/{b}/'' \<and>
    canonicalize_lookup_path (dispatch_path ''a/{b}/'') = dispatch_path ''a/{b}/''"
proof -
  have "\<not> throws (make_http_endpoint \<lparr>rx_compile = Some, rx_match = (=)\<rparr> ''a/{b}/'' False True True)"
    by code_simp
  then obtain h where H: "make_http_endpoint \<lparr>rx_compile = Some, rx_match = (=)\<rparr> ''a/{b}/'' False True True = Inr h"
    by (metis throws_simps(1) sum.exhaust)
  with registration_and_lookup_keys_agree [OF H] show ?thesis by blast
qed

end
