(* ===== verification/Segment_Trie.thy ===== *)
theory Segment_Trie
  imports Http_Endpoint "HOL-Library.AList"
begin

text \<open>
  \<^verbatim>\<open>src/src/httpserver/detail/segment_trie.hpp\<close>: one node per path segment, literal children, one
  wildcard child with its name and constraint, and an exact and a prefix terminus per node.  Updates
  in place are functions from a node to the changed node; an insertion that throws returns the node
  as the exception leaves it.  The children, a \<^verbatim>\<open>std::map\<close>, are an association list.

  The trie is abstracted to the map from pattern keys (a literal segment or a wildcard per level) and
  the kind of terminus to entries; \<open>terminus_store\<close> is the interface the route table uses.  Lookups
  are compared with a reference that lists the nodes a request descends through.
\<close>

section \<open>Nodes\<close>

datatype ('re, 'e) segment_trie_node = Trie_Node
  (children: "(string \<times> ('re, 'e) segment_trie_node) list")
  (wildcard_child: "('re, 'e) segment_trie_node option")
  (wildcard_name: string)
  (wildcard_constraint: "'re option")
  (exact_terminus: "'e option")
  (prefix_terminus: "'e option")

type_synonym captures = "(string \<times> string) list"

record 'e segment_trie_match =
  match_entry :: 'e
  match_captures :: captures
  is_prefix_match :: bool

definition empty_node :: "('re, 'e) segment_trie_node" where
  "empty_node = Trie_Node [] None [] None None None"

definition get_terminus :: "bool \<Rightarrow> ('re, 'e) segment_trie_node \<Rightarrow> 'e option" where
  "get_terminus is_prefix n = (if is_prefix then prefix_terminus n else exact_terminus n)"

definition set_terminus ::
    "bool \<Rightarrow> 'e option \<Rightarrow> ('re, 'e) segment_trie_node \<Rightarrow> ('re, 'e) segment_trie_node" where
  "set_terminus is_prefix v n =
     Trie_Node (children n) (wildcard_child n) (wildcard_name n) (wildcard_constraint n)
       (if is_prefix then exact_terminus n else v) (if is_prefix then v else prefix_terminus n)"

definition set_wildcard_child ::
    "('re, 'e) segment_trie_node \<Rightarrow> ('re, 'e) segment_trie_node \<Rightarrow> ('re, 'e) segment_trie_node" where
  "set_wildcard_child c n =
     Trie_Node (children n) (Some c) (wildcard_name n) (wildcard_constraint n)
       (exact_terminus n) (prefix_terminus n)"

definition set_child ::
    "string \<Rightarrow> ('re, 'e) segment_trie_node \<Rightarrow> ('re, 'e) segment_trie_node \<Rightarrow> ('re, 'e) segment_trie_node" where
  "set_child seg c n =
     Trie_Node (AList.update seg c (children n)) (wildcard_child n) (wildcard_name n)
       (wildcard_constraint n) (exact_terminus n) (prefix_terminus n)"

section \<open>Insertion\<close>

definition is_wildcard_segment :: "string \<Rightarrow> bool" where
  "is_wildcard_segment seg = (length seg \<ge> 2 \<and> hd seg = CHR ''{'' \<and> last seg = CHR ''}'')"

definition parse_wildcard :: "string \<Rightarrow> string \<times> string" where
  "parse_wildcard seg =
     (case find_char (CHR ''|'') seg of
        None \<Rightarrow> (substr seg 1 (length seg - 2), [])
      | Some bar \<Rightarrow> (substr seg 1 (bar - 1), substr seg (bar + 1) (length seg - bar - 2)))"

text \<open>The new wildcard child of \<^verbatim>\<open>descend_or_create\<close>: it is linked into the tree with its name before
  the constraint is compiled, so a bad constraint leaves it behind without one.\<close>

definition create_wildcard ::
    "'re regex_engine \<Rightarrow> string \<Rightarrow> ('re, 'e) segment_trie_node \<times> exn option" where
  "create_wildcard eng seg =
     (let (name, constraint_src) = parse_wildcard seg in
      if constraint_src = [] then (Trie_Node [] None name None None None, None)
      else
        (case rx_compile eng constraint_src of
           Some re \<Rightarrow> (Trie_Node [] None name (Some re) None None, None)
         | None \<Rightarrow> (Trie_Node [] None name None None None,
                    Some (invalid_argument (''Not a valid regex in URL: '' @ constraint_src)))))"

definition find_or_create_wildcard ::
    "'re regex_engine \<Rightarrow> string \<Rightarrow> ('re, 'e) segment_trie_node \<Rightarrow> ('re, 'e) segment_trie_node \<times> exn option" where
  "find_or_create_wildcard eng seg n =
     (case wildcard_child n of Some c \<Rightarrow> (c, None) | None \<Rightarrow> create_wildcard eng seg)"

definition find_or_create_child :: "string \<Rightarrow> ('re, 'e) segment_trie_node \<Rightarrow> ('re, 'e) segment_trie_node" where
  "find_or_create_child seg n = (case map_of (children n) seg of Some c \<Rightarrow> c | None \<Rightarrow> empty_node)"

fun insert_segments ::
    "'re regex_engine \<Rightarrow> string list \<Rightarrow> 'e \<Rightarrow> bool \<Rightarrow> ('re, 'e) segment_trie_node \<Rightarrow>
     ('re, 'e) segment_trie_node \<times> exn option" where
  "insert_segments eng [] entry is_prefix n = (set_terminus is_prefix (Some entry) n, None)"
| "insert_segments eng (seg # segs) entry is_prefix n =
     (if is_wildcard_segment seg then
        (case find_or_create_wildcard eng seg n of
           (c, Some ex) \<Rightarrow> (set_wildcard_child c n, Some ex)
         | (c, None) \<Rightarrow>
             (case insert_segments eng segs entry is_prefix c of
                (c', ex) \<Rightarrow> (set_wildcard_child c' n, ex)))
      else
        (case insert_segments eng segs entry is_prefix (find_or_create_child seg n) of
           (c', ex) \<Rightarrow> (set_child seg c' n, ex)))"

definition trie_insert ::
    "'re regex_engine \<Rightarrow> string \<Rightarrow> 'e \<Rightarrow> bool \<Rightarrow> ('re, 'e) segment_trie_node \<Rightarrow>
     ('re, 'e) segment_trie_node \<times> exn option" where
  "trie_insert eng path entry is_prefix root = insert_segments eng (tokenize_url path) entry is_prefix root"

section \<open>Lookup\<close>

definition exact_match :: "'e \<Rightarrow> captures \<Rightarrow> 'e segment_trie_match" where
  "exact_match e caps = \<lparr>match_entry = e, match_captures = caps, is_prefix_match = False\<rparr>"

definition prefix_match :: "('e \<times> captures) option \<Rightarrow> 'e segment_trie_match option" where
  "prefix_match best =
     map_option (\<lambda>(e, caps). \<lparr>match_entry = e, match_captures = caps, is_prefix_match = True\<rparr>) best"

definition match_root_terminus :: "('re, 'e) segment_trie_node \<Rightarrow> 'e segment_trie_match option" where
  "match_root_terminus root =
     (case exact_terminus root of
        Some e \<Rightarrow> Some (exact_match e [])
      | None \<Rightarrow> prefix_match (map_option (\<lambda>e. (e, [])) (prefix_terminus root)))"

definition pop_next_segment :: "string \<Rightarrow> string \<times> string" where
  "pop_next_segment rest =
     (case find_char (CHR ''/'') rest of
        None \<Rightarrow> (rest, [])
      | Some slash \<Rightarrow> (substr rest 0 slash, drop (slash + 1) rest))"

definition constraint_ok :: "'re regex_engine \<Rightarrow> ('re, 'e) segment_trie_node \<Rightarrow> string \<Rightarrow> bool" where
  "constraint_ok eng c seg = (case wildcard_constraint c of None \<Rightarrow> True | Some re \<Rightarrow> rx_match eng re seg)"

definition step_to_child ::
    "'re regex_engine \<Rightarrow> ('re, 'e) segment_trie_node \<Rightarrow> string \<Rightarrow> captures \<Rightarrow>
     (('re, 'e) segment_trie_node \<times> captures) option" where
  "step_to_child eng n seg caps =
     (case map_of (children n) seg of
        Some c \<Rightarrow> Some (c, caps)
      | None \<Rightarrow>
          (case wildcard_child n of
             None \<Rightarrow> None
           | Some c \<Rightarrow> if \<not> constraint_ok eng c seg then None else Some (c, caps @ [(wildcard_name c, seg)])))"

definition update_best ::
    "('re, 'e) segment_trie_node \<Rightarrow> captures \<Rightarrow> ('e \<times> captures) option \<Rightarrow> ('e \<times> captures) option" where
  "update_best n caps best = (case prefix_terminus n of Some e \<Rightarrow> Some (e, caps) | None \<Rightarrow> best)"

lemma pop_next_segment_shorter:
  "rest \<noteq> [] \<Longrightarrow> pop_next_segment rest = (seg, rest') \<Longrightarrow> length rest' < length rest"
  by (auto simp: pop_next_segment_def split: option.splits dest!: find_char_Some)

function find_loop ::
    "'re regex_engine \<Rightarrow> ('re, 'e) segment_trie_node \<Rightarrow> string \<Rightarrow> ('e \<times> captures) option \<Rightarrow> captures \<Rightarrow>
     'e segment_trie_match option" where
  "find_loop eng n rest best caps =
     (if rest = [] then prefix_match best
      else
        (case pop_next_segment rest of (seg, rest') \<Rightarrow>
         (case step_to_child eng n seg caps of
            None \<Rightarrow> prefix_match best
          | Some (n', caps') \<Rightarrow>
              (case (rest', exact_terminus n') of
                 ([], Some e) \<Rightarrow> Some (exact_match e caps')
               | _ \<Rightarrow> find_loop eng n' rest' (update_best n' caps' best) caps'))))"
  by pat_completeness auto
termination
  by (relation "measure (\<lambda>(eng, n, rest, best, caps). length rest)")
    (auto dest!: pop_next_segment_shorter [OF _ sym])

declare find_loop.simps [simp del]

definition trie_find ::
    "'re regex_engine \<Rightarrow> string \<Rightarrow> ('re, 'e) segment_trie_node \<Rightarrow> 'e segment_trie_match option" where
  "trie_find eng path root =
     (let rest = (if path \<noteq> [] \<and> hd path = CHR ''/'' then tl path else path) in
      if rest = [] then match_root_terminus root
      else find_loop eng root rest (update_best root [] None) [])"

section \<open>Patterns\<close>

fun walk_registered_pattern ::
    "('re, 'e) segment_trie_node \<Rightarrow> string list \<Rightarrow> ('re, 'e) segment_trie_node option" where
  "walk_registered_pattern n [] = Some n"
| "walk_registered_pattern n (seg # segs) =
     (case map_of (children n) seg of
        Some c \<Rightarrow> walk_registered_pattern c segs
      | None \<Rightarrow>
          (case wildcard_child n of
             Some c \<Rightarrow> if is_wildcard_segment seg then walk_registered_pattern c segs else None
           | None \<Rightarrow> None))"

definition has_terminus_at :: "string \<Rightarrow> bool \<Rightarrow> ('re, 'e) segment_trie_node \<Rightarrow> bool" where
  "has_terminus_at path is_prefix root =
     (case walk_registered_pattern root (tokenize_url path) of
        None \<Rightarrow> False
      | Some n \<Rightarrow> get_terminus is_prefix n \<noteq> None)"

text \<open>\<^verbatim>\<open>remove\<close> resets a terminus of the node the walk reaches; the boolean says whether it did.\<close>

fun remove_segments ::
    "string list \<Rightarrow> bool \<Rightarrow> ('re, 'e) segment_trie_node \<Rightarrow> ('re, 'e) segment_trie_node \<times> bool" where
  "remove_segments [] is_prefix n =
     (if get_terminus is_prefix n = None then (n, False) else (set_terminus is_prefix None n, True))"
| "remove_segments (seg # segs) is_prefix n =
     (case map_of (children n) seg of
        Some c \<Rightarrow> (case remove_segments segs is_prefix c of (c', b) \<Rightarrow> (set_child seg c' n, b))
      | None \<Rightarrow>
          (case wildcard_child n of
             Some c \<Rightarrow>
               if is_wildcard_segment seg
               then (case remove_segments segs is_prefix c of (c', b) \<Rightarrow> (set_wildcard_child c' n, b))
               else (n, False)
           | None \<Rightarrow> (n, False)))"

definition trie_remove ::
    "string \<Rightarrow> bool \<Rightarrow> ('re, 'e) segment_trie_node \<Rightarrow> ('re, 'e) segment_trie_node \<times> bool" where
  "trie_remove path is_prefix root = remove_segments (tokenize_url path) is_prefix root"

fun is_node_empty :: "('re, 'e) segment_trie_node \<Rightarrow> bool" where
  "is_node_empty (Trie_Node cs w name re e p) =
     (e = None \<and> p = None \<and> (\<forall>kv \<in> set cs. is_node_empty (snd kv)) \<and>
      (case w of None \<Rightarrow> True | Some c \<Rightarrow> is_node_empty c))"

section \<open>The abstract view: a map from pattern keys\<close>

text \<open>A key has a literal segment or a wildcard (\<^term>\<open>None\<close>) at each level.\<close>

type_synonym pattern_key = "string option list"

definition segment_key :: "string \<Rightarrow> string option" where
  "segment_key seg = (if is_wildcard_segment seg then None else Some seg)"

definition key_of :: "string \<Rightarrow> pattern_key" where
  "key_of path = map segment_key (tokenize_url path)"

fun node_at :: "('re, 'e) segment_trie_node \<Rightarrow> pattern_key \<Rightarrow> ('re, 'e) segment_trie_node option" where
  "node_at n [] = Some n"
| "node_at n (Some seg # ks) = (case map_of (children n) seg of None \<Rightarrow> None | Some c \<Rightarrow> node_at c ks)"
| "node_at n (None # ks) = (case wildcard_child n of None \<Rightarrow> None | Some c \<Rightarrow> node_at c ks)"

definition terminus :: "('re, 'e) segment_trie_node \<Rightarrow> pattern_key \<Rightarrow> bool \<Rightarrow> 'e option" where
  "terminus n k is_prefix = (case node_at n k of None \<Rightarrow> None | Some m \<Rightarrow> get_terminus is_prefix m)"

text \<open>No literal child has the shape of a wildcard, and no key occurs twice.\<close>

fun trie_inv :: "('re, 'e) segment_trie_node \<Rightarrow> bool" where
  "trie_inv (Trie_Node cs w name re e p) =
     (distinct (map fst cs) \<and> (\<forall>kv \<in> set cs. \<not> is_wildcard_segment (fst kv) \<and> trie_inv (snd kv)) \<and>
      (case w of None \<Rightarrow> True | Some c \<Rightarrow> trie_inv c))"

lemma node_updates [simp]:
  "children (set_terminus b v n) = children n"
  "wildcard_child (set_terminus b v n) = wildcard_child n"
  "get_terminus b' (set_terminus b v n) = (if b' = b then v else get_terminus b' n)"
  "children (set_wildcard_child c n) = children n"
  "wildcard_child (set_wildcard_child c n) = Some c"
  "get_terminus b (set_wildcard_child c n) = get_terminus b n"
  "map_of (children (set_child seg c n)) = (map_of (children n))(seg \<mapsto> c)"
  "wildcard_child (set_child seg c n) = wildcard_child n"
  "get_terminus b (set_child seg c n) = get_terminus b n"
  by (simp_all add: set_terminus_def set_wildcard_child_def set_child_def get_terminus_def update_conv')

lemma empty_node_simps [simp]:
  "children empty_node = []" "wildcard_child empty_node = None" "get_terminus b empty_node = None"
  by (simp_all add: empty_node_def get_terminus_def)

lemma create_wildcard_blank:
  "create_wildcard eng seg = (c, ex) \<Longrightarrow>
   children c = [] \<and> wildcard_child c = None \<and> exact_terminus c = None \<and> prefix_terminus c = None"
  by (auto simp: create_wildcard_def Let_def split: prod.splits if_splits option.splits)

lemma terminus_Nil [simp]: "terminus n [] b = get_terminus b n"
  by (simp add: terminus_def)

lemma terminus_Some [simp]:
  "terminus n (Some seg # ks) b =
     (case map_of (children n) seg of None \<Rightarrow> None | Some c \<Rightarrow> terminus c ks b)"
  by (simp add: terminus_def split: option.splits)

lemma terminus_None [simp]:
  "terminus n (None # ks) b = (case wildcard_child n of None \<Rightarrow> None | Some c \<Rightarrow> terminus c ks b)"
  by (simp add: terminus_def split: option.splits)

lemma terminus_blank:
  assumes "children c = []" "wildcard_child c = None" "exact_terminus c = None" "prefix_terminus c = None"
  shows "terminus c ks b = None"
  using assms by (cases "(c, ks)" rule: node_at.cases) (auto simp: get_terminus_def)

lemma terminus_empty_node [simp]: "terminus empty_node ks b = None"
  by (rule terminus_blank) (simp_all add: empty_node_def)

lemma terminus_find_or_create_child:
  "terminus (find_or_create_child seg n) ks b = terminus n (Some seg # ks) b"
  by (simp add: find_or_create_child_def split: option.splits)

lemma terminus_find_or_create_wildcard:
  "find_or_create_wildcard eng seg n = (c, ex) \<Longrightarrow> terminus c ks b = terminus n (None # ks) b"
  by (auto simp: find_or_create_wildcard_def terminus_blank dest!: create_wildcard_blank split: option.splits)

lemma terminus_set_child:
  "terminus (set_child seg c n) ks b =
     (case ks of Some s # ks' \<Rightarrow> if s = seg then terminus c ks' b else terminus n ks b | _ \<Rightarrow> terminus n ks b)"
  by (cases "(n, ks)" rule: node_at.cases) auto

lemma terminus_set_wildcard:
  "terminus (set_wildcard_child c n) ks b =
     (case ks of None # ks' \<Rightarrow> terminus c ks' b | _ \<Rightarrow> terminus n ks b)"
  by (cases "(n, ks)" rule: node_at.cases) auto

text \<open>An insertion that returns sets one terminus; one that throws sets none.\<close>

lemma terminus_insert_segments:
  "insert_segments eng segs e p n = (n', ex) \<Longrightarrow>
   terminus n' ks b =
     (if ex = None \<and> ks = map segment_key segs \<and> b = p then Some e else terminus n ks b)"
proof (induction segs arbitrary: n n' ks)
  case Nil
  then show ?case
    by (cases "(n, ks)" rule: node_at.cases) (auto split: option.splits)
next
  case (Cons seg segs)
  show ?case
  proof (cases "is_wildcard_segment seg")
    case True
    obtain c ex1 where c: "find_or_create_wildcard eng seg n = (c, ex1)"
      by fastforce
    note C = terminus_find_or_create_wildcard [OF c]
    show ?thesis
    proof (cases ex1)
      case (Some x)
      with Cons.prems True c C show ?thesis
        by (auto simp: terminus_set_wildcard split: list.splits option.splits)
    next
      case None
      obtain c' where c': "insert_segments eng segs e p c = (c', ex)" "n' = set_wildcard_child c' n"
        using Cons.prems True c None by (auto split: prod.splits)
      show ?thesis
        using Cons.IH [OF c'(1)] c'(2) C True
        by (auto simp: terminus_set_wildcard segment_key_def split: list.splits option.splits)
    qed
  next
    case False
    obtain c' where c': "insert_segments eng segs e p (find_or_create_child seg n) = (c', ex)"
        "n' = set_child seg c' n"
      using Cons.prems False by (auto split: prod.splits)
    show ?thesis
      using Cons.IH [OF c'(1)] c'(2) terminus_find_or_create_child [of seg n] False
      by (auto simp: terminus_set_child segment_key_def split: list.splits option.splits)
  qed
qed

lemma trie_inv_alt:
  "trie_inv n \<longleftrightarrow>
   distinct (map fst (children n)) \<and>
   (\<forall>kv \<in> set (children n). \<not> is_wildcard_segment (fst kv) \<and> trie_inv (snd kv)) \<and>
   (case wildcard_child n of None \<Rightarrow> True | Some c \<Rightarrow> trie_inv c)"
  by (cases n) simp

lemma trie_inv_child: "trie_inv n \<Longrightarrow> map_of (children n) seg = Some c \<Longrightarrow> trie_inv c \<and> \<not> is_wildcard_segment seg"
  by (auto simp: trie_inv_alt [of n] dest!: map_of_SomeD)

lemma trie_inv_wildcard: "trie_inv n \<Longrightarrow> wildcard_child n = Some c \<Longrightarrow> trie_inv c"
  by (simp add: trie_inv_alt [of n])

lemma trie_inv_empty [simp]: "trie_inv empty_node"
  by (simp add: empty_node_def)

lemma in_set_update: "kv \<in> set (AList.update k v al) \<Longrightarrow> kv = (k, v) \<or> kv \<in> set al"
  by (induction al) (auto split: if_splits)

lemma trie_inv_set_child:
  "trie_inv n \<Longrightarrow> trie_inv c \<Longrightarrow> \<not> is_wildcard_segment seg \<Longrightarrow> trie_inv (set_child seg c n)"
  unfolding trie_inv_alt [of n] trie_inv_alt [of "set_child seg c n"]
  by (auto simp: set_child_def distinct_update dest!: in_set_update)

lemma trie_inv_set_wildcard: "trie_inv n \<Longrightarrow> trie_inv c \<Longrightarrow> trie_inv (set_wildcard_child c n)"
  unfolding trie_inv_alt [of n] trie_inv_alt [of "set_wildcard_child c n"] by simp

lemma trie_inv_set_terminus: "trie_inv (set_terminus b v n) \<longleftrightarrow> trie_inv n"
  unfolding trie_inv_alt [of n] trie_inv_alt [of "set_terminus b v n"] by simp

lemmas trie_inv_updates = trie_inv_set_child trie_inv_set_wildcard trie_inv_set_terminus

lemma trie_inv_blank: "children c = [] \<Longrightarrow> wildcard_child c = None \<Longrightarrow> trie_inv c"
  by (cases c) simp

lemma trie_inv_find_or_create_child: "trie_inv n \<Longrightarrow> trie_inv (find_or_create_child seg n)"
  by (auto simp: find_or_create_child_def dest: trie_inv_child split: option.splits)

lemma trie_inv_find_or_create_wildcard:
  "trie_inv n \<Longrightarrow> find_or_create_wildcard eng seg n = (c, ex) \<Longrightarrow> trie_inv c"
  by (cases "wildcard_child n")
    (auto simp: find_or_create_wildcard_def intro: trie_inv_wildcard trie_inv_blank dest: create_wildcard_blank)

lemma trie_inv_insert_segments:
  "trie_inv n \<Longrightarrow> trie_inv (fst (insert_segments eng segs e p n))"
proof (induction segs arbitrary: n)
  case (Cons seg segs)
  show ?case
  proof (cases "is_wildcard_segment seg")
    case True
    obtain c ex where c: "find_or_create_wildcard eng seg n = (c, ex)"
      by fastforce
    have "trie_inv c"
      using Cons.prems c by (rule trie_inv_find_or_create_wildcard)
    with Cons.IH [of c] Cons.prems True c show ?thesis
      by (cases ex) (auto simp: trie_inv_set_wildcard split: prod.splits)
  next
    case False
    with Cons.IH [OF trie_inv_find_or_create_child [OF Cons.prems, of seg]] Cons.prems show ?thesis
      by (auto simp: trie_inv_set_child split: prod.splits)
  qed
qed (simp add: trie_inv_updates)

lemma trie_inv_remove_segments:
  "trie_inv n \<Longrightarrow> trie_inv (fst (remove_segments segs p n))"
proof (induction segs arbitrary: n)
  case (Cons seg segs)
  show ?case
  proof (cases "map_of (children n) seg")
    case (Some c)
    with Cons.IH [of c] trie_inv_child [OF Cons.prems Some] Cons.prems show ?thesis
      by (auto simp: trie_inv_set_child split: prod.splits)
  next
    case None
    then show ?thesis
    proof (cases "wildcard_child n")
      case (Some c)
      with None Cons.IH [of c] trie_inv_wildcard [OF Cons.prems Some] Cons.prems show ?thesis
        by (auto simp: trie_inv_set_wildcard split: prod.splits)
    qed (simp add: Cons.prems)
  qed
qed (simp add: trie_inv_updates)

lemma walk_registered_node_at:
  "trie_inv n \<Longrightarrow> walk_registered_pattern n segs = node_at n (map segment_key segs)"
proof (induction segs arbitrary: n)
  case (Cons seg segs)
  then show ?case
    by (auto simp: segment_key_def split: option.splits dest: trie_inv_child trie_inv_wildcard)
qed simp

lemma terminus_remove_segments:
  "trie_inv n \<Longrightarrow> remove_segments segs p n = (n', cleared) \<Longrightarrow>
   terminus n' ks b = (if ks = map segment_key segs \<and> b = p then None else terminus n ks b)"
proof (induction segs arbitrary: n n' ks)
  case Nil
  then show ?case
    by (cases "(n, ks)" rule: node_at.cases) (auto split: if_splits option.splits)
next
  case (Cons seg segs)
  show ?case
  proof (cases "map_of (children n) seg")
    case (Some c)
    with Cons.prems have inv: "trie_inv c" "\<not> is_wildcard_segment seg"
      by (auto dest: trie_inv_child)
    obtain c' where c': "remove_segments segs p c = (c', cleared)" "n' = set_child seg c' n"
      using Cons.prems Some by (auto split: prod.splits)
    show ?thesis
      using Cons.IH [OF inv(1) c'(1)] c'(2) Some inv(2)
      by (auto simp: terminus_set_child segment_key_def split: list.splits option.splits)
  next
    case None
    show ?thesis
    proof (cases "is_wildcard_segment seg \<and> wildcard_child n \<noteq> None")
      case True
      then obtain c where c: "wildcard_child n = Some c" by auto
      obtain c' where c': "remove_segments segs p c = (c', cleared)" "n' = set_wildcard_child c' n"
        using Cons.prems None c True by (auto split: prod.splits)
      show ?thesis
        using Cons.IH [OF trie_inv_wildcard [OF Cons.prems(1) c] c'(1)] c'(2) c True
        by (auto simp: terminus_set_wildcard segment_key_def split: list.splits option.splits)
    next
      case False
      then have "n' = n"
        using Cons.prems None by (auto split: option.splits if_splits)
      with False None show ?thesis
        by (auto simp: segment_key_def split: option.splits)
    qed
  qed
qed

section \<open>The interface the route table uses\<close>

text \<open>A store of termini under pattern keys, with insertion that may throw and removal.\<close>

locale terminus_store =
  fixes invar :: "'t \<Rightarrow> bool"
    and look :: "'t \<Rightarrow> pattern_key \<Rightarrow> bool \<Rightarrow> 'e option"
    and add :: "string \<Rightarrow> 'e \<Rightarrow> bool \<Rightarrow> 't \<Rightarrow> 't \<times> exn option"
    and del :: "string \<Rightarrow> bool \<Rightarrow> 't \<Rightarrow> 't \<times> bool"
    and has :: "string \<Rightarrow> bool \<Rightarrow> 't \<Rightarrow> bool"
  assumes invar_add: "invar t \<Longrightarrow> invar (fst (add p e b t))"
    and invar_del: "invar t \<Longrightarrow> invar (fst (del p b t))"
    and look_add: "invar t \<Longrightarrow> look (fst (add p e b t)) k b' =
      (if snd (add p e b t) = None \<and> k = key_of p \<and> b' = b then Some e else look t k b')"
    and look_del: "invar t \<Longrightarrow> look (fst (del p b t)) k b' =
      (if k = key_of p \<and> b' = b then None else look t k b')"
    and has_look: "invar t \<Longrightarrow> has p b t \<longleftrightarrow> look t (key_of p) b \<noteq> None"
begin

lemma has_add:
  "invar t \<Longrightarrow> snd (add p e b t) = None \<Longrightarrow>
   has p' b' (fst (add p e b t)) \<longleftrightarrow> key_of p' = key_of p \<and> b' = b \<or> has p' b' t"
  by (auto simp: has_look invar_add look_add)

lemma has_del:
  "invar t \<Longrightarrow> has p' b' (fst (del p b t)) \<longleftrightarrow> \<not> (key_of p' = key_of p \<and> b' = b) \<and> has p' b' t"
  by (auto simp: has_look invar_del look_del)

lemma failed_add: "invar t \<Longrightarrow> snd (add p e b t) \<noteq> None \<Longrightarrow> look (fst (add p e b t)) = look t"
  by (auto simp: look_add fun_eq_iff)

lemma del_add:
  "invar t \<Longrightarrow> \<not> has p b t \<Longrightarrow> look (fst (del p b (fst (add p e b t)))) = look t"
  by (auto simp: look_add look_del invar_add has_look fun_eq_iff)

lemma del_both:
  "invar t \<Longrightarrow> \<not> has p b (fst (del p True (fst (del p False t))))"
  by (cases b) (simp_all add: has_look look_del invar_del)

end

interpretation trie: terminus_store trie_inv terminus "trie_insert eng" trie_remove has_terminus_at
  for eng :: "'re regex_engine"
proof
  fix t :: "('re, 'e) segment_trie_node" and p b b' k and e :: 'e
  assume inv: "trie_inv t"
  show "trie_inv (fst (trie_insert eng p e b t))"
    using inv by (simp add: trie_insert_def trie_inv_insert_segments)
  show "trie_inv (fst (trie_remove p b t))"
    using inv by (simp add: trie_remove_def trie_inv_remove_segments)
  show "terminus (fst (trie_insert eng p e b t)) k b' =
      (if snd (trie_insert eng p e b t) = None \<and> k = key_of p \<and> b' = b then Some e else terminus t k b')"
    using terminus_insert_segments [of eng "tokenize_url p" e b t] by (simp add: trie_insert_def key_of_def)
  show "terminus (fst (trie_remove p b t)) k b' = (if k = key_of p \<and> b' = b then None else terminus t k b')"
    using terminus_remove_segments [OF inv prod.collapse [symmetric], of "tokenize_url p" b]
    by (simp add: trie_remove_def key_of_def)
  show "has_terminus_at p b t \<longleftrightarrow> terminus t (key_of p) b \<noteq> None"
    using inv by (simp add: has_terminus_at_def terminus_def key_of_def walk_registered_node_at split: option.splits)
qed

section \<open>Lookups\<close>

text \<open>The nodes a request descends through, with the captures so far: at each level the literal
  child if there is one, otherwise the wildcard child if its constraint admits the segment.\<close>

fun descent ::
    "'re regex_engine \<Rightarrow> ('re, 'e) segment_trie_node \<Rightarrow> captures \<Rightarrow> string list \<Rightarrow>
     (('re, 'e) segment_trie_node \<times> captures) list" where
  "descent eng n caps [] = [(n, caps)]"
| "descent eng n caps (r # rs) =
     (n, caps) # (case step_to_child eng n r caps of None \<Rightarrow> [] | Some (c, caps') \<Rightarrow> descent eng c caps' rs)"

definition deepest_prefix :: "(('re, 'e) segment_trie_node \<times> captures) list \<Rightarrow> ('e \<times> captures) option" where
  "deepest_prefix visited = fold (\<lambda>(n, caps) best. update_best n caps best) visited None"

text \<open>An exact terminus when all \<open>k\<close> segments were consumed, otherwise the best prefix.\<close>

definition conclude ::
    "nat \<Rightarrow> (('re, 'e) segment_trie_node \<times> captures) list \<Rightarrow> ('e \<times> captures) option \<Rightarrow> 'e segment_trie_match option" where
  "conclude k visited best =
     (case (if length visited = Suc k then exact_terminus (fst (last visited)) else None) of
        Some e \<Rightarrow> Some (exact_match e (snd (last visited)))
      | None \<Rightarrow> prefix_match best)"

definition find_reference ::
    "'re regex_engine \<Rightarrow> string list \<Rightarrow> ('re, 'e) segment_trie_node \<Rightarrow> 'e segment_trie_match option" where
  "find_reference eng rs root =
     conclude (length rs) (descent eng root [] rs) (deepest_prefix (descent eng root [] rs))"

lemma conclude_Cons: "w \<noteq> [] \<Longrightarrow> conclude (Suc k) (x # w) best = conclude k w best"
  by (simp add: conclude_def split: option.splits)

lemma descent_not_Nil [simp]: "descent eng n caps rs \<noteq> []"
  by (cases rs) simp_all

lemma pop_next_segment_join:
  assumes "CHR ''/'' \<notin> set r"
  shows "pop_next_segment (join ''/'' (r # rs)) = (r, join ''/'' rs)"
proof (cases rs)
  case Nil
  with assms show ?thesis
    by (simp add: pop_next_segment_def iffD2 [OF find_char_None])
next
  case (Cons s ss)
  with assms find_char_append [of "CHR ''/''" r "join ''/'' rs"] show ?thesis
    by (simp add: pop_next_segment_def substr_def)
qed

lemma find_loop_descent:
  assumes "\<forall>s \<in> set rs. path_segment s" "rs \<noteq> []"
  shows "find_loop eng n (join ''/'' rs) best caps =
    conclude (length rs) (descent eng n caps rs)
      (fold (\<lambda>(n, caps) best. update_best n caps best) (tl (descent eng n caps rs)) best)"
  using assms
proof (induction rs arbitrary: n best caps)
  case (Cons r rs)
  have r: "CHR ''/'' \<notin> set r" "r \<noteq> []" and rs: "\<forall>s \<in> set rs. path_segment s"
    using Cons.prems by (simp_all add: path_segment_def)
  have ne: "join ''/'' (r # rs) \<noteq> []"
    using r(2) by (cases rs) simp_all
  have jr: "join ''/'' rs = [] \<longleftrightarrow> rs = []"
    using rs by (intro join_eq_Nil) (auto simp: path_segment_def)
  note unfold = find_loop.simps [of eng n "join ''/'' (r # rs)" best caps]
  show ?case
  proof (cases "step_to_child eng n r caps")
    case None
    with ne r show ?thesis
      by (simp add: unfold pop_next_segment_join conclude_def)
  next
    case (Some s)
    then obtain c caps' where s: "step_to_child eng n r caps = Some (c, caps')"
      by fastforce
    show ?thesis
    proof (cases "rs = []")
      case True
      have "pop_next_segment r = (r, [])"
        using pop_next_segment_join [OF r(1), of "[]"] by simp
      with True s r show ?thesis
        by (cases "exact_terminus c")
          (simp_all add: find_loop.simps [of eng n r] find_loop.simps [of eng c] conclude_def)
    next
      case False
      obtain v where v: "descent eng c caps' rs = (c, caps') # v"
        by (cases rs) simp_all
      have "find_loop eng n (join ''/'' (r # rs)) best caps =
          find_loop eng c (join ''/'' rs) (update_best c caps' best) caps'"
        using s ne r jr False by (cases "join ''/'' rs") (simp_all add: unfold pop_next_segment_join)
      then show ?thesis
        using Cons.IH [OF rs False, of c "update_best c caps' best" caps'] s v
        by (simp add: conclude_Cons)
    qed
  qed
qed simp

lemma trie_find_render:
  assumes "\<forall>s \<in> set rs. path_segment s"
  shows "trie_find eng (render rs) root = find_reference eng rs root"
proof (cases "rs = []")
  case True
  then show ?thesis
    by (cases "exact_terminus root"; cases "prefix_terminus root")
      (simp_all add: trie_find_def match_root_terminus_def find_reference_def deepest_prefix_def
        update_best_def prefix_match_def conclude_def)
next
  case False
  have "join ''/'' rs \<noteq> []"
    using assms False join_eq_Nil [of rs "''/''"] by (auto simp: path_segment_def)
  then have "trie_find eng (render rs) root = find_loop eng root (join ''/'' rs) (update_best root [] None) []"
    by (simp add: trie_find_def render_def)
  moreover obtain v where "descent eng root [] rs = (root, []) # v"
    by (cases rs) simp_all
  ultimately show ?thesis
    by (simp add: find_loop_descent [OF assms False] find_reference_def deepest_prefix_def)
qed

subsection \<open>What a found entry is\<close>

definition key_matches :: "pattern_key \<Rightarrow> string list \<Rightarrow> bool" where
  "key_matches ks rs = list_all2 (\<lambda>k r. case k of Some s \<Rightarrow> s = r | None \<Rightarrow> True) ks rs"

definition wildcard_values :: "pattern_key \<Rightarrow> string list \<Rightarrow> string list" where
  "wildcard_values ks rs = map snd (filter (\<lambda>(k, r). k = None) (zip ks rs))"

lemma key_matches_simps [simp]:
  "key_matches [] rs \<longleftrightarrow> rs = []"
  "key_matches (Some s # ks) (r # rs) \<longleftrightarrow> s = r \<and> key_matches ks rs"
  "key_matches (None # ks) (r # rs) \<longleftrightarrow> key_matches ks rs"
  by (simp_all add: key_matches_def)

lemma wildcard_values_simps [simp]:
  "wildcard_values [] rs = []"
  "wildcard_values (Some s # ks) (r # rs) = wildcard_values ks rs"
  "wildcard_values (None # ks) (r # rs) = r # wildcard_values ks rs"
  by (simp_all add: wildcard_values_def)

lemma descent_nth_key:
  "i < length (descent eng n caps rs) \<Longrightarrow> descent eng n caps rs ! i = (m, c) \<Longrightarrow>
   \<exists>ks. length ks = i \<and> i \<le> length rs \<and> node_at n ks = Some m \<and> key_matches ks (take i rs) \<and>
     map snd c = map snd caps @ wildcard_values ks (take i rs)"
proof (induction rs arbitrary: n caps i)
  case (Cons r rs)
  show ?case
  proof (cases i)
    case (Suc j)
    with Cons.prems(1) obtain c1 caps1 where s: "step_to_child eng n r caps = Some (c1, caps1)"
      by (auto split: option.splits)
    with Cons.prems Suc have "j < length (descent eng c1 caps1 rs)" "descent eng c1 caps1 rs ! j = (m, c)"
      by simp_all
    from Cons.IH [OF this] obtain ks where ks: "length ks = j" "j \<le> length rs" "node_at c1 ks = Some m"
        "key_matches ks (take j rs)" "map snd c = map snd caps1 @ wildcard_values ks (take j rs)"
      by blast
    show ?thesis
    proof (cases "map_of (children n) r")
      case (Some d)
      with s ks Suc show ?thesis
        by (intro exI [of _ "Some r # ks"]) (simp add: step_to_child_def)
    next
      case None
      with s ks Suc show ?thesis
        by (intro exI [of _ "None # ks"]) (auto simp: step_to_child_def split: option.splits if_splits)
    qed
  qed (use Cons.prems in simp)
qed simp

lemma deepest_prefix_snoc: "deepest_prefix (v @ [(n, caps)]) = update_best n caps (deepest_prefix v)"
  by (simp add: deepest_prefix_def)

lemma deepest_prefix_Some:
  "deepest_prefix v = Some (e, caps) \<Longrightarrow>
   \<exists>i m. i < length v \<and> v ! i = (m, caps) \<and> prefix_terminus m = Some e \<and>
     (\<forall>j. i < j \<and> j < length v \<longrightarrow> prefix_terminus (fst (v ! j)) = None)"
proof (induction v rule: rev_induct)
  case (snoc x v)
  obtain n c where x: "x = (n, c)" by fastforce
  show ?case
  proof (cases "prefix_terminus n")
    case None
    with snoc x obtain i m where "i < length v" "v ! i = (m, caps)" "prefix_terminus m = Some e"
        "\<forall>j. i < j \<and> j < length v \<longrightarrow> prefix_terminus (fst (v ! j)) = None"
      by (auto simp: deepest_prefix_snoc update_best_def)
    with None x show ?thesis
      by (intro exI [of _ i] exI [of _ m]) (auto simp: nth_append less_Suc_eq)
  next
    case (Some e')
    with snoc.prems x show ?thesis
      by (intro exI [of _ "length v"] exI [of _ n]) (auto simp: deepest_prefix_snoc update_best_def)
  qed
qed (simp add: deepest_prefix_def)

lemma deepest_prefix_None:
  "deepest_prefix v = None \<longleftrightarrow> (\<forall>x \<in> set v. prefix_terminus (fst x) = None)"
  by (induction v rule: rev_induct)
    (auto simp: deepest_prefix_snoc deepest_prefix_def update_best_def split: option.splits)

lemma find_reference_exact:
  assumes "find_reference eng rs root = Some m" "\<not> is_prefix_match m"
  shows "\<exists>ks. terminus root ks False = Some (match_entry m) \<and> key_matches ks rs \<and>
    map snd (match_captures m) = wildcard_values ks rs"
proof -
  let ?v = "descent eng root [] rs"
  obtain e where L: "length ?v = Suc (length rs)" "exact_terminus (fst (last ?v)) = Some e"
      "m = exact_match e (snd (last ?v))"
    using assms by (auto simp: find_reference_def conclude_def prefix_match_def split: option.splits if_splits)
  obtain n c where nc: "last ?v = (n, c)" by fastforce
  then have "?v ! length rs = (n, c)"
    using L(1) by (simp add: last_conv_nth)
  from descent_nth_key [OF _ this] L(1) obtain ks where
      "node_at root ks = Some n" "key_matches ks rs" "map snd c = wildcard_values ks rs"
    by auto
  with L nc show ?thesis
    by (intro exI [of _ ks]) (simp add: exact_match_def terminus_def get_terminus_def)
qed

lemma find_reference_prefix:
  assumes "find_reference eng rs root = Some m" "is_prefix_match m"
  shows "\<exists>ks. length ks \<le> length rs \<and> terminus root ks True = Some (match_entry m) \<and>
    key_matches ks (take (length ks) rs) \<and>
    map snd (match_captures m) = wildcard_values ks (take (length ks) rs)"
proof -
  let ?v = "descent eng root [] rs"
  have "deepest_prefix ?v = Some (match_entry m, match_captures m)"
    using assms
    by (auto simp: find_reference_def conclude_def prefix_match_def exact_match_def split: option.splits if_splits)
  from deepest_prefix_Some [OF this] obtain i n where i: "i < length ?v" "?v ! i = (n, match_captures m)"
      "prefix_terminus n = Some (match_entry m)"
    by blast
  from descent_nth_key [OF i(1,2)] obtain ks where
      "length ks = i" "i \<le> length rs" "node_at root ks = Some n" "key_matches ks (take i rs)"
      "map snd (match_captures m) = wildcard_values ks (take i rs)"
    by auto
  with i(3) show ?thesis
    by (intro exI [of _ ks]) (simp add: terminus_def get_terminus_def)
qed

subsection \<open>A single route\<close>

definition segment_admits :: "'re regex_engine \<Rightarrow> string \<Rightarrow> string \<Rightarrow> bool" where
  "segment_admits eng p r =
     (if is_wildcard_segment p then
        snd (parse_wildcard p) = [] \<or>
        (case rx_compile eng (snd (parse_wildcard p)) of None \<Rightarrow> False | Some re \<Rightarrow> rx_match eng re r)
      else p = r)"

definition bound_parameters :: "string list \<Rightarrow> string list \<Rightarrow> captures" where
  "bound_parameters ps rs =
     map (\<lambda>(p, r). (fst (parse_wildcard p), r)) (filter (\<lambda>(p, r). is_wildcard_segment p) (zip ps rs))"

definition blank :: "('re, 'e) segment_trie_node \<Rightarrow> bool" where
  "blank n = (children n = [] \<and> wildcard_child n = None \<and> exact_terminus n = None \<and> prefix_terminus n = None)"

lemma insert_blank_step:
  fixes eng :: "'re regex_engine" and n n' :: "('re, 'e) segment_trie_node"
  assumes "blank n" "insert_segments eng (p # ps) e b n = (n', None)"
  obtains c c' where "blank c" "insert_segments eng ps e b c = (c', None)"
    "exact_terminus n' = None" "prefix_terminus n' = None"
    "step_to_child eng n' r caps =
      (if segment_admits eng p r
       then Some (c', caps @ (if is_wildcard_segment p then [(fst (parse_wildcard p), r)] else [])) else None)"
proof (cases "is_wildcard_segment p")
  case True
  obtain c :: "('re, 'e) segment_trie_node" and ex where c: "create_wildcard eng p = (c, ex)"
    by fastforce
  then have f: "find_or_create_wildcard eng p n = (c, ex)"
    using assms(1) by (simp add: find_or_create_wildcard_def blank_def)
  with assms(2) True have ex: "ex = None" by (auto split: option.splits prod.splits)
  obtain c' where c': "insert_segments eng ps e b c = (c', None)" "n' = set_wildcard_child c' n"
    using assms(2) True f ex by (auto split: prod.splits)
  have "wildcard_name c' = wildcard_name c \<and> wildcard_constraint c' = wildcard_constraint c"
    using c'(1) by (cases ps)
      (auto simp: set_terminus_def set_wildcard_child_def set_child_def split: if_splits prod.splits option.splits)
  moreover have "wildcard_name c = fst (parse_wildcard p)" "constraint_ok eng c r = segment_admits eng p r"
    using c ex True
    by (auto simp: create_wildcard_def constraint_ok_def segment_admits_def Let_def
        split: prod.splits if_splits option.splits)
  ultimately show ?thesis
    using that [of c c'] c' assms(1) True create_wildcard_blank [OF c]
    by (auto simp: blank_def step_to_child_def set_wildcard_child_def constraint_ok_def)
next
  case False
  have "find_or_create_child p n = empty_node"
    using assms(1) by (simp add: find_or_create_child_def blank_def)
  then obtain c' where c': "insert_segments eng ps e b empty_node = (c', None)" "n' = set_child p c' n"
    using assms(2) False by (auto split: prod.splits)
  have "step_to_child eng n' r caps = (if p = r then Some (c', caps) else None)"
    using c' assms(1) by (auto simp: step_to_child_def set_child_def blank_def)
  then have "step_to_child eng n' r caps =
      (if segment_admits eng p r
       then Some (c', caps @ (if is_wildcard_segment p then [(fst (parse_wildcard p), r)] else [])) else None)"
    using False by (auto simp: segment_admits_def)
  moreover have "exact_terminus n' = None" "prefix_terminus n' = None"
    using c' assms(1) by (simp_all add: set_child_def blank_def)
  moreover have "blank (empty_node :: ('re, 'e) segment_trie_node)"
    by (simp add: blank_def empty_node_def)
  ultimately show ?thesis
    using that [of empty_node c'] c'(1) by blast
qed

lemma descent_insert_blank:
  assumes "blank n" "insert_segments eng ps e False n = (n', None)"
  shows "conclude (length rs) (descent eng n' caps rs) (deepest_prefix (descent eng n' caps rs)) =
    (if list_all2 (segment_admits eng) ps rs then Some (exact_match e (caps @ bound_parameters ps rs)) else None)"
  using assms
proof (induction ps arbitrary: n n' rs caps)
  case Nil
  then have n': "exact_terminus n' = Some e" "prefix_terminus n' = None" "children n' = []" "wildcard_child n' = None"
    by (auto simp: set_terminus_def blank_def)
  then show ?case
    by (cases rs) (auto simp: conclude_def bound_parameters_def deepest_prefix_def update_best_def
        prefix_match_def step_to_child_def)
next
  case (Cons p ps)
  show ?case
  proof (cases rs)
    case Nil
    obtain c c' where "exact_terminus n' = None" "prefix_terminus n' = None"
      using insert_blank_step [OF Cons.prems] by metis
    with Nil show ?thesis
      by (simp add: conclude_def deepest_prefix_def update_best_def prefix_match_def)
  next
    case rs: (Cons r rs')
    obtain c c' where B: "blank c" "insert_segments eng ps e False c = (c', None)"
        "exact_terminus n' = None" "prefix_terminus n' = None"
        "step_to_child eng n' r caps =
          (if segment_admits eng p r
           then Some (c', caps @ (if is_wildcard_segment p then [(fst (parse_wildcard p), r)] else [])) else None)"
      by (rule insert_blank_step [OF Cons.prems, of r caps])
    show ?thesis
      using B(3-) rs Cons.IH [OF B(1,2), of rs']
      by (simp add: conclude_Cons bound_parameters_def deepest_prefix_def update_best_def)
        (simp add: conclude_def prefix_match_def)
  qed
qed

subsection \<open>Literal routes and emptiness\<close>

lemma insert_literal_descent:
  assumes "\<forall>s \<in> set ps. \<not> is_wildcard_segment s"
  shows "snd (insert_segments eng ps e b n) = None \<and>
    length ps < length (descent eng (fst (insert_segments eng ps e b n)) caps (ps @ ext)) \<and>
    (\<exists>m. descent eng (fst (insert_segments eng ps e b n)) caps (ps @ ext) ! length ps = (m, caps) \<and>
      get_terminus b m = Some e)"
  using assms
proof (induction ps arbitrary: n)
  case Nil
  then show ?case by (cases ext) simp_all
next
  case (Cons p ps)
  obtain c' ex where c: "insert_segments eng ps e b (find_or_create_child p n) = (c', ex)"
    by fastforce
  have "step_to_child eng (set_child p c' n) p caps = Some (c', caps)"
    by (simp add: step_to_child_def)
  with Cons.IH [of "find_or_create_child p n"] Cons.prems c show ?case
    by simp
qed

lemma trie_find_literal_exact:
  assumes "\<forall>s \<in> set ps. path_segment s \<and> \<not> is_wildcard_segment s"
    "trie_insert eng path e False t = (t', ex)" "tokenize_url path = ps"
  shows "ex = None \<and> trie_find eng (render ps) t' = Some (exact_match e [])"
proof -
  from insert_literal_descent [of ps eng e False t "[]" "[]"] assms obtain m where
      m: "ex = None" "length ps < length (descent eng t' [] ps)" "descent eng t' [] ps ! length ps = (m, [])"
      "exact_terminus m = Some e"
    by (auto simp: trie_insert_def get_terminus_def)
  moreover have "length (descent eng n caps rs) \<le> Suc (length rs)" for n caps rs
    by (induction rs arbitrary: n caps) (auto split: option.splits)
  then have "length (descent eng t' [] ps) = Suc (length ps)"
    using m(2) by (metis Suc_leI le_antisym)
  ultimately have "find_reference eng ps t' = Some (exact_match e [])"
    by (simp add: find_reference_def conclude_def last_conv_nth)
  with m(1) assms(1) show ?thesis
    by (simp add: trie_find_render)
qed

lemma trie_find_literal_prefix:
  assumes "\<forall>s \<in> set (ps @ ext). path_segment s" "\<forall>s \<in> set ps. \<not> is_wildcard_segment s"
    "trie_insert eng path e True t = (t', ex)" "tokenize_url path = ps"
  shows "ex = None \<and> trie_find eng (render (ps @ ext)) t' \<noteq> None"
proof -
  let ?v = "descent eng t' [] (ps @ ext)"
  from insert_literal_descent [of ps eng e True t "[]" ext] assms obtain m where
      m: "ex = None" "length ps < length ?v" "?v ! length ps = (m, [])" "prefix_terminus m = Some e"
    by (auto simp: trie_insert_def get_terminus_def)
  have "(m, []) \<in> set ?v"
    using m(2,3) nth_mem by metis
  then have "deepest_prefix ?v \<noteq> None"
    using m(4) deepest_prefix_None [of ?v] by fastforce
  then have "find_reference eng (ps @ ext) t' \<noteq> None"
    by (auto simp: find_reference_def conclude_def prefix_match_def split: option.splits)
  with m(1) assms(1) show ?thesis
    by (simp add: trie_find_render)
qed

lemma is_node_empty_iff: "trie_inv n \<Longrightarrow> is_node_empty n \<longleftrightarrow> (\<forall>k b. terminus n k b = None)"
proof (induction n)
  case (Trie_Node cs w name re e p)
  let ?n = "Trie_Node cs w name re e p"
  have split: "(\<forall>k b. terminus ?n k b = None) \<longleftrightarrow>
      e = None \<and> p = None \<and> (\<forall>kv \<in> set cs. \<forall>k b. terminus (snd kv) k b = None) \<and>
      (case w of None \<Rightarrow> True | Some c \<Rightarrow> \<forall>k b. terminus c k b = None)" (is "?L \<longleftrightarrow> ?R")
  proof
    assume L: ?L
    have "e = None" "p = None"
      using L [rule_format, of "[]" False] L [rule_format, of "[]" True] by (simp_all add: get_terminus_def)
    moreover have "terminus (snd kv) k b = None" if "kv \<in> set cs" for kv k b
    proof -
      have "map_of cs (fst kv) = Some (snd kv)"
        using that Trie_Node.prems by (intro map_of_is_SomeI) simp_all
      with L [rule_format, of "Some (fst kv) # k" b] show ?thesis by simp
    qed
    moreover have "terminus c k b = None" if "w = Some c" for c k b
      using L [rule_format, of "None # k" b] that by simp
    ultimately show ?R by (simp split: option.splits)
  next
    assume R: ?R
    show ?L
    proof (intro allI)
      fix k b
      show "terminus ?n k b = None"
        using R by (cases "(?n, k)" rule: node_at.cases)
          (auto simp: get_terminus_def split: option.splits dest!: map_of_SomeD)
    qed
  qed
  have "is_node_empty (snd kv) \<longleftrightarrow> (\<forall>k b. terminus (snd kv) k b = None)" if "kv \<in> set cs" for kv
    using Trie_Node.IH(1) [of kv "snd kv"] Trie_Node.prems that by (simp add: snds.simps)
  moreover have "is_node_empty c \<longleftrightarrow> (\<forall>k b. terminus c k b = None)" if "w = Some c" for c
    using Trie_Node.IH(2) [of c] Trie_Node.prems that by simp
  ultimately show ?case
    unfolding split by (simp split: option.splits)
qed

section \<open>Properties\<close>

text \<open>C2: the trie is a map from pattern keys and terminus kinds to entries.  An insertion that
  returns changes exactly the terminus of its kind at its own key, an insertion that throws changes
  none, a removal clears exactly its own terminus, the collision probe reads that map, and all of
  them keep the well-formedness of the tree.\<close>

theorem segment_trie_refines_map:
  assumes "trie_inv t"
  shows "trie_inv (fst (trie_insert eng p e b t)) \<and> trie_inv (fst (trie_remove p b t)) \<and>
    terminus (fst (trie_insert eng p e b t)) k b' =
      (if snd (trie_insert eng p e b t) = None \<and> k = key_of p \<and> b' = b then Some e else terminus t k b') \<and>
    terminus (fst (trie_remove p b t)) k b' = (if k = key_of p \<and> b' = b then None else terminus t k b') \<and>
    has_terminus_at p b t = (terminus t (key_of p) b \<noteq> None)"
  using assms by (simp only: trie.invar_add trie.invar_del trie.look_add trie.look_del trie.has_look)

lemma segment_trie_refines_map_witness:
  "trie_inv (empty_node :: (string, nat) segment_trie_node) \<and>
   terminus (fst (trie_insert \<lparr>rx_compile = Some, rx_match = (=)\<rparr> ''/u/{id}'' 7 False (empty_node :: (string, nat) segment_trie_node)))
     [Some ''u'', None] False = Some 7"
proof -
  have "trie_inv (empty_node :: (string, nat) segment_trie_node)"
    by simp
  from segment_trie_refines_map [OF this, of "\<lparr>rx_compile = Some, rx_match = (=)\<rparr>" "''/u/{id}''" "7" False
      "[Some ''u'', None]" False]
  have "terminus (fst (trie_insert \<lparr>rx_compile = Some, rx_match = (=)\<rparr> ''/u/{id}'' 7 False (empty_node :: (string, nat) segment_trie_node)))
     [Some ''u'', None] False =
      (if snd (trie_insert \<lparr>rx_compile = Some, rx_match = (=)\<rparr> ''/u/{id}'' 7 False (empty_node :: (string, nat) segment_trie_node)) = None \<and>
        [Some ''u'', None] = key_of ''/u/{id}'' \<and> False = False then Some 7
       else terminus (empty_node :: (string, nat) segment_trie_node) [Some ''u'', None] False)"
    by blast
  moreover have "snd (trie_insert \<lparr>rx_compile = Some, rx_match = (=)\<rparr> ''/u/{id}'' 7 False (empty_node :: (string, nat) segment_trie_node)) = None"
    by code_simp
  moreover have "key_of ''/u/{id}'' = [Some ''u'', None]"
    by code_simp
  ultimately show ?thesis by simp
qed





text \<open>one parameterised route in an otherwise empty table answers exactly the requests whose
  segments it admits, literal segments by equality and parameters by their constraint, and binds
  every parameter name to the segment in its place.\<close>

theorem trie_single_route:
  assumes "list_all path_segment rs" "trie_insert eng path e False empty_node = (t, None)"
  shows "trie_find eng (render rs) t =
    (if list_all2 (segment_admits eng) (tokenize_url path) rs
     then Some (exact_match e (bound_parameters (tokenize_url path) rs)) else None)"
proof -
  have "blank (empty_node :: ('a, 'b) segment_trie_node)"
    by (simp add: blank_def empty_node_def)
  from descent_insert_blank [OF this, of eng "tokenize_url path" e t rs "[]"] assms show ?thesis
    by (simp add: trie_find_render list_all_iff find_reference_def trie_insert_def)
qed

lemma trie_single_route_witness:
  "trie_find \<lparr>rx_compile = Some, rx_match = (=)\<rparr> (render [''u'', ''42''])
     (fst (trie_insert \<lparr>rx_compile = Some, rx_match = (=)\<rparr> ''/u/{id}'' (7 :: nat) False empty_node)) =
   (if list_all2 (segment_admits \<lparr>rx_compile = Some, rx_match = (=)\<rparr>) (tokenize_url ''/u/{id}'') [''u'', ''42'']
    then Some (exact_match 7 (bound_parameters (tokenize_url ''/u/{id}'') [''u'', ''42''])) else None)"
proof (rule trie_single_route)
  show "list_all path_segment [''u'', ''42'']"
    by code_simp
  have "snd (trie_insert \<lparr>rx_compile = Some, rx_match = (=)\<rparr> ''/u/{id}'' (7 :: nat) False empty_node) = None"
    by code_simp
  then show "trie_insert \<lparr>rx_compile = Some, rx_match = (=)\<rparr> ''/u/{id}'' (7 :: nat) False empty_node =
      (fst (trie_insert \<lparr>rx_compile = Some, rx_match = (=)\<rparr> ''/u/{id}'' (7 :: nat) False empty_node), None)"
    by (metis prod.collapse)
qed

end
