(* ===== verification/Http_Method.thy ===== *)
theory Http_Method
  imports Prelude
begin

text \<open>
  \<^verbatim>\<open>src/src/httpserver/http_method.hpp\<close> and \<^verbatim>\<open>src/src/httpserver/detail/method_utils.hpp\<close>: the method
  enumeration, the 32-bit set of methods with its operators, the wire tokens and the value of the
  \<^verbatim>\<open>Allow\<close> header.  The bit set is abstracted to the finite set of the methods it contains; the
  interface its clients rely on is the locale \<open>method_store\<close>.
\<close>

unbundle bit_operations_syntax

section \<open>Methods and method sets\<close>

datatype http_method =
  get | head | post | put | del | connect | options | trace | patch | count_sentinel

fun method_index :: "http_method \<Rightarrow> nat" where
  "method_index get = 0"
| "method_index head = 1"
| "method_index post = 2"
| "method_index put = 3"
| "method_index del = 4"
| "method_index connect = 5"
| "method_index options = 6"
| "method_index trace = 7"
| "method_index patch = 8"
| "method_index count_sentinel = 9"

definition declared_methods :: "http_method list" where
  "declared_methods = [get, head, post, put, del, connect, options, trace, patch]"

definition method_bit :: "http_method \<Rightarrow> 32 word" where
  "method_bit m = push_bit (method_index m) 1"

definition valid_method_mask :: "32 word" where
  "valid_method_mask = push_bit (method_index count_sentinel) 1 - 1"

record method_set =
  bits :: "32 word"

definition ms_none :: method_set where
  "ms_none = \<lparr>bits = 0\<rparr>"

definition ms_contains :: "method_set \<Rightarrow> http_method \<Rightarrow> bool" where
  "ms_contains s m = (bits s AND method_bit m \<noteq> 0)"

definition ms_set :: "http_method \<Rightarrow> method_set \<Rightarrow> method_set" where
  "ms_set m s = s\<lparr>bits := bits s OR method_bit m\<rparr>"

definition ms_clear :: "http_method \<Rightarrow> method_set \<Rightarrow> method_set" where
  "ms_clear m s = s\<lparr>bits := bits s AND NOT (method_bit m)\<rparr>"

definition ms_set_all :: "method_set \<Rightarrow> method_set" where
  "ms_set_all s = s\<lparr>bits := valid_method_mask\<rparr>"

definition ms_clear_all :: "method_set \<Rightarrow> method_set" where
  "ms_clear_all s = s\<lparr>bits := 0\<rparr>"

definition ms_empty :: "method_set \<Rightarrow> bool" where
  "ms_empty s = (bits s AND valid_method_mask = 0)"

definition ms_single :: "http_method \<Rightarrow> method_set" where
  "ms_single m = \<lparr>bits = method_bit m\<rparr>"

definition ms_or :: "method_set \<Rightarrow> method_set \<Rightarrow> method_set" where
  "ms_or a b = \<lparr>bits = bits a OR bits b\<rparr>"

definition ms_and :: "method_set \<Rightarrow> method_set \<Rightarrow> method_set" where
  "ms_and a b = \<lparr>bits = bits a AND bits b\<rparr>"

definition ms_xor :: "method_set \<Rightarrow> method_set \<Rightarrow> method_set" where
  "ms_xor a b = \<lparr>bits = bits a XOR bits b\<rparr>"

definition ms_not :: "method_set \<Rightarrow> method_set" where
  "ms_not s = \<lparr>bits = valid_method_mask AND NOT (bits s)\<rparr>"

definition method_names :: "string list" where
  "method_names =
     [''GET'', ''HEAD'', ''POST'', ''PUT'', ''DELETE'', ''CONNECT'', ''OPTIONS'', ''TRACE'', ''PATCH'']"

definition method_to_string :: "http_method \<Rightarrow> string" where
  "method_to_string m =
     (let idx = method_index m in if idx \<ge> length method_names then [] else method_names ! idx)"

text \<open>The loop of \<^verbatim>\<open>format_allow_header\<close> over the enumerators, with the header value built so far.\<close>

fun format_allow_loop :: "method_set \<Rightarrow> http_method list \<Rightarrow> string \<Rightarrow> string" where
  "format_allow_loop allowed [] header_value = header_value"
| "format_allow_loop allowed (m # ms) header_value =
     (if \<not> ms_contains allowed m then format_allow_loop allowed ms header_value
      else format_allow_loop allowed ms
             ((if header_value \<noteq> [] then header_value @ '', '' else header_value) @ method_to_string m))"

definition format_allow_header :: "method_set \<Rightarrow> string" where
  "format_allow_header allowed = format_allow_loop allowed declared_methods []"

section \<open>Order of the enumeration\<close>

instantiation http_method :: linorder
begin

definition less_eq_http_method :: "http_method \<Rightarrow> http_method \<Rightarrow> bool" where
  "less_eq_http_method a b = (method_index a \<le> method_index b)"

definition less_http_method :: "http_method \<Rightarrow> http_method \<Rightarrow> bool" where
  "less_http_method a b = (method_index a < method_index b)"

instance
proof
  fix x y :: http_method
  assume "x \<le> y" "y \<le> x"
  then show "x = y"
    by (cases x; cases y) (simp_all add: less_eq_http_method_def)
qed (auto simp: less_eq_http_method_def less_http_method_def)

end

section \<open>The set a bit mask stands for\<close>

definition methods_of :: "method_set \<Rightarrow> http_method set" where
  "methods_of s = {m. m \<noteq> count_sentinel \<and> ms_contains s m}"

definition in_window :: "method_set \<Rightarrow> bool" where
  "in_window s = (bits s AND NOT valid_method_mask = 0)"

lemma method_index_less: "method_index m < 32"
  by (cases m) simp_all

lemma method_index_inj [simp]: "method_index a = method_index b \<longleftrightarrow> a = b"
  by (cases a; cases b) simp_all

lemma method_index_valid [simp]: "method_index m < 9 \<longleftrightarrow> m \<noteq> count_sentinel"
  by (cases m) simp_all

lemma ex_method_index: "n < 9 \<Longrightarrow> \<exists>m. m \<noteq> count_sentinel \<and> method_index m = n"
proof -
  assume "n < 9"
  then consider "n = 0" | "n = 1" | "n = 2" | "n = 3" | "n = 4" | "n = 5" | "n = 6" | "n = 7" | "n = 8"
    by linarith
  then show ?thesis
    by cases (metis http_method.distinct method_index.simps)+
qed

lemma declared_methods_iff [simp]: "m \<in> set declared_methods \<longleftrightarrow> m \<noteq> count_sentinel"
  by (cases m) (simp_all add: declared_methods_def)

lemma sorted_declared_methods: "sorted declared_methods \<and> distinct declared_methods"
  by (simp add: declared_methods_def less_eq_http_method_def)

lemma bit_method_bit [simp]: "bit (method_bit m) n \<longleftrightarrow> n = method_index m"
  using method_index_less [of m] by (auto simp: method_bit_def bit_simps)

lemma bit_valid_method_mask [simp]: "bit valid_method_mask n \<longleftrightarrow> n < 9"
proof -
  have "valid_method_mask = mask 9"
    by (simp add: valid_method_mask_def mask_eq_exp_minus_1)
  then show ?thesis
    using bit_mask_iff [where 'a = "32 word", of 9 n] by auto
qed

lemma bit_word32_bound: "bit (w :: 32 word) n \<Longrightarrow> n < 32"
  by (drule bit_imp_le_length) simp

lemma ms_contains_bit: "ms_contains s m \<longleftrightarrow> bit (bits s) (method_index m)"
  by (simp add: ms_contains_def method_bit_def bit_iff_and_push_bit_not_eq_0)

lemmas ms_defs = ms_set_def ms_clear_def ms_set_all_def ms_clear_all_def ms_single_def ms_or_def
  ms_and_def ms_xor_def ms_not_def ms_none_def

lemma ms_contains_ops [simp]:
  "ms_contains (ms_set a s) m \<longleftrightarrow> m = a \<or> ms_contains s m"
  "ms_contains (ms_clear a s) m \<longleftrightarrow> m \<noteq> a \<and> ms_contains s m"
  "ms_contains (ms_set_all s) m \<longleftrightarrow> m \<noteq> count_sentinel"
  "\<not> ms_contains (ms_clear_all s) m"
  "ms_contains (ms_single a) m \<longleftrightarrow> m = a"
  "ms_contains (ms_or s t) m \<longleftrightarrow> ms_contains s m \<or> ms_contains t m"
  "ms_contains (ms_and s t) m \<longleftrightarrow> ms_contains s m \<and> ms_contains t m"
  "ms_contains (ms_xor s t) m \<longleftrightarrow> ms_contains s m \<noteq> ms_contains t m"
  "ms_contains (ms_not s) m \<longleftrightarrow> m \<noteq> count_sentinel \<and> \<not> ms_contains s m"
  "\<not> ms_contains ms_none m"
  using method_index_less [of m]
  by (auto simp: ms_contains_bit ms_defs bit_simps eq_commute [of "method_index m"])

lemma in_window_bit: "in_window s \<longleftrightarrow> (\<forall>n. bit (bits s) n \<longrightarrow> n < 9)"
  by (auto simp: in_window_def bit_eq_iff bit_simps dest: bit_word32_bound)

lemma ms_empty_methods: "ms_empty s \<longleftrightarrow> methods_of s = {}"
proof -
  have "ms_empty s \<longleftrightarrow> (\<forall>n < 9. \<not> bit (bits s) n)"
    by (auto simp: ms_empty_def bit_eq_iff bit_simps dest: bit_word32_bound)
  also have "\<dots> \<longleftrightarrow> (\<forall>m. m \<noteq> count_sentinel \<longrightarrow> \<not> ms_contains s m)"
    by (metis ex_method_index method_index_valid ms_contains_bit)
  finally show ?thesis by (auto simp: methods_of_def)
qed

lemma methods_of_inject:
  assumes "in_window s" "in_window t" "methods_of s = methods_of t"
  shows "s = t"
proof -
  have "bit (bits s) n \<longleftrightarrow> bit (bits t) n" for n
  proof (cases "n < 9")
    case True
    then obtain m where "m \<noteq> count_sentinel" "method_index m = n"
      using ex_method_index by blast
    with assms(3) show ?thesis
      by (auto simp: methods_of_def ms_contains_bit set_eq_iff)
  next
    case False
    with assms(1,2) show ?thesis by (auto simp: in_window_bit)
  qed
  then have "bits s = bits t" by (simp add: bit_eq_iff)
  then show ?thesis by simp
qed

lemma in_window_ops:
  "in_window ms_none" "in_window (ms_set_all s)" "in_window (ms_clear_all s)" "in_window (ms_not s)"
  "in_window s \<Longrightarrow> in_window (ms_clear a s)"
  "in_window s \<Longrightarrow> a \<noteq> count_sentinel \<Longrightarrow> in_window (ms_set a s)"
  "in_window s \<Longrightarrow> in_window t \<Longrightarrow> in_window (ms_or s t)"
  "in_window s \<Longrightarrow> in_window (ms_and s t)"
  "in_window s \<Longrightarrow> in_window t \<Longrightarrow> in_window (ms_xor s t)"
  by (auto simp: in_window_bit ms_defs bit_simps)

section \<open>The interface of a store of methods\<close>

text \<open>What the clients of a method set rely on: membership after insertion and removal.\<close>

locale method_store =
  fixes none :: 's
    and add :: "http_method \<Rightarrow> 's \<Rightarrow> 's"
    and remove :: "http_method \<Rightarrow> 's \<Rightarrow> 's"
    and has :: "'s \<Rightarrow> http_method \<Rightarrow> bool"
  assumes has_none: "\<not> has none m"
    and has_add: "has (add a s) m \<longleftrightarrow> m = a \<or> has s m"
    and has_remove: "has (remove a s) m \<longleftrightarrow> m \<noteq> a \<and> has s m"
begin

lemma has_fold_add: "has (fold add ms s) m \<longleftrightarrow> m \<in> set ms \<or> has s m"
  by (induction ms arbitrary: s) (auto simp: has_add)

lemma has_fold_remove: "has (fold remove ms s) m \<longleftrightarrow> m \<notin> set ms \<and> has s m"
  by (induction ms arbitrary: s) (auto simp: has_remove)

lemma has_of_list: "has (fold add ms none) m \<longleftrightarrow> m \<in> set ms"
  by (simp add: has_fold_add has_none)

end

interpretation bitset: method_store ms_none ms_set ms_clear ms_contains
  by unfold_locales auto

section \<open>The Allow header\<close>

lemma method_to_string_nonempty: "m \<noteq> count_sentinel \<Longrightarrow> method_to_string m \<noteq> []"
  by (cases m) (simp_all add: method_to_string_def method_names_def)

lemma method_to_string_inj:
  "a \<noteq> count_sentinel \<Longrightarrow> method_to_string a = method_to_string b \<Longrightarrow> a = b"
  by (cases a; cases b) (simp_all add: method_to_string_def method_names_def)

lemma format_allow_loop_join:
  assumes "count_sentinel \<notin> set ms" "h = join '', '' ts" "[] \<notin> set ts"
  shows "format_allow_loop s ms h = join '', '' (ts @ map method_to_string (filter (ms_contains s) ms))"
  using assms
proof (induction ms arbitrary: h ts)
  case (Cons m ms)
  have "join '', '' ts = [] \<longleftrightarrow> ts = []"
    using Cons.prems(3) by (rule join_eq_Nil)
  then have eq: "(if h \<noteq> [] then h @ '', '' else h) @ method_to_string m =
      join '', '' (ts @ [method_to_string m])"
    using Cons.prems(2) by (simp add: join_snoc)
  have step: "format_allow_loop s (m # ms) h =
      (if ms_contains s m then format_allow_loop s ms (join '', '' (ts @ [method_to_string m]))
       else format_allow_loop s ms h)"
    unfolding format_allow_loop.simps eq by simp
  have "[] \<notin> set (ts @ [method_to_string m])"
    using Cons.prems method_to_string_nonempty [of m] by auto
  with Cons.IH [of "join '', '' (ts @ [method_to_string m])" "ts @ [method_to_string m]"]
    Cons.IH [of h ts] Cons.prems
  show ?case
    unfolding step by simp
qed simp

lemma filter_contains_sorted:
  "filter (ms_contains s) declared_methods = sorted_list_of_set (methods_of s)"
proof -
  have "set (filter (ms_contains s) declared_methods) = methods_of s"
    by (auto simp: methods_of_def)
  moreover have "sorted (filter (ms_contains s) declared_methods)"
      "distinct (filter (ms_contains s) declared_methods)"
    using sorted_declared_methods by (simp_all add: sorted_wrt_filter)
  ultimately show ?thesis
    using sorted_list_of_set.idem_if_sorted_distinct by metis
qed

section \<open>Properties\<close>

text \<open>the 32-bit mask implements the set of methods: every operation and operator of
  \<^verbatim>\<open>method_set\<close> acts on the set of declared methods as insertion, removal, union, intersection,
  symmetric difference and complement do, and \<^verbatim>\<open>empty()\<close> says exactly that no declared method is
  in the set.\<close>

theorem method_set_refines_set:
  "methods_of (ms_set m s) = (if m = count_sentinel then methods_of s else insert m (methods_of s)) \<and>
   methods_of (ms_clear m s) = methods_of s - {m} \<and>
   methods_of (ms_set_all s) = - {count_sentinel} \<and>
   methods_of (ms_clear_all s) = {} \<and>
   methods_of (ms_or s t) = methods_of s \<union> methods_of t \<and>
   methods_of (ms_and s t) = methods_of s \<inter> methods_of t \<and>
   methods_of (ms_xor s t) = (methods_of s - methods_of t) \<union> (methods_of t - methods_of s) \<and>
   methods_of (ms_not s) = - {count_sentinel} - methods_of s \<and>
   (ms_empty s \<longleftrightarrow> methods_of s = {})"
  unfolding ms_empty_methods by (auto simp: methods_of_def)

text \<open>complement is an involution on the nine-bit window: for a set without stray bits,
  complementing twice gives the same 32 bits, and two such sets with the same methods are equal
  words.\<close>

theorem method_set_complement_involution:
  assumes "in_window s" "in_window t"
  shows "ms_not (ms_not s) = s \<and> (methods_of s = methods_of t \<longleftrightarrow> s = t)"
proof -
  have "methods_of (ms_not (ms_not s)) = methods_of s"
    by (auto simp: methods_of_def)
  then show ?thesis
    using methods_of_inject assms in_window_ops(4) by blast
qed

lemma method_set_complement_involution_witness:
  "ms_not (ms_not \<lparr>bits = 5\<rparr>) = \<lparr>bits = 5\<rparr> \<and>
   (methods_of \<lparr>bits = 5\<rparr> = methods_of \<lparr>bits = 3\<rparr> \<longleftrightarrow> \<lparr>bits = 5\<rparr> = (\<lparr>bits = 3\<rparr> :: method_set))"
proof (rule method_set_complement_involution)
  show "in_window \<lparr>bits = 5\<rparr>" by code_simp
  show "in_window \<lparr>bits = 3\<rparr>" by code_simp
qed

text \<open>the value of the \<^verbatim>\<open>Allow\<close> header is the list of the wire tokens of exactly the
  allowed methods, in enumeration order, separated by a comma and a space.\<close>

theorem format_allow_header_spec:
  "format_allow_header s = join '', '' (map method_to_string (sorted_list_of_set (methods_of s)))"
  using format_allow_loop_join [of declared_methods "[]" "[]" s]
  by (simp add: format_allow_header_def filter_contains_sorted)

end
