(* ===== verification/Route_Cache.thy ===== *)
theory Route_Cache
  imports Http_Method "HOL-Library.AList" "HOL-Library.Multiset"
begin

text \<open>
  \<^verbatim>\<open>src/src/httpserver/detail/route_cache.hpp\<close>: the bounded LRU cache in front of the parameter and
  regex tiers.  As in the code there are two structures: the list of nodes in order of use and the
  index from keys to nodes (iterators, here node numbers).  The container's hash buckets are a
  parameter of the bucket probe \<^verbatim>\<open>find_by_view\<close>.  The invariant ties the two structures together, and
  the cache refines a least-recently-used list; \<open>coherent_cache\<close> is the contract the route table
  relies on.
\<close>

unbundle bit_operations_syntax

section \<open>The cache\<close>

record cache_key =
  ck_method :: http_method
  ck_path :: string

definition kHashMix :: "64 word" where
  "kHashMix = 0x9e3779b97f4a7c15"

definition mix_hash :: "64 word \<Rightarrow> http_method \<Rightarrow> 64 word" where
  "mix_hash h1 m =
     (let h2 = word_of_nat (method_index m) in
      h1 XOR (h2 + kHashMix + push_bit 6 h1 + drop_bit 2 h1))"

definition cache_key_hash :: "(string \<Rightarrow> 64 word) \<Rightarrow> cache_key \<Rightarrow> 64 word" where
  "cache_key_hash std_hash k = mix_hash (std_hash (ck_path k)) (ck_method k)"

record 'v route_cache =
  max_entries :: nat
  nodes :: "(nat \<times> cache_key \<times> 'v) list"
  index :: "(cache_key \<times> nat) list"
  next_node :: nat

definition make_route_cache :: "nat \<Rightarrow> 'v route_cache result" where
  "make_route_cache m =
     (if m = 0 then Inl (invalid_argument ''route_cache max_entries must be > 0'')
      else Inr \<lparr>max_entries = m, nodes = [], index = [], next_node = 0\<rparr>)"

text \<open>\<^verbatim>\<open>list_.splice(list_.begin(), list_, it)\<close> moves one node to the front.\<close>

definition splice_front :: "nat \<Rightarrow> (nat \<times> 'a) list \<Rightarrow> (nat \<times> 'a) list" where
  "splice_front it ns = filter (\<lambda>n. fst n = it) ns @ filter (\<lambda>n. fst n \<noteq> it) ns"

text \<open>Promote the node of an index hit and copy its value out.\<close>

definition promote :: "nat \<Rightarrow> 'v route_cache \<Rightarrow> 'v option \<times> 'v route_cache" where
  "promote it c = (map_option snd (map_of (nodes c) it), c\<lparr>nodes := splice_front it (nodes c)\<rparr>)"

definition cache_find :: "cache_key \<Rightarrow> 'v route_cache \<Rightarrow> 'v option \<times> 'v route_cache" where
  "cache_find key c =
     (case map_of (index c) key of
        None \<Rightarrow> (None, c)
      | Some it \<Rightarrow> promote it c)"

definition find_by_view ::
    "(string \<Rightarrow> 64 word) \<Rightarrow> (cache_key \<Rightarrow> nat) \<Rightarrow> nat \<Rightarrow> http_method \<Rightarrow> string \<Rightarrow> 'v route_cache \<Rightarrow>
     'v option \<times> 'v route_cache" where
  "find_by_view std_hash container_bucket bucket_count m path c =
     (if bucket_count = 0 then (None, c)
      else
        (let bucket_hash = mix_hash (std_hash path) m;
             b = unat bucket_hash mod bucket_count;
             bucket = filter (\<lambda>kv. container_bucket (fst kv) = b) (index c)
         in case find (\<lambda>kv. ck_method (fst kv) = m \<and> ck_path (fst kv) = path) bucket of
              None \<Rightarrow> (None, c)
            | Some kv \<Rightarrow> promote (snd kv) c))"

definition cache_insert :: "cache_key \<Rightarrow> 'v \<Rightarrow> 'v route_cache \<Rightarrow> 'v route_cache" where
  "cache_insert key value c =
     (case map_of (index c) key of
        Some it \<Rightarrow>
          c\<lparr>nodes := splice_front it
               (map (\<lambda>(i, k, v). (i, k, if i = it then value else v)) (nodes c))\<rparr>
      | None \<Rightarrow>
          (let ns = (next_node c, key, value) # nodes c;
               ix = AList.update key (next_node c) (index c);
               c' = c\<lparr>nodes := ns, index := ix, next_node := next_node c + 1\<rparr>
           in if length ix > max_entries c
              then c'\<lparr>nodes := butlast ns, index := AList.delete (fst (snd (last ns))) ix\<rparr>
              else c'))"

definition cache_clear :: "'v route_cache \<Rightarrow> 'v route_cache" where
  "cache_clear c = c\<lparr>nodes := [], index := []\<rparr>"

definition cache_size :: "'v route_cache \<Rightarrow> nat" where
  "cache_size c = length (index c)"

section \<open>Invariant and reference\<close>

text \<open>Nodes and index describe each other; \<open>linked\<close> leaves out the bound on the size.\<close>

definition linked :: "(nat \<times> cache_key \<times> 'v) list \<Rightarrow> (cache_key \<times> nat) list \<Rightarrow> nat \<Rightarrow> bool" where
  "linked ns ix nxt \<longleftrightarrow>
     distinct (map fst ns) \<and> distinct (map (fst \<circ> snd) ns) \<and> distinct (map fst ix) \<and>
     set ix = (\<lambda>(i, k, v). (k, i)) ` set ns \<and> list_all (\<lambda>n. fst n < nxt) ns"

definition cache_inv :: "'v route_cache \<Rightarrow> bool" where
  "cache_inv c \<longleftrightarrow>
     0 < max_entries c \<and> length (nodes c) \<le> max_entries c \<and> linked (nodes c) (index c) (next_node c)"

definition contents :: "'v route_cache \<Rightarrow> cache_key \<Rightarrow> 'v option" where
  "contents c k = map_of (map snd (nodes c)) k"

text \<open>The least-recently-used list the cache stands for, most recent first.\<close>

definition lru_touch :: "cache_key \<Rightarrow> (cache_key \<times> 'v) list \<Rightarrow> (cache_key \<times> 'v) list" where
  "lru_touch k l = filter (\<lambda>kv. fst kv = k) l @ filter (\<lambda>kv. fst kv \<noteq> k) l"

definition lru_put :: "nat \<Rightarrow> cache_key \<Rightarrow> 'v \<Rightarrow> (cache_key \<times> 'v) list \<Rightarrow> (cache_key \<times> 'v) list" where
  "lru_put m k v l = take m ((k, v) # filter (\<lambda>kv. fst kv \<noteq> k) l)"

definition abs_cache :: "'v route_cache \<Rightarrow> (cache_key \<times> 'v) list" where
  "abs_cache c = map snd (nodes c)"

lemma index_nodes:
  assumes "cache_inv c"
  shows "map_of (index c) k = Some i \<longleftrightarrow> (\<exists>v. (i, k, v) \<in> set (nodes c))"
proof -
  have "map_of (index c) k = Some i \<longleftrightarrow> (k, i) \<in> set (index c)"
    using assms by (simp add: cache_inv_def linked_def)
  also have "\<dots> \<longleftrightarrow> (\<exists>v. (i, k, v) \<in> set (nodes c))"
    using assms by (force simp: cache_inv_def linked_def)
  finally show ?thesis .
qed

lemma index_None:
  assumes "cache_inv c"
  shows "map_of (index c) k = None \<longleftrightarrow> k \<notin> (fst \<circ> snd) ` set (nodes c)"
proof -
  have "fst ` set (index c) = (fst \<circ> snd) ` set (nodes c)"
    using assms by (simp add: cache_inv_def linked_def image_image case_prod_beta comp_def)
  then show ?thesis by (simp add: map_of_eq_None_iff)
qed

lemma contents_iff:
  assumes "cache_inv c"
  shows "contents c k = Some v \<longleftrightarrow> (\<exists>i. (i, k, v) \<in> set (nodes c))"
proof -
  have "distinct (map fst (map snd (nodes c)))"
    using assms by (simp add: cache_inv_def linked_def)
  then show ?thesis
    by (force simp: contents_def)
qed

lemma node_of_index:
  assumes "cache_inv c" "map_of (index c) k = Some i"
  shows "map_of (nodes c) i = Some (k, the (contents c k)) \<and> contents c k \<noteq> None"
proof -
  obtain v where v: "(i, k, v) \<in> set (nodes c)"
    using assms by (auto simp: index_nodes)
  then have "contents c k = Some v"
    using assms(1) by (auto simp: contents_iff)
  moreover have "map_of (nodes c) i = Some (k, v)"
    using v assms(1) by (simp add: cache_inv_def linked_def)
  ultimately show ?thesis by simp
qed

lemma node_key_unique:
  assumes "cache_inv c" "(i, k, v) \<in> set (nodes c)" "n \<in> set (nodes c)"
  shows "fst n = i \<longleftrightarrow> fst (snd n) = k"
proof -
  have "inj_on fst (set (nodes c))" "inj_on (fst \<circ> snd) (set (nodes c))"
    using assms(1) by (simp_all add: cache_inv_def linked_def distinct_map)
  with assms(2,3) show ?thesis
    by (metis comp_apply fst_conv inj_onD snd_conv)
qed

lemma abs_splice_front:
  assumes "cache_inv c" "map_of (index c) k = Some i"
  shows "map snd (splice_front i (nodes c)) = lru_touch k (abs_cache c)"
proof -
  obtain v where v: "(i, k, v) \<in> set (nodes c)"
    using assms by (auto simp: index_nodes)
  have "filter (\<lambda>n. fst n = i) (nodes c) = filter (\<lambda>n. fst (snd n) = k) (nodes c)"
      "filter (\<lambda>n. fst n \<noteq> i) (nodes c) = filter (\<lambda>n. fst (snd n) \<noteq> k) (nodes c)"
    using node_key_unique [OF assms(1) v] by (blast intro: filter_cong [OF refl])+
  then show ?thesis
    by (simp add: splice_front_def lru_touch_def abs_cache_def filter_map comp_def)
qed

lemma mset_splice_front: "mset (splice_front i ns) = mset ns"
  by (induction ns) (auto simp: splice_front_def)

lemma distinct_map_permute: "mset xs = mset ys \<Longrightarrow> distinct (map f xs) \<longleftrightarrow> distinct (map f ys)"
  by (metis mset_eq_imp_distinct_iff mset_map)

lemma linked_permute:
  assumes "linked ns ix nxt" "mset ns' = mset ns"
  shows "linked ns' ix nxt"
proof -
  have "set ns' = set ns"
    using assms(2) by (rule mset_eq_setD)
  with assms(1) distinct_map_permute [OF assms(2), of fst] distinct_map_permute [OF assms(2), of "fst \<circ> snd"]
  show ?thesis
    by (simp add: linked_def list_all_iff)
qed

lemma linked_replace_value:
  assumes "linked ns ix nxt"
  shows "linked (map (\<lambda>(i, k, v). (i, k, if i = it then w else v)) ns) ix nxt"
proof -
  let ?f = "\<lambda>(i, k, v). (i, k, if i = it then w else v)"
  have "map fst (map ?f ns) = map fst ns" "map (fst \<circ> snd) (map ?f ns) = map (fst \<circ> snd) ns"
      "list_all (\<lambda>n. fst n < nxt) (map ?f ns) = list_all (\<lambda>n. fst n < nxt) ns"
    by (auto simp: case_prod_beta list_all_iff)
  moreover have "(\<lambda>(i, k, v). (k, i)) ` set (map ?f ns) = (\<lambda>(i, k, v). (k, i)) ` set ns"
    by (force simp: image_iff)
  ultimately show ?thesis
    using assms unfolding linked_def by metis
qed

lemma update_fresh: "k \<notin> fst ` set al \<Longrightarrow> AList.update k v al = al @ [(k, v)]"
  by (induction al) auto

lemma linked_push:
  assumes "linked ns ix nxt" "map_of ix k = None"
  shows "linked ((nxt, k, v) # ns) (AList.update k nxt ix) (nxt + 1)"
proof -
  have k: "k \<notin> fst ` set ix"
    using assms(2) by (simp add: map_of_eq_None_iff)
  moreover have "fst ` set ix = (fst \<circ> snd) ` set ns"
    using assms(1) by (simp add: linked_def image_image case_prod_beta comp_def)
  moreover have "nxt \<notin> fst ` set ns"
    using assms(1) by (auto simp: linked_def list_all_iff)
  ultimately show ?thesis
    using assms(1) by (auto simp: linked_def update_fresh list_all_iff)
qed

lemma linked_pop:
  assumes "linked ns ix nxt" "ns \<noteq> []"
  shows "linked (butlast ns) (AList.delete (fst (snd (last ns))) ix) nxt"
proof -
  obtain ms i k v where ns: "ns = ms @ [(i, k, v)]"
    using assms(2) by (metis prod.exhaust rev_exhaust)
  have D: "distinct (map fst (AList.delete k ix))"
    using assms(1) by (simp add: linked_def distinct_delete)
  have "set (AList.delete k ix) = {x \<in> set ix. fst x \<noteq> k}"
    by (auto simp: AList.delete_eq)
  also have "\<dots> = (\<lambda>(i, k, v). (k, i)) ` set ms"
  proof -
    have nk: "\<forall>n \<in> set ms. fst (snd n) \<noteq> k"
      using assms(1) by (auto simp: linked_def ns)
    have "set ix = insert (k, i) ((\<lambda>n. (fst (snd n), fst n)) ` set ms)"
      using assms(1) by (simp add: linked_def ns case_prod_beta)
    with nk show ?thesis
      by (auto simp: case_prod_beta)
  qed
  finally show ?thesis
    using assms(1) D by (simp add: linked_def ns)
qed

lemma linked_length: "linked ns ix nxt \<Longrightarrow> length ix = length ns"
proof -
  assume L: "linked ns ix nxt"
  have "inj_on (\<lambda>(i, k, v). (k, i)) (set ns)"
    using L by (force simp: linked_def inj_on_def distinct_map)
  then have "card (set ix) = card (set ns)"
    using L by (simp add: linked_def card_image)
  moreover have "distinct ix" "distinct ns"
    using L by (auto simp: linked_def distinct_map)
  ultimately show ?thesis by (simp add: distinct_card)
qed

section \<open>Every operation keeps the invariant and refines the list\<close>

lemma cache_inv_promote:
  "cache_inv c \<Longrightarrow> promote it c = (r, c') \<Longrightarrow> cache_inv c'"
  using mset_splice_front [of it "nodes c"] mset_eq_length [OF mset_splice_front [of it "nodes c"]]
  by (auto simp: cache_inv_def promote_def intro: linked_permute)

lemma cache_inv_insert: "cache_inv c \<Longrightarrow> cache_inv (cache_insert k v c)"
proof -
  assume C: "cache_inv c"
  then have L: "linked (nodes c) (index c) (next_node c)"
    by (simp add: cache_inv_def)
  show ?thesis
  proof (cases "map_of (index c) k")
    case (Some it)
    let ?ns = "map (\<lambda>(i, k, w). (i, k, if i = it then v else w)) (nodes c)"
    have "linked (splice_front it ?ns) (index c) (next_node c)"
      by (intro linked_permute [OF linked_replace_value [OF L, of it v]] mset_splice_front)
    moreover have "length (splice_front it ?ns) = length (nodes c)"
      using mset_eq_length [OF mset_splice_front [of it ?ns]] by simp
    ultimately show ?thesis
      using C Some by (simp add: cache_inv_def cache_insert_def)
  next
    case None
    note P = linked_push [OF L None, of v]
    then have "length (AList.update k (next_node c) (index c)) = Suc (length (nodes c))"
      by (simp add: linked_length)
    with C None P linked_pop [OF P] show ?thesis
      by (auto simp: cache_inv_def cache_insert_def Let_def)
  qed
qed

lemma cache_inv_clear: "cache_inv c \<Longrightarrow> cache_inv (cache_clear c)"
  by (simp add: cache_inv_def cache_clear_def linked_def)

lemma lru_put_short:
  "length l < m \<Longrightarrow> lru_put m k v l = (k, v) # filter (\<lambda>kv. fst kv \<noteq> k) l"
proof -
  assume "length l < m"
  then have "length (filter (\<lambda>kv. fst kv \<noteq> k) l) < m"
    by (rule le_less_trans [OF length_filter_le])
  then show ?thesis by (cases m) (simp_all add: lru_put_def)
qed

lemma abs_insert_fresh:
  assumes "cache_inv c" "map_of (index c) k = None"
  shows "abs_cache (cache_insert k v c) = lru_put (max_entries c) k v (abs_cache c)"
proof -
  have keep: "filter (\<lambda>kv. fst kv \<noteq> k) (abs_cache c) = abs_cache c"
    using assms by (auto simp: index_None abs_cache_def filter_id_conv)
  have len: "length (AList.update k (next_node c) (index c)) = Suc (length (nodes c))"
    using assms linked_length [OF linked_push [of "nodes c" "index c" "next_node c" k v]]
    by (simp add: cache_inv_def)
  show ?thesis
  proof (cases "length (nodes c) < max_entries c")
    case True
    then have "abs_cache (cache_insert k v c) = (k, v) # abs_cache c"
      using assms(2) len by (simp add: cache_insert_def Let_def abs_cache_def)
    with True keep lru_put_short [of "abs_cache c" "max_entries c" k v] show ?thesis
      by (simp add: abs_cache_def)
  next
    case False
    then have m: "max_entries c = length (nodes c)" "nodes c \<noteq> []"
      using assms(1) by (auto simp: cache_inv_def)
    then have "abs_cache (cache_insert k v c) = butlast ((k, v) # abs_cache c)"
      using assms(2) len by (simp add: cache_insert_def Let_def abs_cache_def map_butlast)
    then show ?thesis
      using m keep unfolding lru_put_def by (simp add: butlast_conv_take abs_cache_def)
  qed
qed

lemma abs_insert_replace:
  assumes "cache_inv c" "map_of (index c) k = Some it"
  shows "abs_cache (cache_insert k v c) = lru_put (max_entries c) k v (abs_cache c)"
proof -
  obtain w where w: "(it, k, w) \<in> set (nodes c)"
    using assms by (auto simp: index_nodes)
  let ?f = "\<lambda>(i, k, u). (i, k, if i = it then v else u)"
  have U: "fst n = it \<longleftrightarrow> fst (snd n) = k" if "n \<in> set (nodes c)" for n
    using node_key_unique [OF assms(1) w that] .
  obtain xs ys where xy: "nodes c = xs @ (it, k, w) # ys"
    using split_list [OF w] by blast
  have D: "distinct (map fst (nodes c))" "length (nodes c) \<le> max_entries c"
    using assms(1) by (simp_all add: cache_inv_def linked_def)
  then have ni: "\<forall>n \<in> set xs \<union> set ys. fst n \<noteq> it"
    by (force simp: xy)
  then have nk: "\<forall>n \<in> set xs \<union> set ys. fst (snd n) \<noteq> k"
    using U by (auto simp: xy)
  have "map ?f xs = xs" "map ?f ys = ys"
    using ni by (force intro: map_idI)+
  moreover have "filter (\<lambda>n. fst n = it) xs = []" "filter (\<lambda>n. fst n = it) ys = []"
      "filter (\<lambda>n. fst n \<noteq> it) xs = xs" "filter (\<lambda>n. fst n \<noteq> it) ys = ys"
    using ni by (auto simp: filter_empty_conv filter_id_conv)
  ultimately have "abs_cache (cache_insert k v c) = (k, v) # map snd (xs @ ys)"
    using assms(2) by (simp add: cache_insert_def splice_front_def abs_cache_def xy)
  moreover have "filter (\<lambda>kv. fst kv \<noteq> k) (abs_cache c) = map snd (xs @ ys)"
    using nk by (auto simp: abs_cache_def xy filter_map filter_id_conv comp_def)
  ultimately show ?thesis
    using D(2) by (simp add: lru_put_def xy take_Cons')
qed

lemma abs_insert:
  "cache_inv c \<Longrightarrow> abs_cache (cache_insert k v c) = lru_put (max_entries c) k v (abs_cache c)"
  by (cases "map_of (index c) k") (auto intro: abs_insert_fresh abs_insert_replace)

lemma cache_find_spec:
  assumes "cache_inv c" "cache_find k c = (r, c')"
  shows "r = contents c k \<and> cache_inv c' \<and> max_entries c' = max_entries c \<and>
    abs_cache c' = (if contents c k = None then abs_cache c else lru_touch k (abs_cache c))"
proof (cases "map_of (index c) k")
  case None
  have "contents c k = None"
    using None contents_iff [OF assms(1)] index_nodes [OF assms(1)] by (metis option.exhaust option.discI)
  with None assms show ?thesis by (simp add: cache_find_def)
next
  case (Some it)
  have P: "promote it c = (r, c')"
    using Some assms(2) by (simp add: cache_find_def)
  have "cache_inv c'"
    using assms(1) P by (rule cache_inv_promote)
  moreover have "r = contents c k" "contents c k \<noteq> None" "max_entries c' = max_entries c"
    using node_of_index [OF assms(1) Some] P by (auto simp: promote_def)
  moreover have "abs_cache c' = lru_touch k (abs_cache c)"
    using abs_splice_front [OF assms(1) Some] P by (auto simp: promote_def abs_cache_def)
  ultimately show ?thesis by auto
qed

lemma contents_abs: "contents c k = map_of (abs_cache c) k"
  by (simp add: contents_def abs_cache_def)

lemma map_of_filter_key: "map_of (filter (\<lambda>kv. P (fst kv)) l) k = (if P k then map_of l k else None)"
  by (induction l) auto

lemma map_of_lru_touch: "map_of (lru_touch k l) = map_of l"
  by (auto simp: lru_touch_def fun_eq_iff map_add_def map_of_filter_key [of "\<lambda>x. x = k"]
      map_of_filter_key [of "\<lambda>x. x \<noteq> k"] split: option.splits)

lemma map_of_lru_put:
  "map_of (lru_put m k v l) k' = Some w \<Longrightarrow> distinct (map fst l) \<Longrightarrow>
   (if k' = k then w = v else map_of l k' = Some w)"
  "0 < m \<Longrightarrow> map_of (lru_put m k v l) k = Some v"
proof -
  assume A: "map_of (lru_put m k v l) k' = Some w" "distinct (map fst l)"
  have "(k', w) \<in> set ((k, v) # filter (\<lambda>kv. fst kv \<noteq> k) l)"
    using A(1) unfolding lru_put_def by (meson in_set_takeD map_of_SomeD)
  with A(2) show "if k' = k then w = v else map_of l k' = Some w"
    by auto
next
  assume "0 < m"
  then show "map_of (lru_put m k v l) k = Some v"
    by (cases m) (simp_all add: lru_put_def)
qed

lemma contents_find:
  "cache_inv c \<Longrightarrow> cache_find k c = (r, c') \<Longrightarrow> contents c' = contents c"
  using cache_find_spec [of c k r c'] by (auto simp: contents_abs fun_eq_iff map_of_lru_touch)

lemma contents_insert:
  assumes "cache_inv c"
  shows "contents (cache_insert k v c) k = Some v"
    and "contents (cache_insert k v c) k' = Some w \<Longrightarrow> k' \<noteq> k \<Longrightarrow> contents c k' = Some w"
proof -
  have D: "distinct (map fst (abs_cache c))" "0 < max_entries c"
    using assms by (simp_all add: cache_inv_def linked_def abs_cache_def)
  show "contents (cache_insert k v c) k = Some v"
    using D(2) by (simp add: contents_abs abs_insert [OF assms] map_of_lru_put(2))
  show "contents (cache_insert k v c) k' = Some w \<Longrightarrow> k' \<noteq> k \<Longrightarrow> contents c k' = Some w"
    using map_of_lru_put(1) [OF _ D(1)] by (auto simp: contents_abs abs_insert [OF assms])
qed

lemma contents_clear [simp]: "contents (cache_clear c) k = None"
  by (simp add: contents_def cache_clear_def)

lemma find_by_view_cases:
  assumes "cache_inv c"
  shows "find_by_view h bk n m path c = cache_find \<lparr>ck_method = m, ck_path = path\<rparr> c \<or>
    find_by_view h bk n m path c = (None, c)"
proof (cases "find (\<lambda>kv. ck_method (fst kv) = m \<and> ck_path (fst kv) = path)
    (filter (\<lambda>kv. bk (fst kv) = unat (mix_hash (h path) m) mod n) (index c))")
  case None
  then show ?thesis by (simp add: find_by_view_def)
next
  case (Some kv)
  then have kv: "kv \<in> set (index c)" "ck_method (fst kv) = m" "ck_path (fst kv) = path"
    by (auto simp: find_Some_iff dest: nth_mem)
  then have "fst kv = \<lparr>ck_method = m, ck_path = path\<rparr>"
    by simp
  then have "map_of (index c) \<lparr>ck_method = m, ck_path = path\<rparr> = Some (snd kv)"
    using kv(1) assms by (metis cache_inv_def linked_def map_of_is_SomeI prod.collapse)
  with Some show ?thesis
    by (simp add: find_by_view_def cache_find_def)
qed

lemma find_by_view_eq:
  assumes "cache_inv c" "0 < n" "\<forall>k. bk k = unat (cache_key_hash h k) mod n"
  shows "find_by_view h bk n m path c = cache_find \<lparr>ck_method = m, ck_path = path\<rparr> c"
proof (cases "map_of (index c) \<lparr>ck_method = m, ck_path = path\<rparr>")
  case None
  with find_by_view_cases [OF assms(1), of h bk n m path] show ?thesis
    by (auto simp: cache_find_def)
next
  case (Some it)
  let ?k = "\<lparr>ck_method = m, ck_path = path\<rparr>"
  let ?P = "\<lambda>kv :: cache_key \<times> nat. ck_method (fst kv) = m \<and> ck_path (fst kv) = path"
  let ?bucket = "filter (\<lambda>kv. bk (fst kv) = unat (mix_hash (h path) m) mod n) (index c)"
  have "(?k, it) \<in> set ?bucket"
    using map_of_SomeD [OF Some] assms(3) by (simp add: cache_key_hash_def)
  then have "find ?P ?bucket \<noteq> None"
    using find_None_iff [of ?P ?bucket] by fastforce
  then obtain kv where kv: "find ?P ?bucket = Some kv"
    by blast
  then have "kv \<in> set (index c)" "fst kv = ?k"
    by (auto simp: find_Some_iff dest: nth_mem)
  then have "snd kv = it"
    using Some assms(1) by (metis cache_inv_def linked_def map_of_is_SomeI option.inject prod.collapse)
  with kv Some assms(2) show ?thesis
    by (simp add: find_by_view_def cache_find_def)
qed

section \<open>The contract of a cache\<close>

text \<open>What the route table relies on: a lookup returns a stored value or misses and stores nothing, an
  insertion stores one value and possibly forgets others, clearing forgets all.\<close>

locale coherent_cache =
  fixes invar :: "'c \<Rightarrow> bool"
    and stored :: "'c \<Rightarrow> 'k \<Rightarrow> 'v option"
    and probe :: "'k \<Rightarrow> 'c \<Rightarrow> 'v option \<times> 'c"
    and store :: "'k \<Rightarrow> 'v \<Rightarrow> 'c \<Rightarrow> 'c"
    and wipe :: "'c \<Rightarrow> 'c"
  assumes probe_inv: "invar c \<Longrightarrow> invar (snd (probe k c))"
    and probe_hit: "invar c \<Longrightarrow> fst (probe k c) = Some v \<Longrightarrow> stored c k = Some v"
    and probe_stored: "invar c \<Longrightarrow> stored (snd (probe k c)) = stored c"
    and store_inv: "invar c \<Longrightarrow> invar (store k v c)"
    and store_stored: "invar c \<Longrightarrow> stored (store k v c) k' = Some w \<Longrightarrow> (if k' = k then w = v else stored c k' = Some w)"
    and wipe_inv: "invar c \<Longrightarrow> invar (wipe c)"
    and wipe_stored: "invar c \<Longrightarrow> stored (wipe c) k = None"
begin

lemma coherent_probe:
  "invar c \<Longrightarrow> (\<And>k v. stored c k = Some v \<Longrightarrow> P k v) \<Longrightarrow> stored (snd (probe k' c)) k = Some v \<Longrightarrow> P k v"
  by (simp add: probe_stored)

lemma coherent_hit:
  "invar c \<Longrightarrow> (\<And>k v. stored c k = Some v \<Longrightarrow> P k v) \<Longrightarrow> fst (probe k c) = Some v \<Longrightarrow> P k v"
  by (blast dest: probe_hit)

lemma coherent_store:
  "invar c \<Longrightarrow> (\<And>k v. stored c k = Some v \<Longrightarrow> P k v) \<Longrightarrow> P k' w \<Longrightarrow>
   stored (store k' w c) k = Some v \<Longrightarrow> P k v"
  by (drule (1) store_stored) (auto split: if_splits)

lemma coherent_wipe: "invar c \<Longrightarrow> stored (wipe c) k = Some v \<Longrightarrow> P k v"
  by (simp add: wipe_stored)

end

interpretation lru: coherent_cache cache_inv contents cache_find cache_insert cache_clear
proof
  fix c :: "'v route_cache" and k k' :: cache_key and v w :: 'v
  assume I: "cache_inv c"
  obtain r c' where F: "cache_find k c = (r, c')" by fastforce
  note S = cache_find_spec [OF I F]
  show "cache_inv (snd (cache_find k c))"
    using S F by simp
  show "fst (cache_find k c) = Some v \<Longrightarrow> contents c k = Some v"
    using S F by simp
  show "contents (snd (cache_find k c)) = contents c"
    using contents_find [OF I F] F by simp
  show "cache_inv (cache_insert k v c)"
    using I by (rule cache_inv_insert)
  show "contents (cache_insert k v c) k' = Some w \<Longrightarrow> if k' = k then w = v else contents c k' = Some w"
    using contents_insert [OF I, of k v] by auto
  show "cache_inv (cache_clear c)"
    using I by (rule cache_inv_clear)
  show "contents (cache_clear c) k = None"
    by simp
qed

text \<open>The bucket probe satisfies the same contract, whatever buckets the container uses.\<close>

abbreviation view_probe ::
    "(string \<Rightarrow> 64 word) \<Rightarrow> (cache_key \<Rightarrow> nat) \<Rightarrow> nat \<Rightarrow> cache_key \<Rightarrow> 'v route_cache \<Rightarrow>
     'v option \<times> 'v route_cache" where
  "view_probe h bk n k \<equiv> find_by_view h bk n (ck_method k) (ck_path k)"

interpretation lru_view: coherent_cache cache_inv contents "view_probe h bk n" cache_insert cache_clear
  for h bk n
proof
  fix c :: "'v route_cache" and k k' :: cache_key and v w :: 'v
  assume I: "cache_inv c"
  have P: "view_probe h bk n k c = cache_find k c \<or> view_probe h bk n k c = (None, c)"
    using find_by_view_cases [OF I, of h bk n "ck_method k" "ck_path k"] by (cases k) simp
  show "cache_inv (snd (view_probe h bk n k c))"
    using P I lru.probe_inv [OF I, of k] by auto
  show "fst (view_probe h bk n k c) = Some v \<Longrightarrow> contents c k = Some v"
    using P lru.probe_hit [OF I, of k v] by auto
  show "contents (snd (view_probe h bk n k c)) = contents c"
    using P lru.probe_stored [OF I, of k] by auto
  show "cache_inv (cache_insert k v c)"
    using I by (rule lru.store_inv)
  show "contents (cache_insert k v c) k' = Some w \<Longrightarrow> if k' = k then w = v else contents c k' = Some w"
    using I by (rule lru.store_stored)
  show "cache_inv (cache_clear c)"
    using I by (rule lru.wipe_inv)
  show "contents (cache_clear c) k = None"
    by simp
qed

section \<open>Properties\<close>

text \<open>C11: the cache is a bounded least-recently-used list.  From a state where the node list and
  the index describe each other, insertion keeps them so, never exceeds the maximum, moves or puts
  the key to the front and forgets only the least recently used entry when the bound is reached; a
  lookup returns the stored value and moves it to the front; the reported size is the number of
  nodes.\<close>

theorem route_cache_refines_lru:
  assumes "cache_inv c"
  shows "cache_inv (cache_insert k v c) \<and>
    abs_cache (cache_insert k v c) = lru_put (max_entries c) k v (abs_cache c) \<and>
    fst (cache_find k c) = map_of (abs_cache c) k \<and>
    abs_cache (snd (cache_find k c)) =
      (if map_of (abs_cache c) k = None then abs_cache c else lru_touch k (abs_cache c)) \<and>
    cache_inv (snd (cache_find k c)) \<and>
    cache_size c = length (abs_cache c) \<and> cache_size c \<le> max_entries c"
proof -
  obtain r c' where F: "cache_find k c = (r, c')" by fastforce
  have "cache_size c = length (abs_cache c)" "cache_size c \<le> max_entries c"
    using assms linked_length by (fastforce simp: cache_inv_def cache_size_def abs_cache_def)+
  with cache_find_spec [OF assms F] F cache_inv_insert [OF assms] abs_insert [OF assms] show ?thesis
    by (simp add: contents_abs)
qed

lemma route_cache_refines_lru_witness:
  "abs_cache (cache_insert \<lparr>ck_method = get, ck_path = ''/b''\<rparr> 2
     \<lparr>max_entries = 1, nodes = [(0, \<lparr>ck_method = get, ck_path = ''/a''\<rparr>, 1 :: nat)],
      index = [(\<lparr>ck_method = get, ck_path = ''/a''\<rparr>, 0)], next_node = 1\<rparr>) =
   lru_put 1 \<lparr>ck_method = get, ck_path = ''/b''\<rparr> 2 [(\<lparr>ck_method = get, ck_path = ''/a''\<rparr>, 1)]"
proof -
  have "cache_inv \<lparr>max_entries = 1, nodes = [(0, \<lparr>ck_method = get, ck_path = ''/a''\<rparr>, 1 :: nat)],
      index = [(\<lparr>ck_method = get, ck_path = ''/a''\<rparr>, 0)], next_node = 1\<rparr>"
    by (simp add: cache_inv_def linked_def)
  from route_cache_refines_lru [OF this, of "\<lparr>ck_method = get, ck_path = ''/b''\<rparr>" 2] show ?thesis
    by (simp add: abs_cache_def)
qed

text \<open>the allocation-free probe \<^verbatim>\<open>find_by_view\<close> behaves as the plain lookup when the container
  places a key in the bucket of its hash, as its comment assumes; on a container that places keys
  elsewhere it can only miss: a hit is still the stored value and nothing stored is lost.\<close>

theorem find_by_view_correct:
  assumes "cache_inv c"
  shows "(0 < n \<and> (\<forall>k. bk k = unat (cache_key_hash h k) mod n) \<longrightarrow>
      find_by_view h bk n m path c = cache_find \<lparr>ck_method = m, ck_path = path\<rparr> c) \<and>
    (fst (find_by_view h bk n m path c) = None \<or>
      fst (find_by_view h bk n m path c) = contents c \<lparr>ck_method = m, ck_path = path\<rparr>) \<and>
    contents (snd (find_by_view h bk n m path c)) = contents c \<and>
    cache_inv (snd (find_by_view h bk n m path c))"
proof -
  let ?k = "\<lparr>ck_method = m, ck_path = path\<rparr>"
  have "fst (find_by_view h bk n m path c) = None \<or> fst (find_by_view h bk n m path c) = contents c ?k"
    using lru_view.probe_hit [OF assms, of h bk n ?k] by (cases "fst (find_by_view h bk n m path c)") simp_all
  with find_by_view_eq [OF assms] lru_view.probe_stored [OF assms, of h bk n ?k]
    lru_view.probe_inv [OF assms, of h bk n ?k]
  show ?thesis by simp
qed

lemma find_by_view_correct_witness:
  "find_by_view (\<lambda>s. 0) (\<lambda>k. unat (cache_key_hash (\<lambda>s. 0) k) mod 7) 7 get ''/a''
     \<lparr>max_entries = 1, nodes = [(0, \<lparr>ck_method = get, ck_path = ''/a''\<rparr>, 1 :: nat)],
      index = [(\<lparr>ck_method = get, ck_path = ''/a''\<rparr>, 0)], next_node = 1\<rparr> =
   cache_find \<lparr>ck_method = get, ck_path = ''/a''\<rparr>
     \<lparr>max_entries = 1, nodes = [(0, \<lparr>ck_method = get, ck_path = ''/a''\<rparr>, 1 :: nat)],
      index = [(\<lparr>ck_method = get, ck_path = ''/a''\<rparr>, 0)], next_node = 1\<rparr>"
proof -
  let ?c = "\<lparr>max_entries = 1, nodes = [(0, \<lparr>ck_method = get, ck_path = ''/a''\<rparr>, 1 :: nat)],
      index = [(\<lparr>ck_method = get, ck_path = ''/a''\<rparr>, 0)], next_node = 1\<rparr>"
  have "cache_inv ?c"
    by (simp add: cache_inv_def linked_def)
  from find_by_view_correct [OF this, of 7 "\<lambda>k. unat (cache_key_hash (\<lambda>s. 0) k) mod 7" "\<lambda>s. 0" get "''/a''"]
  show ?thesis by simp
qed

end
