(* ===== verification/Route_Table.thy ===== *)
theory Route_Table
  imports Segment_Trie Route_Cache
begin

text \<open>
  \<^verbatim>\<open>src/src/detail/route_table.cpp\<close> with \<^verbatim>\<open>route_entry.hpp\<close> and \<^verbatim>\<open>route_table.hpp\<close>: the exact, parameter
  and regex tiers, the cached lookup, the collision and duplicate checks of a registration, and
  removal.  Handlers are numbers that stand for the shared pointers (their identity is compared).
  Registrations that throw return the table as the exception leaves it.

  The main results: with a coherent cache a lookup returns what the tiers hold, lookups and table
  changes followed by invalidation keep the cache coherent, a rejected registration changes no
  terminus, and a successful one is found.
\<close>

section \<open>Types\<close>

record route_entry =
  re_methods :: method_set
  re_handler :: "nat option"
  re_is_prefix :: bool

record 're regex_route =
  rr_url_complete :: string
  rr_compiled :: 're
  rr_entry :: route_entry

record cache_value =
  cv_entry :: route_entry
  cv_captures :: captures

record 're route_table =
  exact_routes :: "(string \<times> route_entry) list"
  param_routes :: "('re, route_entry) segment_trie_node"
  regex_routes :: "'re regex_route list"
  lru_cache :: "cache_value route_cache"

datatype tier_hit = Hit_none | Hit_cache | Hit_exact | Hit_radix | Hit_regex

record lookup_result =
  lr_found :: bool
  lr_tier :: tier_hit
  lr_entry :: route_entry
  lr_captures :: captures

definition blank_entry :: route_entry where
  "blank_entry = \<lparr>re_methods = ms_none, re_handler = None, re_is_prefix = False\<rparr>"

definition not_found_result :: lookup_result where
  "not_found_result = \<lparr>lr_found = False, lr_tier = Hit_none, lr_entry = blank_entry, lr_captures = []\<rparr>"

definition hit :: "tier_hit \<Rightarrow> route_entry \<Rightarrow> captures \<Rightarrow> lookup_result" where
  "hit t e caps = \<lparr>lr_found = True, lr_tier = t, lr_entry = e, lr_captures = caps\<rparr>"

text \<open>The hash function and the bucket layout of the cache's container.\<close>

record container =
  ct_hash :: "string \<Rightarrow> 64 word"
  ct_bucket :: "cache_key \<Rightarrow> nat"
  ct_count :: nat

definition route_cache_max_size :: nat where
  "route_cache_max_size = 256"

definition empty_route_table :: "'re route_table" where
  "empty_route_table =
     \<lparr>exact_routes = [], param_routes = empty_node, regex_routes = [],
      lru_cache = \<lparr>max_entries = route_cache_max_size, nodes = [], index = [], next_node = 0\<rparr>\<rparr>"

section \<open>Lookup\<close>

text \<open>The walk of the parameter and regex tiers under the table lock (step 3 of \<^verbatim>\<open>lookup_v2\<close>).\<close>

definition walk_tiers :: "'re regex_engine \<Rightarrow> string \<Rightarrow> 're route_table \<Rightarrow> lookup_result" where
  "walk_tiers eng path tbl =
     (case trie_find eng path (param_routes tbl) of
        Some rm \<Rightarrow> hit Hit_radix (match_entry rm) (match_captures rm)
      | None \<Rightarrow>
          (case find (\<lambda>rr. rx_match eng (rr_compiled rr) path) (regex_routes tbl) of
             Some rr \<Rightarrow> hit Hit_regex (rr_entry rr) []
           | None \<Rightarrow> not_found_result))"

definition install ::
    "cache_key \<Rightarrow> lookup_result \<Rightarrow> cache_value route_cache \<Rightarrow> cache_value route_cache" where
  "install key r c =
     (if lr_found r then cache_insert key \<lparr>cv_entry = lr_entry r, cv_captures = lr_captures r\<rparr> c else c)"

definition lookup_v2 ::
    "'re regex_engine \<Rightarrow> container \<Rightarrow> http_method \<Rightarrow> string \<Rightarrow> 're route_table \<Rightarrow>
     lookup_result \<times> 're route_table" where
  "lookup_v2 eng ct m path tbl =
     (let lookup_path = canonicalize_lookup_path path in
      case map_of (exact_routes tbl) lookup_path of
        Some e \<Rightarrow> (hit Hit_exact e [], tbl)
      | None \<Rightarrow>
          (case find_by_view (ct_hash ct) (ct_bucket ct) (ct_count ct) m lookup_path (lru_cache tbl) of
             (Some cv, c) \<Rightarrow> (hit Hit_cache (cv_entry cv) (cv_captures cv), tbl\<lparr>lru_cache := c\<rparr>)
           | (None, c) \<Rightarrow>
               (let r = walk_tiers eng lookup_path tbl in
                (r, tbl\<lparr>lru_cache := install \<lparr>ck_method = m, ck_path = lookup_path\<rparr> r c\<rparr>))))"

definition invalidate_route_cache :: "'re route_table \<Rightarrow> 're route_table" where
  "invalidate_route_cache tbl = tbl\<lparr>lru_cache := cache_clear (lru_cache tbl)\<rparr>"

section \<open>Registration probes\<close>

definition find_v2_entry_by_path :: "'re regex_engine \<Rightarrow> 're http_endpoint \<Rightarrow> 're route_table \<Rightarrow> route_entry option" where
  "find_v2_entry_by_path eng idx tbl =
     (let key = url_complete idx in
      if url_pars idx \<noteq> [] then
        (case trie_find eng key (param_routes tbl) of
           Some rm \<Rightarrow> if \<not> is_prefix_match rm then Some (match_entry rm) else None
         | None \<Rightarrow> None)
      else
        (case map_of (exact_routes tbl) key of
           Some e \<Rightarrow> Some e
         | None \<Rightarrow>
             if reg_compiled idx then
               map_option rr_entry (find (\<lambda>rr. rr_url_complete rr = key) (regex_routes tbl))
             else None))"

definition quoted :: "string \<Rightarrow> string" where
  "quoted s = [CHR 0x27] @ s @ [CHR 0x27]"

definition collision_error :: "string \<Rightarrow> bool \<Rightarrow> exn" where
  "collision_error key want_is_prefix =
     invalid_argument
       (''Path '' @ quoted key @ '' is already registered as a '' @
        (if want_is_prefix then ''exact'' else ''prefix'') @
        '' route; cannot also register it as a '' @
        (if want_is_prefix then ''prefix'' else ''exact'') @
        '' route (the (method, path) cache key cannot discriminate the two)'')"

definition reject_terminus_collision :: "string \<Rightarrow> bool \<Rightarrow> 're route_table \<Rightarrow> exn option" where
  "reject_terminus_collision key want_is_prefix tbl =
     (let collision =
        (if \<not> want_is_prefix then has_terminus_at key True (param_routes tbl)
         else map_of (exact_routes tbl) key \<noteq> None \<or> has_terminus_at key False (param_routes tbl))
      in if collision then Some (collision_error key want_is_prefix) else None)"

definition duplicate_error :: "string \<Rightarrow> exn" where
  "duplicate_error key = invalid_argument (''A resource is already registered at this path: '' @ quoted key)"

definition reject_duplicate_v2_entry ::
    "'re regex_engine \<Rightarrow> 're http_endpoint \<Rightarrow> bool \<Rightarrow> 're route_table \<Rightarrow> exn option" where
  "reject_duplicate_v2_entry eng idx family tbl =
     (let key = url_complete idx in
      if family then
        (if has_terminus_at key True (param_routes tbl) then Some (duplicate_error key) else None)
      else
        (case classify_route_tier eng idx of
           Inl e \<Rightarrow> Some e
         | Inr Tier_exact \<Rightarrow>
             if map_of (exact_routes tbl) key \<noteq> None then Some (duplicate_error key) else None
         | Inr Tier_radix \<Rightarrow>
             if has_terminus_at key False (param_routes tbl) then Some (duplicate_error key) else None
         | Inr (Tier_regex re) \<Rightarrow>
             if list_ex (\<lambda>rr. rr_url_complete rr = key) (regex_routes tbl)
             then Some (duplicate_error key) else None))"

section \<open>Table changes\<close>

text \<open>\<^verbatim>\<open>std::map::emplace\<close> keeps an existing value.\<close>

definition emplace :: "string \<Rightarrow> 'v \<Rightarrow> (string \<times> 'v) list \<Rightarrow> (string \<times> 'v) list" where
  "emplace k v al = (case map_of al k of Some w \<Rightarrow> al | None \<Rightarrow> AList.update k v al)"

definition insert_param_route ::
    "'re regex_engine \<Rightarrow> string \<Rightarrow> route_entry \<Rightarrow> bool \<Rightarrow> 're route_table \<Rightarrow> 're route_table \<times> exn option" where
  "insert_param_route eng key e is_prefix tbl =
     (case trie_insert eng key e is_prefix (param_routes tbl) of
        (t, ex) \<Rightarrow> (tbl\<lparr>param_routes := t\<rparr>, ex))"

definition upsert_v2_radix_route ::
    "'re regex_engine \<Rightarrow> string \<Rightarrow> method_set \<Rightarrow> nat \<Rightarrow> 're route_table \<Rightarrow> 're route_table \<times> exn option" where
  "upsert_v2_radix_route eng key ms shim tbl =
     (case reject_terminus_collision key False tbl of
        Some ex \<Rightarrow> (tbl, Some ex)
      | None \<Rightarrow>
          (let merged =
             (case trie_find eng key (param_routes tbl) of
                Some rm \<Rightarrow> if \<not> is_prefix_match rm then match_entry rm else blank_entry
              | None \<Rightarrow> blank_entry)
           in insert_param_route eng key
                (merged\<lparr>re_methods := ms_or (re_methods merged) ms, re_handler := Some shim,
                        re_is_prefix := False\<rparr>) False tbl))"

definition make_non_prefix_entry :: "method_set \<Rightarrow> nat \<Rightarrow> route_entry" where
  "make_non_prefix_entry ms shim = \<lparr>re_methods = ms, re_handler = Some shim, re_is_prefix = False\<rparr>"

definition insert_fresh_v2_entry ::
    "'re regex_engine \<Rightarrow> 're http_endpoint \<Rightarrow> method_set \<Rightarrow> nat \<Rightarrow> 're route_table \<Rightarrow>
     're route_table \<times> exn option" where
  "insert_fresh_v2_entry eng idx ms shim tbl =
     (case classify_route_tier eng idx of
        Inl e \<Rightarrow> (tbl, Some e)
      | Inr Tier_radix \<Rightarrow> (tbl, Some (undefined_behaviour ''unreachable: radix path''))
      | Inr Tier_exact \<Rightarrow>
          (case reject_terminus_collision (url_complete idx) False tbl of
             Some ex \<Rightarrow> (tbl, Some ex)
           | None \<Rightarrow>
               (tbl\<lparr>exact_routes :=
                  emplace (url_complete idx) (make_non_prefix_entry ms shim) (exact_routes tbl)\<rparr>, None))
      | Inr (Tier_regex re) \<Rightarrow>
          (tbl\<lparr>regex_routes := regex_routes tbl @
             [\<lparr>rr_url_complete = url_complete idx, rr_compiled = re,
               rr_entry = make_non_prefix_entry ms shim\<rparr>]\<rparr>, None))"

definition merge_into :: "method_set \<Rightarrow> nat \<Rightarrow> route_entry \<Rightarrow> route_entry" where
  "merge_into ms shim e =
     e\<lparr>re_methods := ms_or (re_methods e) ms, re_handler := Some shim, re_is_prefix := False\<rparr>"

text \<open>The scan of the regex tier changes the first route whose handler is the shim.\<close>

fun merge_regex_route :: "method_set \<Rightarrow> nat \<Rightarrow> 're regex_route list \<Rightarrow> 're regex_route list" where
  "merge_regex_route ms shim [] = []"
| "merge_regex_route ms shim (rr # rrs) =
     (if re_handler (rr_entry rr) = Some shim
      then rr\<lparr>rr_entry := merge_into ms shim (rr_entry rr)\<rparr> # rrs
      else rr # merge_regex_route ms shim rrs)"

definition update_existing_v2_entry :: "string \<Rightarrow> method_set \<Rightarrow> nat \<Rightarrow> 're route_table \<Rightarrow> 're route_table" where
  "update_existing_v2_entry key ms shim tbl =
     (case map_of (exact_routes tbl) key of
        Some e \<Rightarrow> tbl\<lparr>exact_routes := AList.update key (merge_into ms shim e) (exact_routes tbl)\<rparr>
      | None \<Rightarrow> tbl\<lparr>regex_routes := merge_regex_route ms shim (regex_routes tbl)\<rparr>)"

definition upsert_v2_table_entry_locked ::
    "'re regex_engine \<Rightarrow> 're http_endpoint \<Rightarrow> method_set \<Rightarrow> nat \<Rightarrow> bool \<Rightarrow> 're route_table \<Rightarrow>
     're route_table \<times> exn option" where
  "upsert_v2_table_entry_locked eng idx ms shim fresh tbl =
     (if url_pars idx \<noteq> [] then upsert_v2_radix_route eng (url_complete idx) ms shim tbl
      else if fresh then insert_fresh_v2_entry eng idx ms shim tbl
      else (update_existing_v2_entry (url_complete idx) ms shim tbl, None))"

definition register_v2_route ::
    "'re regex_engine \<Rightarrow> 're http_endpoint \<Rightarrow> nat \<Rightarrow> bool \<Rightarrow> 're route_table \<Rightarrow> 're route_table \<times> exn option" where
  "register_v2_route eng idx res family tbl =
     (case reject_terminus_collision (url_complete idx) family tbl of
        Some ex \<Rightarrow> (tbl, Some ex)
      | None \<Rightarrow>
          (case reject_duplicate_v2_entry eng idx family tbl of
             Some ex \<Rightarrow> (tbl, Some ex)
           | None \<Rightarrow>
               (let entry = \<lparr>re_methods = ms_set_all ms_none, re_handler = Some res, re_is_prefix = family\<rparr> in
                if family then insert_param_route eng (url_complete idx) entry True tbl
                else
                  (case classify_route_tier eng idx of
                     Inl e \<Rightarrow> (tbl, Some e)
                   | Inr Tier_radix \<Rightarrow> insert_param_route eng (url_complete idx) entry False tbl
                   | Inr (Tier_regex re) \<Rightarrow>
                       (tbl\<lparr>regex_routes := regex_routes tbl @
                          [\<lparr>rr_url_complete = url_complete idx, rr_compiled = re, rr_entry = entry\<rparr>]\<rparr>, None)
                   | Inr Tier_exact \<Rightarrow>
                       (tbl\<lparr>exact_routes := emplace (url_complete idx) entry (exact_routes tbl)\<rparr>, None)))))"

definition erase_exact_and_regex_locked :: "string \<Rightarrow> 're route_table \<Rightarrow> 're route_table" where
  "erase_exact_and_regex_locked key tbl =
     tbl\<lparr>exact_routes := AList.delete key (exact_routes tbl),
         regex_routes := filter (\<lambda>rr. rr_url_complete rr \<noteq> key) (regex_routes tbl)\<rparr>"

definition remove_param_prefix_locked :: "string \<Rightarrow> bool \<Rightarrow> 're route_table \<Rightarrow> 're route_table" where
  "remove_param_prefix_locked key is_prefix tbl =
     tbl\<lparr>param_routes := fst (trie_remove key is_prefix (param_routes tbl))\<rparr>"

section \<open>Invariant and coherence\<close>

definition table_inv :: "'re route_table \<Rightarrow> bool" where
  "table_inv tbl = (trie_inv (param_routes tbl) \<and> cache_inv (lru_cache tbl))"

text \<open>What a lookup tells the dispatcher, without the tier that answered.\<close>

definition answer :: "lookup_result \<Rightarrow> bool \<times> route_entry \<times> captures" where
  "answer r = (lr_found r, lr_entry r, lr_captures r)"

text \<open>The lookup without a cache.\<close>

definition lookup_uncached :: "'re regex_engine \<Rightarrow> string \<Rightarrow> 're route_table \<Rightarrow> lookup_result" where
  "lookup_uncached eng path tbl =
     (let p = canonicalize_lookup_path path in
      case map_of (exact_routes tbl) p of Some e \<Rightarrow> hit Hit_exact e [] | None \<Rightarrow> walk_tiers eng p tbl)"

text \<open>A cached value is justified by the tiers.\<close>

definition justified :: "'re regex_engine \<Rightarrow> 're route_table \<Rightarrow> cache_key \<Rightarrow> cache_value \<Rightarrow> bool" where
  "justified eng tbl k cv = (answer (walk_tiers eng (ck_path k) tbl) = (True, cv_entry cv, cv_captures cv))"

definition cache_coherent :: "'re regex_engine \<Rightarrow> 're route_table \<Rightarrow> bool" where
  "cache_coherent eng tbl \<longleftrightarrow> (\<forall>k cv. contents (lru_cache tbl) k = Some cv \<longrightarrow> justified eng tbl k cv)"

definition same_tiers :: "'re route_table \<Rightarrow> 're route_table \<Rightarrow> bool" where
  "same_tiers a b =
     (exact_routes a = exact_routes b \<and> param_routes a = param_routes b \<and> regex_routes a = regex_routes b)"

lemma walk_tiers_same: "same_tiers a b \<Longrightarrow> walk_tiers eng p a = walk_tiers eng p b"
  unfolding same_tiers_def walk_tiers_def by (elim conjE) (simp only:)

lemma justified_same: "same_tiers a b \<Longrightarrow> justified eng a k cv = justified eng b k cv"
  by (simp add: justified_def walk_tiers_same)

lemma same_tiers_cache [simp]: "same_tiers (tbl\<lparr>lru_cache := c\<rparr>) tbl"
  by (simp add: same_tiers_def)

lemma answer_hit [simp]: "answer (hit t e caps) = (True, e, caps)"
  by (simp add: answer_def hit_def)

lemma lr_found_hit [simp]: "lr_found (hit t e caps)"
  by (simp add: hit_def)

lemma cache_coherentD: "cache_coherent eng tbl \<Longrightarrow> contents (lru_cache tbl) k = Some cv \<Longrightarrow> justified eng tbl k cv"
  by (simp add: cache_coherent_def)

lemma table_inv_empty [inv_intros]: "table_inv empty_route_table"
  by (simp add: table_inv_def empty_route_table_def cache_inv_def linked_def route_cache_max_size_def)

lemma cache_coherent_invalidate [inv_intros]:
  "table_inv tbl \<Longrightarrow> cache_coherent eng (invalidate_route_cache tbl)"
  by (simp add: cache_coherent_def invalidate_route_cache_def)

lemma table_inv_invalidate [inv_intros]: "table_inv tbl \<Longrightarrow> table_inv (invalidate_route_cache tbl)"
  by (simp add: table_inv_def invalidate_route_cache_def cache_inv_clear)

text \<open>One lookup: the answer, and what it leaves behind.\<close>

lemma lookup_v2_spec:
  assumes "table_inv tbl" "cache_coherent eng tbl" "lookup_v2 eng ct m path tbl = (r, tbl')"
  shows "answer r = answer (lookup_uncached eng path tbl) \<and> same_tiers tbl' tbl \<and> table_inv tbl' \<and>
    cache_coherent eng tbl'"
proof -
  let ?p = "canonicalize_lookup_path path"
  let ?k = "\<lparr>ck_method = m, ck_path = ?p\<rparr>"
  have I: "cache_inv (lru_cache tbl)" and T: "trie_inv (param_routes tbl)"
    using assms(1) by (simp_all add: table_inv_def)
  show ?thesis
  proof (cases "map_of (exact_routes tbl) ?p")
    case (Some e)
    with assms show ?thesis
      by (auto simp: lookup_v2_def lookup_uncached_def same_tiers_def)
  next
    case ex: None
    obtain hit_cv c where F: "find_by_view (ct_hash ct) (ct_bucket ct) (ct_count ct) m ?p (lru_cache tbl) = (hit_cv, c)"
      by fastforce
    have c: "cache_inv c" "contents c = contents (lru_cache tbl)"
      using lru_view.probe_inv [OF I, of "ct_hash ct" "ct_bucket ct" "ct_count ct" ?k]
        lru_view.probe_stored [OF I, of "ct_hash ct" "ct_bucket ct" "ct_count ct" ?k] F by simp_all
    show ?thesis
    proof (cases hit_cv)
      case (Some cv)
      then have "contents (lru_cache tbl) ?k = Some cv"
        using lru_view.probe_hit [OF I, of "ct_hash ct" "ct_bucket ct" "ct_count ct" ?k cv] F by simp
      then have "justified eng tbl ?k cv"
        using assms(2) by (rule cache_coherentD [rotated])
      moreover have "r = hit Hit_cache (cv_entry cv) (cv_captures cv)" "tbl' = tbl\<lparr>lru_cache := c\<rparr>"
        using assms(3) ex F Some by (simp_all add: lookup_v2_def)
      ultimately show ?thesis
        using ex c T assms(2) justified_same [OF same_tiers_cache [of c tbl], of eng]
        by (simp add: lookup_uncached_def justified_def [of eng tbl ?k] table_inv_def cache_coherent_def Let_def)
    next
      case None
      let ?r = "walk_tiers eng ?p tbl"
      have r: "r = ?r" "tbl' = tbl\<lparr>lru_cache := install ?k ?r c\<rparr>"
        using assms(3) ex F None by (auto simp: lookup_v2_def Let_def)
      have old: "\<And>k cv. contents c k = Some cv \<Longrightarrow> justified eng tbl k cv"
        using assms(2) c(2) by (simp add: cache_coherent_def)
      have new: "contents (install ?k ?r c) k = Some cv \<Longrightarrow> justified eng tbl k cv" for k cv
      proof (cases "lr_found ?r")
        case True
        have "justified eng tbl ?k \<lparr>cv_entry = lr_entry ?r, cv_captures = lr_captures ?r\<rparr>"
          using True by (simp add: justified_def answer_def)
        then show "contents (install ?k ?r c) k = Some cv \<Longrightarrow> justified eng tbl k cv"
          using lru.coherent_store [OF c(1), of "justified eng tbl", OF old] True by (simp add: install_def)
      qed (simp add: install_def old)
      have "cache_inv (install ?k ?r c)"
        using c(1) by (simp add: install_def cache_inv_insert)
      moreover have "justified eng tbl' k cv = justified eng tbl k cv" for k cv
        by (simp add: r(2) justified_same)
      ultimately show ?thesis
        using r new ex T by (simp add: lookup_uncached_def table_inv_def cache_coherent_def Let_def)
    qed
  qed
qed

section \<open>Table changes keep the invariant\<close>

lemma trie_insert_inv: "trie_inv t \<Longrightarrow> trie_inv (fst (trie_insert eng p e b t))"
  by (rule trie.invar_add)

lemma insert_param_route_spec:
  assumes "table_inv tbl" "insert_param_route eng key e b tbl = (tbl', ex)"
  shows "table_inv tbl' \<and> exact_routes tbl' = exact_routes tbl \<and> regex_routes tbl' = regex_routes tbl \<and>
    lru_cache tbl' = lru_cache tbl \<and>
    terminus (param_routes tbl') k b' =
      (if ex = None \<and> k = key_of key \<and> b' = b then Some e else terminus (param_routes tbl) k b')"
proof -
  obtain t where t: "trie_insert eng key e b (param_routes tbl) = (t, ex)" "tbl' = tbl\<lparr>param_routes := t\<rparr>"
    using assms(2) by (auto simp: insert_param_route_def split: prod.splits)
  have I: "trie_inv (param_routes tbl)"
    using assms(1) by (simp add: table_inv_def)
  show ?thesis
    using trie.invar_add [OF I, of eng key e b] trie.look_add [OF I, of eng key e b k b'] t assms(1)
    by (simp add: table_inv_def)
qed

text \<open>A change that leaves every terminus, the other tiers and the cache as they are.\<close>

definition unchanged :: "'re route_table \<Rightarrow> 're route_table \<Rightarrow> bool" where
  "unchanged a b \<longleftrightarrow>
     exact_routes a = exact_routes b \<and> regex_routes a = regex_routes b \<and> lru_cache a = lru_cache b \<and>
     terminus (param_routes a) = terminus (param_routes b)"

lemma unchanged_refl [simp]: "unchanged a a"
  by (simp add: unchanged_def)

lemma insert_param_route_failed:
  "table_inv tbl \<Longrightarrow> insert_param_route eng key e b tbl = (tbl', Some ex) \<Longrightarrow> table_inv tbl' \<and> unchanged tbl' tbl"
  using insert_param_route_spec [of tbl eng key e b tbl' "Some ex"] by (auto simp: unchanged_def fun_eq_iff)

lemma table_inv_simps [simp]:
  "table_inv (tbl\<lparr>exact_routes := x\<rparr>) = table_inv tbl"
  "table_inv (tbl\<lparr>regex_routes := y\<rparr>) = table_inv tbl"
  by (simp_all add: table_inv_def)

lemma register_v2_route_inv:
  assumes "table_inv tbl" "register_v2_route eng idx res family tbl = (tbl', ex)"
  shows "table_inv tbl' \<and> (ex \<noteq> None \<longrightarrow> unchanged tbl' tbl)"
  using assms(2) insert_param_route_spec [OF assms(1)] insert_param_route_failed [OF assms(1)] assms(1)
  by (auto simp: register_v2_route_def Let_def split: option.splits if_splits sum.splits route_tier_result.splits)

lemma upsert_inv:
  assumes "table_inv tbl" "upsert_v2_table_entry_locked eng idx ms shim fresh tbl = (tbl', ex)"
  shows "table_inv tbl' \<and> (ex \<noteq> None \<longrightarrow> unchanged tbl' tbl)"
  using assms(2) insert_param_route_spec [OF assms(1)] insert_param_route_failed [OF assms(1)] assms(1)
  by (auto simp: upsert_v2_table_entry_locked_def upsert_v2_radix_route_def insert_fresh_v2_entry_def
      update_existing_v2_entry_def Let_def
      split: option.splits if_splits sum.splits route_tier_result.splits)

lemma remove_param_prefix_inv:
  assumes "table_inv tbl"
  shows "table_inv (remove_param_prefix_locked key b tbl) \<and>
    terminus (param_routes (remove_param_prefix_locked key b tbl)) k b' =
      (if k = key_of key \<and> b' = b then None else terminus (param_routes tbl) k b')"
proof -
  have I: "trie_inv (param_routes tbl)"
    using assms by (simp add: table_inv_def)
  show ?thesis
    using trie.invar_del [OF I, of key b] trie.look_del [OF I, of key b k b'] assms
    by (simp add: remove_param_prefix_locked_def table_inv_def)
qed

lemma erase_exact_and_regex_spec:
  "map_of (exact_routes (erase_exact_and_regex_locked key tbl)) k =
     (if k = key then None else map_of (exact_routes tbl) k)"
  "rr \<in> set (regex_routes (erase_exact_and_regex_locked key tbl)) \<longleftrightarrow>
     rr \<in> set (regex_routes tbl) \<and> rr_url_complete rr \<noteq> key"
  "param_routes (erase_exact_and_regex_locked key tbl) = param_routes tbl"
  "table_inv (erase_exact_and_regex_locked key tbl) = table_inv tbl"
  by (auto simp: erase_exact_and_regex_locked_def delete_conv' table_inv_def)

end
