(* ===== verification/Http_Resource.thy ===== *)
theory Http_Resource
  imports Http_Method
begin

text \<open>
  \<^verbatim>\<open>src/src/httpserver/http_resource.hpp\<close>, \<^verbatim>\<open>src/src/http_resource.cpp\<close> and
  \<^verbatim>\<open>src/src/httpserver/detail/lambda_resource.hpp\<close>: a resource with its mask of allowed methods, the
  cache of its \<^verbatim>\<open>Allow\<close> header, and the two kinds of behaviour, a class with overridden \<^verbatim>\<open>render_*\<close>
  members (user code, here a function) and the shim that holds one lambda per method.  The request
  and response types are parameters; a handler returns a response or throws.
\<close>

section \<open>Resources\<close>

type_synonym ('q, 'p) handler = "'q \<Rightarrow> 'p result"

datatype ('q, 'p) behaviour =
    Class_Behaviour "http_method \<Rightarrow> ('q, 'p) handler"
  | Lambda_Behaviour "http_method \<Rightarrow> ('q, 'p) handler option"

record ('q, 'p) http_resource =
  methods_allowed :: method_set
  hook_table :: "nat option"
  cached_allow_header :: string
  cached_allow_mask :: method_set
  cached_allow_valid :: bool
  behaviour :: "('q, 'p) behaviour"

definition make_http_resource :: "(http_method \<Rightarrow> ('q, 'p) handler) \<Rightarrow> ('q, 'p) http_resource" where
  "make_http_resource render =
     \<lparr>methods_allowed = ms_set_all ms_none, hook_table = None, cached_allow_header = [],
      cached_allow_mask = ms_none, cached_allow_valid = False, behaviour = Class_Behaviour render\<rparr>"

definition set_allowing ::
    "http_method \<Rightarrow> bool \<Rightarrow> ('q, 'p) http_resource \<Rightarrow> ('q, 'p) http_resource" where
  "set_allowing m allow r =
     (if m = count_sentinel then r
      else r\<lparr>methods_allowed := (if allow then ms_set m else ms_clear m) (methods_allowed r)\<rparr>)"

definition allow_all :: "('q, 'p) http_resource \<Rightarrow> ('q, 'p) http_resource" where
  "allow_all r = r\<lparr>methods_allowed := ms_set_all (methods_allowed r)\<rparr>"

definition disallow_all :: "('q, 'p) http_resource \<Rightarrow> ('q, 'p) http_resource" where
  "disallow_all r = r\<lparr>methods_allowed := ms_clear_all (methods_allowed r)\<rparr>"

definition is_allowed :: "('q, 'p) http_resource \<Rightarrow> http_method \<Rightarrow> bool" where
  "is_allowed r m = ms_contains (methods_allowed r) m"

definition get_allow_header :: "('q, 'p) http_resource \<Rightarrow> string \<times> ('q, 'p) http_resource" where
  "get_allow_header r =
     (if cached_allow_valid r \<and> cached_allow_mask r = methods_allowed r then (cached_allow_header r, r)
      else
        (let h = format_allow_header (methods_allowed r) in
         (h, r\<lparr>cached_allow_header := h, cached_allow_mask := methods_allowed r, cached_allow_valid := True\<rparr>)))"

definition copy_construct :: "('q, 'p) http_resource \<Rightarrow> ('q, 'p) http_resource" where
  "copy_construct b =
     \<lparr>methods_allowed = methods_allowed b, hook_table = hook_table b, cached_allow_header = [],
      cached_allow_mask = ms_none, cached_allow_valid = False, behaviour = behaviour b\<rparr>"

text \<open>The base-class part of an assignment between two distinct objects; the kind of the target,
  fixed by its class, stays.\<close>

definition copy_assign :: "('q, 'p) http_resource \<Rightarrow> ('q, 'p) http_resource \<Rightarrow> ('q, 'p) http_resource" where
  "copy_assign b r =
     r\<lparr>hook_table := hook_table b, methods_allowed := methods_allowed b, cached_allow_valid := False,
       cached_allow_header := []\<rparr>"

section \<open>The lambda shim\<close>

definition make_lambda_resource :: "('q, 'p) http_resource" where
  "make_lambda_resource =
     disallow_all
       \<lparr>methods_allowed = ms_set_all ms_none, hook_table = None, cached_allow_header = [],
        cached_allow_mask = ms_none, cached_allow_valid = False,
        behaviour = Lambda_Behaviour (\<lambda>m. None)\<rparr>"

definition is_lambda :: "('q, 'p) http_resource \<Rightarrow> bool" where
  "is_lambda r = (case behaviour r of Lambda_Behaviour s \<Rightarrow> True | Class_Behaviour f \<Rightarrow> False)"

definition set_slot ::
    "http_method \<Rightarrow> ('q, 'p) handler \<Rightarrow> ('q, 'p) http_resource \<Rightarrow> ('q, 'p) http_resource" where
  "set_slot m h r =
     set_allowing m True
       (case behaviour r of
          Lambda_Behaviour slots \<Rightarrow> r\<lparr>behaviour := Lambda_Behaviour (slots(m := Some h))\<rparr>
        | Class_Behaviour f \<Rightarrow> r)"

definition has_slot :: "('q, 'p) http_resource \<Rightarrow> http_method \<Rightarrow> bool" where
  "has_slot r m = is_allowed r m"

text \<open>The call of \<^verbatim>\<open>render_<method>\<close> on a resource.  The shim overrides seven of the nine members; the
  other two are the base class's \<^verbatim>\<open>render\<close>, which returns the default response.\<close>

definition lambda_overrides :: "http_method \<Rightarrow> bool" where
  "lambda_overrides m = (m \<in> {get, post, put, del, patch, options, head})"

definition invoke_slot ::
    "'p \<Rightarrow> (http_method \<Rightarrow> ('q, 'p) handler option) \<Rightarrow> http_method \<Rightarrow> ('q, 'p) handler" where
  "invoke_slot missing_slot slots m q =
     (case slots m of None \<Rightarrow> Inr missing_slot | Some h \<Rightarrow> h q)"

definition render_method ::
    "'p \<Rightarrow> 'p \<Rightarrow> http_method \<Rightarrow> ('q, 'p) http_resource \<Rightarrow> ('q, 'p) handler" where
  "render_method default_response missing_slot m r q =
     (case behaviour r of
        Class_Behaviour f \<Rightarrow> f m q
      | Lambda_Behaviour slots \<Rightarrow>
          if lambda_overrides m then invoke_slot missing_slot slots m q else Inr default_response)"

section \<open>Committing handlers to a shim\<close>

text \<open>\<^verbatim>\<open>for_each_requested_method\<close> visits the requested methods in enumeration order.\<close>

definition requested_methods :: "method_set \<Rightarrow> http_method list" where
  "requested_methods ms = filter (ms_contains ms) declared_methods"

definition commit_handlers_to_shim ::
    "method_set \<Rightarrow> ('q, 'p) handler \<Rightarrow> ('q, 'p) http_resource \<Rightarrow> ('q, 'p) http_resource" where
  "commit_handlers_to_shim ms h shim = fold (\<lambda>m. set_slot m h) (requested_methods ms) shim"

section \<open>Invariants\<close>

text \<open>The cached header, when valid, is the one of the mask it was built from.\<close>

definition allow_cache_inv :: "('q, 'p) http_resource \<Rightarrow> bool" where
  "allow_cache_inv r =
     (\<not> cached_allow_valid r \<or> cached_allow_header r = format_allow_header (cached_allow_mask r))"

text \<open>A shim allows exactly the methods that have a slot.\<close>

definition shim_inv :: "('q, 'p) http_resource \<Rightarrow> bool" where
  "shim_inv r =
     (case behaviour r of
        Class_Behaviour f \<Rightarrow> True
      | Lambda_Behaviour slots \<Rightarrow>
          (\<forall>m \<in> set declared_methods. ms_contains (methods_allowed r) m \<longleftrightarrow> slots m \<noteq> None))"

lemmas resource_defs = set_allowing_def allow_all_def disallow_all_def get_allow_header_def
  copy_construct_def copy_assign_def make_lambda_resource_def make_http_resource_def set_slot_def

lemma allow_cache_inv_ops [inv_intros]:
  "allow_cache_inv (make_http_resource f)"
  "allow_cache_inv make_lambda_resource"
  "allow_cache_inv r \<Longrightarrow> allow_cache_inv (set_allowing m b r)"
  "allow_cache_inv r \<Longrightarrow> allow_cache_inv (allow_all r)"
  "allow_cache_inv r \<Longrightarrow> allow_cache_inv (disallow_all r)"
  "allow_cache_inv r \<Longrightarrow> allow_cache_inv (snd (get_allow_header r))"
  "allow_cache_inv (copy_construct s)"
  "allow_cache_inv (copy_assign s r)"
  "allow_cache_inv r \<Longrightarrow> allow_cache_inv (set_slot m h r)"
  by (simp_all add: allow_cache_inv_def resource_defs Let_def split: behaviour.splits)

lemma get_allow_header_value:
  "allow_cache_inv r \<Longrightarrow> fst (get_allow_header r) = format_allow_header (methods_allowed r)"
  by (auto simp: allow_cache_inv_def get_allow_header_def Let_def)

lemma shim_inv_make [inv_intros]: "shim_inv make_lambda_resource"
  by (simp add: shim_inv_def make_lambda_resource_def disallow_all_def)

lemma set_slot_lambda:
  "behaviour r = Lambda_Behaviour slots \<Longrightarrow>
   behaviour (set_slot m h r) = Lambda_Behaviour (slots(m := Some h)) \<and>
   (m \<noteq> count_sentinel \<longrightarrow> methods_allowed (set_slot m h r) = ms_set m (methods_allowed r))"
  by (simp add: set_slot_def set_allowing_def)

lemma shim_inv_set_slot [inv_intros]:
  assumes "shim_inv r" "m \<noteq> count_sentinel"
  shows "shim_inv (set_slot m h r)"
proof (cases "behaviour r")
  case (Lambda_Behaviour slots)
  with set_slot_lambda [OF Lambda_Behaviour, of m h] assms show ?thesis
    by (auto simp: shim_inv_def)
next
  case (Class_Behaviour f)
  then show ?thesis
    by (simp add: shim_inv_def set_slot_def set_allowing_def)
qed

lemma requested_methods_valid: "m \<in> set (requested_methods ms) \<longleftrightarrow> m \<in> methods_of ms"
  by (auto simp: requested_methods_def methods_of_def)

lemma methods_of_fold: "methods_of (fold ms_set l s) = methods_of s \<union> (set l - {count_sentinel})"
  by (auto simp: methods_of_def bitset.has_fold_add)

lemma fold_set_slot:
  assumes "behaviour r = Lambda_Behaviour slots" "count_sentinel \<notin> set l"
  shows "behaviour (fold (\<lambda>m. set_slot m h) l r) = Lambda_Behaviour (\<lambda>m. if m \<in> set l then Some h else slots m) \<and>
    methods_allowed (fold (\<lambda>m. set_slot m h) l r) = fold ms_set l (methods_allowed r)"
  using assms
proof (induction l arbitrary: r slots)
  case (Cons m l)
  have b: "behaviour (set_slot m h r) = Lambda_Behaviour (slots(m := Some h))"
      "methods_allowed (set_slot m h r) = ms_set m (methods_allowed r)"
    using set_slot_lambda [OF Cons.prems(1), of m h] Cons.prems(2) by auto
  show ?case
    using Cons.IH [OF b(1)] Cons.prems(2) b(2) by (auto simp: fun_eq_iff)
qed simp

lemma shim_inv_fold: "shim_inv r \<Longrightarrow> count_sentinel \<notin> set l \<Longrightarrow> shim_inv (fold (\<lambda>m. set_slot m h) l r)"
proof (induction l arbitrary: r)
  case (Cons m l)
  then show ?case
    using shim_inv_set_slot [of r m h] by (simp only: fold_Cons comp_apply list.set insert_iff) blast
qed simp

lemma shim_inv_commit [inv_intros]:
  "shim_inv r \<Longrightarrow> shim_inv (commit_handlers_to_shim ms h r)"
  unfolding commit_handlers_to_shim_def by (rule shim_inv_fold) (simp_all add: requested_methods_def)

section \<open>Properties\<close>

text \<open>The operations on a resource that the library and its users perform.\<close>

datatype ('q, 'p) resource_op =
    Op_set_allowing http_method bool
  | Op_allow_all
  | Op_disallow_all
  | Op_get_allow_header
  | Op_assign_from "('q, 'p) http_resource"
  | Op_set_slot http_method "('q, 'p) handler"

fun apply_op :: "('q, 'p) resource_op \<Rightarrow> ('q, 'p) http_resource \<Rightarrow> ('q, 'p) http_resource" where
  "apply_op (Op_set_allowing m b) r = set_allowing m b r"
| "apply_op Op_allow_all r = allow_all r"
| "apply_op Op_disallow_all r = disallow_all r"
| "apply_op Op_get_allow_header r = snd (get_allow_header r)"
| "apply_op (Op_assign_from b) r = copy_assign b r"
| "apply_op (Op_set_slot m h) r = set_slot m h r"

text \<open>C21: the cached \<^verbatim>\<open>Allow\<close> header is never stale: after any sequence of mask changes,
  assignments, slot installations and reads, starting from a new resource, \<^verbatim>\<open>get_allow_header\<close>
  returns the tokens of exactly the methods the resource allows at that moment.\<close>

theorem allow_header_never_stale:
  "fst (get_allow_header (fold apply_op ops (make_http_resource f))) =
   join '', '' (map method_to_string
     (sorted_list_of_set (methods_of (methods_allowed (fold apply_op ops (make_http_resource f))))))"
proof -
  have "allow_cache_inv (apply_op op r)" if "allow_cache_inv r" for op and r :: "('a, 'b) http_resource"
    using that by (cases op) (simp_all add: inv_intros)
  then have "allow_cache_inv r \<Longrightarrow> allow_cache_inv (fold apply_op ops r)" for r :: "('a, 'b) http_resource"
    by (induction ops arbitrary: r) simp_all
  then have "allow_cache_inv (fold apply_op ops (make_http_resource f))"
    by (simp add: inv_intros)
  from get_allow_header_value [OF this]
    format_allow_loop_join [of declared_methods "[]" "[]"] show ?thesis
    by (simp add: format_allow_header_def filter_contains_sorted)
qed

text \<open>committing a handler to a shim gives exactly the requested methods that handler: they
  become allowed and run it when they are among the seven the shim overrides, every other method
  keeps its slot and its permission, and the agreement of permissions and slots is kept.\<close>

theorem commit_handlers_spec:
  assumes "shim_inv r" "behaviour r = Lambda_Behaviour slots"
  shows "shim_inv (commit_handlers_to_shim ms h r) \<and>
    methods_of (methods_allowed (commit_handlers_to_shim ms h r)) = methods_of (methods_allowed r) \<union> methods_of ms \<and>
    render_method d e m (commit_handlers_to_shim ms h r) q =
      (if lambda_overrides m \<and> m \<in> methods_of ms then h q else render_method d e m r q)"
proof -
  have ns: "count_sentinel \<notin> set (requested_methods ms)"
    by (simp add: requested_methods_def)
  note F = fold_set_slot [OF assms(2) ns, of h, folded commit_handlers_to_shim_def]
  have "methods_of (methods_allowed (commit_handlers_to_shim ms h r)) = methods_of (methods_allowed r) \<union> methods_of ms"
  proof -
    have "set (requested_methods ms) - {count_sentinel} = methods_of ms"
      by (auto simp: requested_methods_def methods_of_def)
    then show ?thesis
      by (simp add: F [THEN conjunct2] methods_of_fold)
  qed
  moreover have "render_method d e m (commit_handlers_to_shim ms h r) q =
      (if lambda_overrides m \<and> m \<in> methods_of ms then h q else render_method d e m r q)"
    by (simp add: render_method_def F [THEN conjunct1] assms(2) invoke_slot_def requested_methods_valid)
  ultimately show ?thesis
    using shim_inv_commit [OF assms(1)] by simp
qed

lemma commit_handlers_spec_witness:
  "shim_inv (commit_handlers_to_shim \<lparr>bits = 5\<rparr> (\<lambda>q :: nat. Inr (q + 1)) make_lambda_resource) \<and>
   render_method 0 (1 :: nat) post (commit_handlers_to_shim \<lparr>bits = 5\<rparr> (\<lambda>q :: nat. Inr (q + 1)) make_lambda_resource) 41 =
   Inr 42"
proof -
  have "behaviour (make_lambda_resource :: (nat, nat) http_resource) = Lambda_Behaviour (\<lambda>m. None)"
    by (simp add: make_lambda_resource_def disallow_all_def)
  from commit_handlers_spec [OF shim_inv_make this, of "\<lparr>bits = 5\<rparr>" "\<lambda>q. Inr (q + 1)" 0 1 post 41]
  show ?thesis
    by (simp add: lambda_overrides_def methods_of_def ms_contains_def method_bit_def)
qed

end
