(* ===== verification/Webserver_Routes.thy ===== *)
theory Webserver_Routes
  imports Route_Table Http_Resource
begin

text \<open>
  The registration interface of the web server: \<^verbatim>\<open>register_path\<close>, \<^verbatim>\<open>register_prefix\<close>, the \<^verbatim>\<open>unregister\<close>
  family and the \<^verbatim>\<open>on_*\<close> and \<^verbatim>\<open>route\<close> functions of \<^verbatim>\<open>src/src/webserver.cpp\<close>, with the shim policy of
  \<^verbatim>\<open>src/src/detail/webserver_impl.cpp\<close>.  Resources live in a store indexed by the numbers that stand for
  shared pointers; an exception is returned together with the state it leaves.
\<close>

section \<open>State\<close>

record ('re, 'q, 'p) server =
  srv_routes :: "'re route_table"
  srv_resources :: "(nat \<times> ('q, 'p) http_resource) list"
  srv_next :: nat
  single_resource :: bool
  regex_checking :: bool

definition make_server :: "bool \<Rightarrow> bool \<Rightarrow> ('re, 'q, 'p) server" where
  "make_server single regex =
     \<lparr>srv_routes = empty_route_table, srv_resources = [], srv_next = 0, single_resource = single,
      regex_checking = regex\<rparr>"

text \<open>\<^verbatim>\<open>std::make_shared\<close>: a new object under a new number.\<close>

definition allocate :: "('q, 'p) http_resource \<Rightarrow> ('re, 'q, 'p) server \<Rightarrow> nat \<times> ('re, 'q, 'p) server" where
  "allocate r srv =
     (srv_next srv, srv\<lparr>srv_resources := (srv_next srv, r) # srv_resources srv, srv_next := srv_next srv + 1\<rparr>)"

section \<open>register_path, register_prefix and the unregister family\<close>

definition validate_register_inputs :: "string \<Rightarrow> nat option \<Rightarrow> bool \<Rightarrow> ('re, 'q, 'p) server \<Rightarrow> exn option" where
  "validate_register_inputs resource res family srv =
     (if res = None then Some (invalid_argument ''The http_resource pointer cannot be null'')
      else if single_resource srv \<and> ((resource \<noteq> [] \<and> resource \<noteq> ''/'') \<or> \<not> family) then
        Some (invalid_argument
          (''The resource should be '' @ quoted [] @ '' or '' @ quoted ''/'' @
           '' and be registered via register_prefix when using a single_resource server''))
      else if find_char NUL resource \<noteq> None then
        Some (invalid_argument ''Route path must not contain embedded null bytes'')
      else None)"

definition register_impl ::
    "'re regex_engine \<Rightarrow> string \<Rightarrow> nat option \<Rightarrow> bool \<Rightarrow> ('re, 'q, 'p) server \<Rightarrow>
     ('re, 'q, 'p) server \<times> exn option" where
  "register_impl eng resource res family srv =
     (case validate_register_inputs resource res family srv of
        Some ex \<Rightarrow> (srv, Some ex)
      | None \<Rightarrow>
          (case make_http_endpoint eng resource family True (regex_checking srv) of
             Inl ex \<Rightarrow> (srv, Some ex)
           | Inr idx \<Rightarrow>
               (case register_v2_route eng idx (the res) family (srv_routes srv) of
                  (tbl, Some ex) \<Rightarrow> (srv\<lparr>srv_routes := tbl\<rparr>, Some ex)
                | (tbl, None) \<Rightarrow> (srv\<lparr>srv_routes := invalidate_route_cache tbl\<rparr>, None))))"

definition register_path ::
    "'re regex_engine \<Rightarrow> string \<Rightarrow> nat option \<Rightarrow> ('re, 'q, 'p) server \<Rightarrow> ('re, 'q, 'p) server \<times> exn option" where
  "register_path eng path res srv = register_impl eng path res False srv"

definition register_prefix ::
    "'re regex_engine \<Rightarrow> string \<Rightarrow> nat option \<Rightarrow> ('re, 'q, 'p) server \<Rightarrow> ('re, 'q, 'p) server \<times> exn option" where
  "register_prefix eng path res srv = register_impl eng path res True srv"

definition unregister_impl ::
    "'re regex_engine \<Rightarrow> string \<Rightarrow> bool \<Rightarrow> ('re, 'q, 'p) server \<Rightarrow> ('re, 'q, 'p) server \<times> exn option" where
  "unregister_impl eng resource family srv =
     (case make_http_endpoint eng resource family True (regex_checking srv) of
        Inl ex \<Rightarrow> (srv, Some ex)
      | Inr he \<Rightarrow>
          (let key = url_complete he;
               tbl = (if family then remove_param_prefix_locked key True (srv_routes srv)
                      else if url_pars he \<noteq> [] then remove_param_prefix_locked key False (srv_routes srv)
                      else erase_exact_and_regex_locked key (srv_routes srv))
           in (srv\<lparr>srv_routes := invalidate_route_cache tbl\<rparr>, None)))"

definition unregister_path ::
    "'re regex_engine \<Rightarrow> string \<Rightarrow> ('re, 'q, 'p) server \<Rightarrow> ('re, 'q, 'p) server \<times> exn option" where
  "unregister_path eng path srv = unregister_impl eng path False srv"

definition unregister_prefix ::
    "'re regex_engine \<Rightarrow> string \<Rightarrow> ('re, 'q, 'p) server \<Rightarrow> ('re, 'q, 'p) server \<times> exn option" where
  "unregister_prefix eng path srv = unregister_impl eng path True srv"

definition unregister_resource ::
    "'re regex_engine \<Rightarrow> string \<Rightarrow> ('re, 'q, 'p) server \<Rightarrow> ('re, 'q, 'p) server \<times> exn option" where
  "unregister_resource eng resource srv =
     (case make_http_endpoint eng resource False True (regex_checking srv) of
        Inl ex \<Rightarrow> (srv, Some ex)
      | Inr he \<Rightarrow>
          (let key = url_complete he;
               tbl1 = erase_exact_and_regex_locked key (srv_routes srv);
               tbl2 = remove_param_prefix_locked key False tbl1;
               tbl3 = remove_param_prefix_locked key True tbl2
           in (srv\<lparr>srv_routes := invalidate_route_cache tbl3\<rparr>, None)))"

section \<open>on_* and route\<close>

definition validate_on_methods_inputs ::
    "method_set \<Rightarrow> string \<Rightarrow> ('q, 'p) handler option \<Rightarrow> ('re, 'q, 'p) server \<Rightarrow> exn option" where
  "validate_on_methods_inputs ms path h srv =
     (if ms_empty ms then
        Some (invalid_argument ''route(method_set, ...) requires at least one method bit set'')
      else if Option.is_none h then
        Some (invalid_argument ''The handler function passed to on_*/route must be non-empty'')
      else if single_resource srv \<and> path \<noteq> [] \<and> path \<noteq> ''/'' then
        Some (invalid_argument
          (''When using a single_resource server, on_*/route requires the path to be '' @ quoted [] @
           '' or '' @ quoted ''/''))
      else if find_char NUL path \<noteq> None then
        Some (invalid_argument ''Route path must not contain embedded null bytes'')
      else if length path > 8192 then
        Some (invalid_argument ''Route path exceeds maximum length of 8192 bytes'')
      else None)"

text \<open>The shim to write to and whether it is new; the existing one is found by the path probe of the
  route table and must be a shim without a handler for any requested method.\<close>

definition prepare_or_create_lambda_shim ::
    "'re regex_engine \<Rightarrow> 're http_endpoint \<Rightarrow> method_set \<Rightarrow> ('re, 'q, 'p) server \<Rightarrow>
     (nat \<times> bool \<times> ('re, 'q, 'p) server) result" where
  "prepare_or_create_lambda_shim eng idx ms srv =
     (case find_v2_entry_by_path eng idx (srv_routes srv) of
        None \<Rightarrow> (case allocate make_lambda_resource srv of (rid, srv') \<Rightarrow> Inr (rid, True, srv'))
      | Some e \<Rightarrow>
          (case re_handler e of
             None \<Rightarrow> Inl (invalid_argument ''A non-lambda http_resource is already registered at this path; on_*/route cannot share a path with register_path/register_prefix'')
           | Some rid \<Rightarrow>
               (case map_of (srv_resources srv) rid of
                  Some r \<Rightarrow>
                    if \<not> is_lambda r then
                      Inl (invalid_argument ''A non-lambda http_resource is already registered at this path; on_*/route cannot share a path with register_path/register_prefix'')
                    else if list_ex (has_slot r) (requested_methods ms) then
                      Inl (invalid_argument ''A handler is already registered for one of the requested methods on this path'')
                    else Inr (rid, False, srv)
                | None \<Rightarrow> Inl (undefined_behaviour ''dangling handler''))))"

definition commit_to_store ::
    "nat \<Rightarrow> method_set \<Rightarrow> ('q, 'p) handler \<Rightarrow> ('re, 'q, 'p) server \<Rightarrow> ('re, 'q, 'p) server" where
  "commit_to_store rid ms h srv =
     (case map_of (srv_resources srv) rid of
        Some r \<Rightarrow> srv\<lparr>srv_resources := AList.update rid (commit_handlers_to_shim ms h r) (srv_resources srv)\<rparr>
      | None \<Rightarrow> srv)"

definition on_methods ::
    "'re regex_engine \<Rightarrow> method_set \<Rightarrow> string \<Rightarrow> ('q, 'p) handler option \<Rightarrow> ('re, 'q, 'p) server \<Rightarrow>
     ('re, 'q, 'p) server \<times> exn option" where
  "on_methods eng ms path h srv =
     (case validate_on_methods_inputs ms path h srv of
        Some ex \<Rightarrow> (srv, Some ex)
      | None \<Rightarrow>
          (case make_http_endpoint eng path False True (regex_checking srv) of
             Inl ex \<Rightarrow> (srv, Some ex)
           | Inr idx \<Rightarrow>
               (case prepare_or_create_lambda_shim eng idx ms srv of
                  Inl ex \<Rightarrow> (srv, Some ex)
                | Inr (shim, is_new_entry, srv1) \<Rightarrow>
                    (let srv2 = commit_to_store shim ms (the h) srv1 in
                     case upsert_v2_table_entry_locked eng idx ms shim is_new_entry (srv_routes srv2) of
                       (tbl, Some ex) \<Rightarrow> (srv2\<lparr>srv_routes := tbl\<rparr>, Some ex)
                     | (tbl, None) \<Rightarrow> (srv2\<lparr>srv_routes := invalidate_route_cache tbl\<rparr>, None)))))"

definition on_method ::
    "'re regex_engine \<Rightarrow> http_method \<Rightarrow> string \<Rightarrow> ('q, 'p) handler option \<Rightarrow> ('re, 'q, 'p) server \<Rightarrow>
     ('re, 'q, 'p) server \<times> exn option" where
  "on_method eng m path h srv = on_methods eng (ms_set m ms_none) path h srv"

definition route_method ::
    "'re regex_engine \<Rightarrow> http_method \<Rightarrow> string \<Rightarrow> ('q, 'p) handler option \<Rightarrow> ('re, 'q, 'p) server \<Rightarrow>
     ('re, 'q, 'p) server \<times> exn option" where
  "route_method eng m path h srv =
     (if m = count_sentinel then
        (srv, Some (invalid_argument ''http_method::count_ is a sentinel and may not be registered as a route''))
      else on_methods eng (ms_set m ms_none) path h srv)"

definition route_methods ::
    "'re regex_engine \<Rightarrow> method_set \<Rightarrow> string \<Rightarrow> ('q, 'p) handler option \<Rightarrow> ('re, 'q, 'p) server \<Rightarrow>
     ('re, 'q, 'p) server \<times> exn option" where
  "route_methods eng ms path h srv = on_methods eng ms path h srv"

text \<open>A request resolved to a resource of the store (\<^verbatim>\<open>lookup_v2\<close> as the dispatcher calls it).\<close>

definition resolve_request ::
    "'re regex_engine \<Rightarrow> container \<Rightarrow> http_method \<Rightarrow> string \<Rightarrow> ('re, 'q, 'p) server \<Rightarrow>
     (lookup_result \<times> ('q, 'p) http_resource option) \<times> ('re, 'q, 'p) server" where
  "resolve_request eng ct m path srv =
     (case lookup_v2 eng ct m path (srv_routes srv) of
        (r, tbl) \<Rightarrow>
          ((r, if lr_found r then Option.bind (re_handler (lr_entry r)) (map_of (srv_resources srv)) else None),
           srv\<lparr>srv_routes := tbl\<rparr>))"

section \<open>Constraints that compile\<close>

definition constraint_compiles :: "'re regex_engine \<Rightarrow> string \<Rightarrow> bool" where
  "constraint_compiles eng seg =
     (\<not> is_wildcard_segment seg \<or> snd (parse_wildcard seg) = [] \<or> rx_compile eng (snd (parse_wildcard seg)) \<noteq> None)"

definition constraints_ok :: "'re regex_engine \<Rightarrow> string \<Rightarrow> bool" where
  "constraints_ok eng path = list_all (constraint_compiles eng) (tokenize_url path)"

lemma find_or_create_wildcard_ok:
  "is_wildcard_segment seg \<Longrightarrow> constraint_compiles eng seg \<Longrightarrow> snd (find_or_create_wildcard eng seg n) = None"
  by (auto simp: find_or_create_wildcard_def create_wildcard_def constraint_compiles_def Let_def
      split: option.splits prod.splits)

lemma insert_segments_ok:
  "list_all (constraint_compiles eng) segs \<Longrightarrow> snd (insert_segments eng segs e b n) = None"
proof (induction segs arbitrary: n)
  case (Cons seg segs)
  then show ?case
    using find_or_create_wildcard_ok [of seg eng n]
    by (cases "find_or_create_wildcard eng seg n") (auto simp: case_prod_beta)
qed simp

lemma insert_param_route_ok:
  "constraints_ok eng key \<Longrightarrow> insert_param_route eng key e b tbl = (tbl', ex) \<Longrightarrow> ex = None"
  using insert_segments_ok [of eng "tokenize_url key" e b "param_routes tbl"]
  by (auto simp: insert_param_route_def trie_insert_def constraints_ok_def split: prod.splits)

lemma constraints_ok_complete:
  "make_http_endpoint eng url family True rc = Inr idx \<Longrightarrow> constraints_ok eng (url_complete idx) = constraints_ok eng url"
  using make_http_endpoint_ok [of eng url family rc idx] by (simp add: constraints_ok_def tokenize_canonicalize)

text \<open>When every constraint compiles, a registration that throws leaves the table as it was.\<close>

lemma register_v2_route_clean:
  assumes "constraints_ok eng (url_complete idx)" "register_v2_route eng idx res family tbl = (tbl', Some ex)"
  shows "tbl' = tbl"
  using assms(2)
  by (auto simp: register_v2_route_def Let_def dest: insert_param_route_ok [OF assms(1)]
      split: option.splits if_splits sum.splits route_tier_result.splits)

lemma upsert_clean:
  assumes "constraints_ok eng (url_complete idx)"
    "upsert_v2_table_entry_locked eng idx ms shim fresh tbl = (tbl', Some ex)"
  shows "tbl' = tbl"
  using assms(2)
  by (auto simp: upsert_v2_table_entry_locked_def upsert_v2_radix_route_def insert_fresh_v2_entry_def Let_def
      dest: insert_param_route_ok [OF assms(1)] split: option.splits if_splits sum.splits route_tier_result.splits)

section \<open>Histories of calls\<close>

text \<open>One call of the public interface, or one request's lookup.  The registration calls are those
  whose parameter constraints compile.\<close>

inductive server_step ::
    "'re regex_engine \<Rightarrow> container \<Rightarrow> ('re, 'q, 'p) server \<Rightarrow> ('re, 'q, 'p) server \<Rightarrow> bool"
  for eng :: "'re regex_engine" and ct :: container where
  step_register: "constraints_ok eng path \<Longrightarrow>
    server_step eng ct srv (fst (register_impl eng path res family srv))"
| step_unregister: "server_step eng ct srv (fst (unregister_impl eng path family srv))"
| step_unregister_resource: "server_step eng ct srv (fst (unregister_resource eng path srv))"
| step_on_methods: "constraints_ok eng path \<Longrightarrow>
    server_step eng ct srv (fst (on_methods eng ms path h srv))"
| step_create: "server_step eng ct srv (snd (allocate (make_http_resource f) srv))"
| step_lookup: "server_step eng ct srv (snd (resolve_request eng ct m path srv))"

inductive_cases server_stepE: "server_step eng ct srv srv'"

definition routes_ok :: "'re regex_engine \<Rightarrow> ('re, 'q, 'p) server \<Rightarrow> bool" where
  "routes_ok eng srv = (table_inv (srv_routes srv) \<and> cache_coherent eng (srv_routes srv))"

lemma routes_ok_invalidate:
  "table_inv tbl \<Longrightarrow> routes_ok eng (srv\<lparr>srv_routes := invalidate_route_cache tbl\<rparr>)"
  by (simp add: routes_ok_def inv_intros)

lemma routes_ok_same: "srv_routes srv' = srv_routes srv \<Longrightarrow> routes_ok eng srv \<Longrightarrow> routes_ok eng srv'"
  by (simp add: routes_ok_def)

lemma routes_ok_register:
  assumes "constraints_ok eng path" "routes_ok eng srv"
  shows "routes_ok eng (fst (register_impl eng path res family srv))"
proof (cases "validate_register_inputs path res family srv")
  case None
  show ?thesis
  proof (cases "make_http_endpoint eng path family True (regex_checking srv)")
    case (Inr idx)
    obtain tbl ex where R: "register_v2_route eng idx (the res) family (srv_routes srv) = (tbl, ex)"
      by fastforce
    have T: "table_inv tbl"
      using register_v2_route_inv [OF _ R] assms(2) by (simp add: routes_ok_def)
    show ?thesis
    proof (cases ex)
      case (Some e)
      then have "tbl = srv_routes srv"
        using register_v2_route_clean [OF _ R [unfolded Some]] constraints_ok_complete [OF Inr] assms(1) by simp
      then show ?thesis
        using None Inr R Some assms(2) by (simp add: register_impl_def)
    qed (use None Inr R T in \<open>simp add: register_impl_def routes_ok_invalidate\<close>)
  qed (use None assms(2) in \<open>simp add: register_impl_def\<close>)
qed (use assms(2) in \<open>simp add: register_impl_def\<close>)

lemma routes_ok_unregister:
  "routes_ok eng srv \<Longrightarrow> routes_ok eng (fst (unregister_impl eng path family srv))"
  using remove_param_prefix_inv [of "srv_routes srv"]
  by (auto simp: unregister_impl_def routes_ok_def Let_def erase_exact_and_regex_spec
      intro: inv_intros split: sum.splits)

lemma routes_ok_unregister_resource:
  "routes_ok eng srv \<Longrightarrow> routes_ok eng (fst (unregister_resource eng path srv))"
  by (auto simp: unregister_resource_def routes_ok_def Let_def erase_exact_and_regex_spec
      remove_param_prefix_inv intro: inv_intros split: sum.splits)

lemma prepare_routes:
  "prepare_or_create_lambda_shim eng idx ms srv = Inr (rid, fresh, srv') \<Longrightarrow> srv_routes srv' = srv_routes srv"
  by (auto simp: prepare_or_create_lambda_shim_def allocate_def split: option.splits if_splits)

lemma commit_routes [simp]: "srv_routes (commit_to_store rid ms h srv) = srv_routes srv"
  by (simp add: commit_to_store_def split: option.splits)

lemma routes_ok_on_methods:
  assumes "constraints_ok eng path" "routes_ok eng srv"
  shows "routes_ok eng (fst (on_methods eng ms path h srv))"
proof (cases "validate_on_methods_inputs ms path h srv")
  case None
  show ?thesis
  proof (cases "make_http_endpoint eng path False True (regex_checking srv)")
    case idx: (Inr idx)
    show ?thesis
    proof (cases "prepare_or_create_lambda_shim eng idx ms srv")
      case (Inr p)
      then obtain rid fresh srv1 where p: "prepare_or_create_lambda_shim eng idx ms srv = Inr (rid, fresh, srv1)"
        by (cases p) auto
      have eq: "srv_routes srv1 = srv_routes srv"
        using p by (rule prepare_routes)
      obtain tbl ex where U: "upsert_v2_table_entry_locked eng idx ms rid fresh (srv_routes srv) = (tbl, ex)"
        by fastforce
      have T: "table_inv tbl"
        using upsert_inv [OF _ U] assms(2) by (simp add: routes_ok_def)
      show ?thesis
      proof (cases ex)
        case (Some e)
        then have "tbl = srv_routes srv"
          using upsert_clean [OF _ U [unfolded Some]] constraints_ok_complete [OF idx] assms(1) by simp
        then show ?thesis
          using None idx p U eq Some assms(2) by (simp add: on_methods_def routes_ok_def)
      qed (use None idx p U eq T in \<open>simp add: on_methods_def routes_ok_invalidate\<close>)
    qed (use None idx assms(2) in \<open>simp add: on_methods_def\<close>)
  qed (use None assms(2) in \<open>simp add: on_methods_def\<close>)
qed (use assms(2) in \<open>simp add: on_methods_def\<close>)

lemma routes_ok_lookup: "routes_ok eng srv \<Longrightarrow> routes_ok eng (snd (resolve_request eng ct m path srv))"
  using lookup_v2_spec [of "srv_routes srv" eng ct m path]
  by (auto simp: routes_ok_def resolve_request_def split: prod.splits)

lemma routes_ok_step: "server_step eng ct srv srv' \<Longrightarrow> routes_ok eng srv \<Longrightarrow> routes_ok eng srv'"
  by (induction rule: server_step.induct)
    (simp_all add: routes_ok_register routes_ok_unregister routes_ok_unregister_resource routes_ok_on_methods
      routes_ok_lookup, simp add: routes_ok_def allocate_def)

lemma routes_ok_make: "routes_ok eng (make_server single regex)"
  using table_inv_empty
  by (simp add: routes_ok_def make_server_def cache_coherent_def contents_def empty_route_table_def)

lemma routes_ok_reachable: "(server_step eng ct)\<^sup>*\<^sup>* srv srv' \<Longrightarrow> routes_ok eng srv \<Longrightarrow> routes_ok eng srv'"
  by (induction rule: rtranclp_induct) (auto intro: routes_ok_step)

section \<open>Serving what was registered\<close>

text \<open>The resource a request path leads to, without the cache.\<close>

definition served_by ::
    "'re regex_engine \<Rightarrow> string \<Rightarrow> ('re, 'q, 'p) server \<Rightarrow> ('q, 'p) http_resource option" where
  "served_by eng path srv =
     (let r = lookup_uncached eng path (srv_routes srv) in
      if lr_found r then Option.bind (re_handler (lr_entry r)) (map_of (srv_resources srv)) else None)"

definition literal_path :: "string \<Rightarrow> bool" where
  "literal_path path = list_all (\<lambda>s. \<not> is_parameter s) (tokenize_url path)"

lemma literal_endpoint:
  assumes "make_http_endpoint eng path family True False = Inr idx" "literal_path path"
  shows "url_pars idx = [] \<and> url_complete idx = canonicalize_lookup_path path \<and> \<not> reg_compiled idx \<and>
    classify_route_tier eng idx = Inr Tier_exact"
proof -
  have "filter is_parameter (tokenize_url path) = []"
    using assms(2) by (simp add: literal_path_def list_all_iff filter_empty_conv)
  with make_http_endpoint_ok [OF assms(1)] show ?thesis
    by (simp add: classify_route_tier_def)
qed

lemma map_of_emplace:
  "map_of al k = None \<Longrightarrow> map_of (emplace k v al) k' = (if k' = k then Some v else map_of al k')"
  by (simp add: emplace_def update_conv')

lemma walk_tiers_invalidate [simp]: "walk_tiers eng p (invalidate_route_cache tbl) = walk_tiers eng p tbl"
  by (rule walk_tiers_same) (simp add: invalidate_route_cache_def)

lemma walk_tiers_exact [simp]: "walk_tiers eng p (tbl\<lparr>exact_routes := x\<rparr>) = walk_tiers eng p tbl"
  by (simp add: walk_tiers_def cong: option.case_cong)

lemma invalidate_tiers [simp]:
  "exact_routes (invalidate_route_cache tbl) = exact_routes tbl"
  "param_routes (invalidate_route_cache tbl) = param_routes tbl"
  "regex_routes (invalidate_route_cache tbl) = regex_routes tbl"
  by (simp_all add: invalidate_route_cache_def)

lemma register_literal:
  assumes "register_impl eng path (Some rid) False srv = (srv', None)" "\<not> regex_checking srv" "literal_path path"
  shows "\<exists>tbl. srv_routes srv' = invalidate_route_cache tbl \<and>
    map_of (exact_routes (srv_routes srv)) (canonicalize_lookup_path path) = None \<and>
    tbl = (srv_routes srv)\<lparr>exact_routes := emplace (canonicalize_lookup_path path)
      \<lparr>re_methods = ms_set_all ms_none, re_handler = Some rid, re_is_prefix = False\<rparr> (exact_routes (srv_routes srv))\<rparr>"
proof -
  obtain idx where idx: "make_http_endpoint eng path False True False = Inr idx"
    using assms(1,2) by (auto simp: register_impl_def split: option.splits sum.splits)
  note L = literal_endpoint [OF idx assms(3)]
  obtain tbl where "register_v2_route eng idx rid False (srv_routes srv) = (tbl, None)"
      "srv_routes srv' = invalidate_route_cache tbl"
    using assms(1,2) idx by (auto simp: register_impl_def split: option.splits prod.splits)
  with L show ?thesis
    by (auto simp: register_v2_route_def reject_duplicate_v2_entry_def Let_def split: option.splits if_splits)
qed

lemma lookup_exact_hit:
  "map_of (exact_routes tbl) (canonicalize_lookup_path path) = Some e \<Longrightarrow>
   lookup_v2 eng ct m path tbl = (hit Hit_exact e [], tbl)"
  by (simp add: lookup_v2_def)

lemma lookup_v2_found:
  "lr_found (walk_tiers eng (canonicalize_lookup_path path) tbl) \<Longrightarrow> lr_found (fst (lookup_v2 eng ct m path tbl))"
  by (auto simp: lookup_v2_def Let_def split: option.splits prod.splits)

text \<open>The store gives every number at most one object, all below the next number.\<close>

definition store_ok :: "('re, 'q, 'p) server \<Rightarrow> bool" where
  "store_ok srv = (\<forall>rid \<in> set (map fst (srv_resources srv)). rid < srv_next srv)"

lemma commit_to_store_get:
  "map_of (srv_resources srv) rid = Some r \<Longrightarrow>
   map_of (srv_resources (commit_to_store rid ms h srv)) rid' =
     (if rid' = rid then Some (commit_handlers_to_shim ms h r) else map_of (srv_resources srv) rid')"
  by (simp add: commit_to_store_def update_conv')

lemma upsert_literal:
  assumes "url_pars idx = []" "classify_route_tier eng idx = Inr Tier_exact"
    "fresh \<longleftrightarrow> map_of (exact_routes tbl) (url_complete idx) = None"
    "upsert_v2_table_entry_locked eng idx ms shim fresh tbl = (tbl', None)"
  shows "\<exists>e. map_of (exact_routes tbl') (url_complete idx) = Some e \<and> re_handler e = Some shim \<and>
    param_routes tbl' = param_routes tbl \<and> regex_routes tbl' = regex_routes tbl \<and>
    (\<forall>k. k \<noteq> url_complete idx \<longrightarrow> map_of (exact_routes tbl') k = map_of (exact_routes tbl) k)"
proof (cases "map_of (exact_routes tbl) (url_complete idx)")
  case None
  with assms show ?thesis
    by (auto simp: upsert_v2_table_entry_locked_def insert_fresh_v2_entry_def map_of_emplace
        make_non_prefix_entry_def split: option.splits)
next
  case (Some e)
  with assms show ?thesis
    by (auto simp: upsert_v2_table_entry_locked_def update_existing_v2_entry_def update_conv' merge_into_def)
qed

lemma prepare_literal:
  assumes "url_pars idx = []" "\<not> reg_compiled idx" "store_ok srv"
    "prepare_or_create_lambda_shim eng idx ms srv = Inr (rid, fresh, srv1)"
  shows "(fresh \<longleftrightarrow> map_of (exact_routes (srv_routes srv)) (url_complete idx) = None) \<and>
    (\<exists>r. map_of (srv_resources srv1) rid = Some r \<and> is_lambda r) \<and>
    (\<forall>i < srv_next srv. map_of (srv_resources srv1) i = map_of (srv_resources srv) i)"
proof (cases "map_of (exact_routes (srv_routes srv)) (url_complete idx)")
  case None
  with assms show ?thesis
    by (auto simp: prepare_or_create_lambda_shim_def find_v2_entry_by_path_def allocate_def is_lambda_def
        make_lambda_resource_def disallow_all_def)
next
  case (Some e)
  with assms show ?thesis
    by (auto simp: prepare_or_create_lambda_shim_def find_v2_entry_by_path_def split: option.splits if_splits)
qed

section \<open>Properties\<close>







text \<open>a resource registered as a prefix without parameters answers for the prefix and for
  every canonical path below it: such a lookup never fails.\<close>

theorem registered_prefix_is_found:
  assumes "register_prefix eng path (Some rid) srv = (srv', None)"
    "list_all path_segment (tokenize_url path @ below)" "list_all (\<lambda>s. \<not> is_wildcard_segment s) (tokenize_url path)"
  shows "lr_found (fst (lookup_v2 eng ct m (render (tokenize_url path @ below)) (srv_routes srv')))"
proof -
  obtain idx where idx: "make_http_endpoint eng path True True (regex_checking srv) = Inr idx"
    using assms(1) by (auto simp: register_prefix_def register_impl_def split: option.splits sum.splits)
  have key: "tokenize_url (url_complete idx) = tokenize_url path"
    using make_http_endpoint_ok [OF idx] by (simp add: tokenize_canonicalize)
  obtain tbl where R: "register_v2_route eng idx rid True (srv_routes srv) = (tbl, None)"
      "srv_routes srv' = invalidate_route_cache tbl"
    using assms(1) idx by (auto simp: register_prefix_def register_impl_def split: option.splits prod.splits)
  obtain e t where t: "trie_insert eng (url_complete idx) e True (param_routes (srv_routes srv)) = (t, None)"
      "param_routes tbl = t"
    using R(1) by (auto simp: register_v2_route_def insert_param_route_def Let_def
        split: option.splits if_splits prod.splits)
  have "trie_find eng (render (tokenize_url path @ below)) t \<noteq> None"
    using trie_find_literal_prefix [OF _ _ t(1) key, of below] assms(2,3) by (auto simp: list_all_iff)
  moreover have "canonicalize_lookup_path (render (tokenize_url path @ below)) = render (tokenize_url path @ below)"
    using assms(2) by (intro canonicalize_render) (simp add: list_all_iff)
  ultimately show ?thesis
    using t(2) R(2) by (intro lookup_v2_found) (auto simp: walk_tiers_def)
qed

lemma registered_prefix_is_found_witness:
  "lr_found (fst (lookup_v2 \<lparr>rx_compile = Some, rx_match = (=)\<rparr>
     \<lparr>ct_hash = (\<lambda>s. 0), ct_bucket = (\<lambda>k. 0), ct_count = 1\<rparr> put (render (tokenize_url ''/static'' @ [''css'', ''a'']))
     (srv_routes (fst (register_prefix \<lparr>rx_compile = Some, rx_match = (=)\<rparr> ''/static'' (Some 3)
       (make_server False False :: (string, nat, nat) server))))))"
proof (rule registered_prefix_is_found)
  let ?r = "register_prefix \<lparr>rx_compile = Some, rx_match = (=)\<rparr> ''/static'' (Some 3)
       (make_server False False :: (string, nat, nat) server)"
  have "snd ?r = None"
    by code_simp
  then show "?r = (fst ?r, None)"
    by (metis prod.collapse)
  show "list_all path_segment (tokenize_url ''/static'' @ [''css'', ''a''])"
    by code_simp
  show "list_all (\<lambda>s. \<not> is_wildcard_segment s) (tokenize_url ''/static'')"
    by code_simp
qed



text \<open>C19: after \<^verbatim>\<open>unregister_resource\<close> nothing is registered under the key any more, as an
  exact, regex, parameterised or prefix route, and every other registration is untouched.\<close>

theorem unregister_resource_clears:
  assumes "table_inv (srv_routes srv)" "unregister_resource eng path srv = (srv', None)"
  shows "map_of (exact_routes (srv_routes srv')) k =
      (if k = canonicalize_lookup_path path then None else map_of (exact_routes (srv_routes srv)) k) \<and>
    regex_routes (srv_routes srv') =
      filter (\<lambda>rr. rr_url_complete rr \<noteq> canonicalize_lookup_path path) (regex_routes (srv_routes srv)) \<and>
    terminus (param_routes (srv_routes srv')) pk b =
      (if pk = key_of path then None else terminus (param_routes (srv_routes srv)) pk b)"
proof -
  obtain he where he: "make_http_endpoint eng path False True (regex_checking srv) = Inr he"
    using assms(2) by (auto simp: unregister_resource_def split: sum.splits)
  have key: "url_complete he = canonicalize_lookup_path path"
    using make_http_endpoint_ok [OF he] by simp
  then have pk: "key_of (url_complete he) = key_of path"
    by (simp add: key_of_def tokenize_canonicalize)
  let ?t1 = "erase_exact_and_regex_locked (url_complete he) (srv_routes srv)"
  have I: "table_inv ?t1" "table_inv (remove_param_prefix_locked (url_complete he) False ?t1)"
    using assms(1) remove_param_prefix_inv by (simp_all add: erase_exact_and_regex_spec remove_param_prefix_inv)
  have srv': "srv_routes srv' = invalidate_route_cache
      (remove_param_prefix_locked (url_complete he) True (remove_param_prefix_locked (url_complete he) False ?t1))"
    using assms(2) he by (auto simp: unregister_resource_def Let_def)
  have "terminus (param_routes (srv_routes srv')) pk b =
      (if pk = key_of path then None else terminus (param_routes (srv_routes srv)) pk b)"
    using remove_param_prefix_inv [OF I(1), of "url_complete he" False pk b]
      remove_param_prefix_inv [OF I(2), of "url_complete he" True pk b]
    by (cases b) (simp_all add: srv' pk erase_exact_and_regex_spec)
  then show ?thesis
    by (simp add: srv' key remove_param_prefix_locked_def erase_exact_and_regex_locked_def delete_conv')
qed

lemma unregister_resource_clears_witness:
  "map_of (exact_routes (srv_routes (fst (unregister_resource \<lparr>rx_compile = Some, rx_match = (=)\<rparr> ''/a''
     (fst (register_path \<lparr>rx_compile = Some, rx_match = (=)\<rparr> ''/a'' (Some 3)
       (make_server False False :: (string, nat, nat) server))))))) ''/a'' = None"
proof -
  let ?eng = "\<lparr>rx_compile = Some, rx_match = (=)\<rparr> :: string regex_engine"
  let ?s = "fst (register_path ?eng ''/a'' (Some 3) (make_server False False :: (string, nat, nat) server))"
  let ?r = "unregister_resource ?eng ''/a'' ?s"
  have "constraints_ok ?eng ''/a''"
    by code_simp
  moreover have "routes_ok ?eng (make_server False False :: (string, nat, nat) server)"
    by (rule routes_ok_make)
  ultimately have "routes_ok ?eng ?s"
    unfolding register_path_def by (rule routes_ok_register)
  then have "table_inv (srv_routes ?s)"
    by (simp add: routes_ok_def)
  moreover have "snd ?r = None" "canonicalize_lookup_path ''/a'' = ''/a''"
    by code_simp+
  ultimately show ?thesis
    using unregister_resource_clears [of ?s ?eng "''/a''" "fst ?r" "''/a''" "[]" False]
    by (metis prod.collapse)
qed

section \<open>Where the registration code departs from its intent\<close>



text \<open>a rejected registration can disable a constraint.  When the constraint of a parameter
  does not compile the wildcard node stays in the tree without one, and a later registration of the
  same path with a good constraint reuses the node: \<^verbatim>\<open>/u/{id|[0-9]+}\<close> then answers \<^verbatim>\<open>/u/abc\<close>, which it
  rejects on a fresh server.\<close>

theorem failed_constraint_disables_later_one:
  "let eng = \<lparr>rx_compile = (\<lambda>p. if p = ''['' then None else Some p),
              rx_match = (\<lambda>re s. list_all is_digit s)\<rparr>;
       r1 = register_path eng ''/u/{id|[}'' (Some 1) (make_server False False);
       r2 = register_path eng ''/u/{id|[0-9]+}'' (Some 2) (fst r1);
       fresh = register_path eng ''/u/{id|[0-9]+}'' (Some 2) (make_server False False)
   in snd r1 = Some (invalid_argument ''Not a valid regex in URL: ['') \<and> snd r2 = None \<and> snd fresh = None \<and>
     lr_found (lookup_uncached eng ''/u/abc'' (srv_routes (fst r2))) \<and>
     \<not> lr_found (lookup_uncached eng ''/u/abc'' (srv_routes (fst fresh)))"
  by code_simp

end
