(* ===== verification/Ip_Representation.thy ===== *)
theory Ip_Representation
  imports String_Utilities "HOL-Library.Word"
begin

text \<open>
  IP addresses with wildcard octets (\<^verbatim>\<open>ip_representation.hpp\<close>, \<^verbatim>\<open>detail/ip_representation.cpp\<close>): sixteen
  octets and a mask of the significant ones, the parsers of the textual forms, the conversion from
  a socket address and the comparison that orders the access lists.  Every store into the octet
  array is checked, so that the lemma that no text makes the parser write outside it is a statement
  about results.
\<close>

unbundle bit_operations_syntax

section \<open>Data\<close>

datatype ip_version_T = IPV4 | IPV6

record ip_representation =
  ip_version :: ip_version_T
  ip_octets :: "8 word list"
  ip_mask :: "16 word"

definition blank_ip :: "ip_version_T \<Rightarrow> ip_representation" where
  "blank_ip v = \<lparr>ip_version = v, ip_octets = replicate 16 0, ip_mask = 0xFFFF\<rparr>"

definition check_bit :: "16 word \<Rightarrow> nat \<Rightarrow> bool" where
  "check_bit var pos = (var AND push_bit pos 1 \<noteq> 0)"

definition clear_bit :: "nat \<Rightarrow> ip_representation \<Rightarrow> ip_representation" where
  "clear_bit pos ip = ip\<lparr>ip_mask := ip_mask ip AND NOT (push_bit pos 1)\<rparr>"

definition ip_weight :: "ip_representation \<Rightarrow> nat" where
  "ip_weight ip = length (filter (check_bit (ip_mask ip)) [0..<16])"

text \<open>A store into the array, with the bounds of the array.\<close>

definition set_octet :: "nat \<Rightarrow> 8 word \<Rightarrow> ip_representation \<Rightarrow> ip_representation result" where
  "set_octet i v ip =
     (if i < 16 then Inr (ip\<lparr>ip_octets := (ip_octets ip)[i := v]\<rparr>)
      else Inl (undefined_behaviour ''octet index''))"

section \<open>strtol\<close>

definition is_space :: "char \<Rightarrow> bool" where
  "is_space c = (c = CHR '' '' \<or> (9 \<le> (of_char c :: nat) \<and> (of_char c :: nat) \<le> 13))"

definition digit_in :: "nat \<Rightarrow> char \<Rightarrow> bool" where
  "digit_in base c = (is_digit c \<or> (base = 16 \<and> is_valid_hex [c]))"

fun scan_digits :: "nat \<Rightarrow> nat \<Rightarrow> string \<Rightarrow> nat \<times> string" where
  "scan_digits base acc [] = (acc, [])"
| "scan_digits base acc (c # cs) =
     (if digit_in base c then scan_digits base (acc * base + hex_char_to_val c) cs else (acc, c # cs))"

definition skip_prefix :: "nat \<Rightarrow> string \<Rightarrow> string" where
  "skip_prefix base s =
     (if base = 16 \<and> 2 < length s \<and> s ! 0 = CHR ''0'' \<and> (s ! 1 = CHR ''x'' \<or> s ! 1 = CHR ''X'') \<and> digit_in 16 (s ! 2)
      then drop 2 s else s)"

text \<open>\<open>strtol base s\<close> is the value and what the end pointer refers to, up to the terminator.\<close>

definition strtol :: "nat \<Rightarrow> string \<Rightarrow> int \<times> string" where
  "strtol base s =
     (let c_str = takeWhile (\<lambda>c. c \<noteq> NUL) s;
          t = dropWhile is_space c_str;
          neg = (t \<noteq> [] \<and> hd t = CHR ''-'');
          u = skip_prefix base (if t \<noteq> [] \<and> (hd t = CHR ''-'' \<or> hd t = CHR ''+'') then tl t else t)
      in if u = [] \<or> \<not> digit_in base (hd u) then (0, c_str)
         else case scan_digits base 0 u of
           (v, rest) \<Rightarrow> (max (- (2 ^ 63)) (min (2 ^ 63 - 1) (if neg then - int v else int v)), rest))"

section \<open>Parsing\<close>

definition bad_ip :: "string \<Rightarrow> 'a result" where
  "bad_ip m = Inl (invalid_argument (''IP is badly formatted. '' @ m))"

definition parse_decimal_octet :: "nat \<Rightarrow> string \<Rightarrow> ip_representation \<Rightarrow> ip_representation result" where
  "parse_decimal_octet i part ip =
     (if part = ''*'' then Inr (clear_bit i ip)
      else
        (let piece = fst (strtol 10 part) in
         if piece < 0 \<or> 255 < piece then bad_ip ''255 is max value for ip part.''
         else set_octet i (word_of_int piece) ip))"

fun parse_octets_from :: "nat \<Rightarrow> string list \<Rightarrow> ip_representation \<Rightarrow> ip_representation result" where
  "parse_octets_from i [] ip = Inr ip"
| "parse_octets_from i (p # ps) ip = bind_result (parse_decimal_octet i p ip) (parse_octets_from (Suc i) ps)"

definition parse_ipv4 :: "string \<Rightarrow> ip_representation \<Rightarrow> ip_representation result" where
  "parse_ipv4 txt ip =
     (let parts = string_split txt (CHR ''.'') True in
      if length parts \<noteq> 4 then bad_ip ''Max 4 parts in IPV4.''
      else parse_octets_from 12 parts (ip\<lparr>ip_version := IPV4\<rparr>))"

definition ipv4_mapped_prefix_invalid :: "8 word \<Rightarrow> 8 word \<Rightarrow> bool" where
  "ipv4_mapped_prefix_invalid a b = ((a \<noteq> 0 \<and> a \<noteq> 255) \<or> (b \<noteq> 0 \<and> b \<noteq> 255))"

definition validate_ipv4_mapped_prefix :: "8 word list \<Rightarrow> exn option" where
  "validate_ipv4_mapped_prefix os =
     (if list_ex (\<lambda>k. os ! k \<noteq> 0) [0..<10] \<or> ipv4_mapped_prefix_invalid (os ! 10) (os ! 11) then
        Some (invalid_argument ''IP is badly formatted. Nested IPV4 can be preceded only by 0 (and, optionally, two 255 octects)'')
      else None)"

text \<open>The omitted groups and the parts left to walk; the arithmetic is that of \<^verbatim>\<open>unsigned int\<close>, and
  the number of parts is between 1 and 8 at the call.\<close>

definition compute_ipv6_omitted_segments :: "string list \<Rightarrow> (32 word \<times> string list) result" where
  "compute_ipv6_omitted_segments parts =
     (let omitted = 8 - (of_nat (length parts) - 1) in
      if omitted = 0 then Inr (0, parts)
      else
        (let empty_count = length (filter (\<lambda>p. p = []) parts) in
         if empty_count \<le> 1 then Inr (omitted, parts)
         else
           (let omitted = (if CHR ''.'' \<in> set (last parts) then omitted - 1 else omitted) in
            if \<not> (empty_count = 2 \<and> parts ! 0 = [] \<and> parts ! 1 = []) then
              bad_ip ''Cannot have more than one omitted segment in IPV6.''
            else Inr (omitted + 1, tl parts))))"

definition parse_nested_ipv4 ::
    "string list \<Rightarrow> nat \<Rightarrow> nat \<Rightarrow> ip_representation \<Rightarrow> ip_representation result" where
  "parse_nested_ipv4 parts i y ip =
     (if y \<noteq> 12 then bad_ip ''Missing parts before nested IPV4.''
      else if i \<noteq> length parts - 1 then bad_ip ''Nested IPV4 should be at the end''
      else
        (let subparts = string_split (parts ! i) (CHR ''.'') True in
         if length subparts \<noteq> 4 then bad_ip ''Nested IPV4 can have max 4 parts.''
         else case validate_ipv4_mapped_prefix (ip_octets ip) of
           Some e \<Rightarrow> Inl e
         | None \<Rightarrow> parse_octets_from y subparts ip))"

fun zero_fill :: "nat \<Rightarrow> nat \<Rightarrow> ip_representation \<Rightarrow> (nat \<times> ip_representation) result" where
  "zero_fill 0 y ip = Inr (y, ip)"
| "zero_fill (Suc n) y ip =
     bind_result (set_octet y 0 ip) (\<lambda>ip. bind_result (set_octet (y + 1) 0 ip) (zero_fill n (y + 2)))"

definition parse_hex_group :: "string \<Rightarrow> nat \<Rightarrow> ip_representation \<Rightarrow> (nat \<times> ip_representation) result" where
  "parse_hex_group part y ip =
     (let hi = strtol 16 (substr part 0 2); lo = strtol 16 (substr part 2 2) in
      if snd hi \<noteq> [] \<or> snd lo \<noteq> [] then bad_ip ''IPV6 part contains a non-hex character.''
      else
        bind_result (set_octet y (word_of_int (fst hi)) ip) (\<lambda>ip.
        bind_result (set_octet (y + 1) (word_of_int (fst lo)) ip) (\<lambda>ip. Inr (y + 2, ip))))"

definition apply_ipv6_part ::
    "string list \<Rightarrow> nat \<Rightarrow> nat \<Rightarrow> 32 word \<Rightarrow> ip_representation \<Rightarrow> (nat \<times> ip_representation) result" where
  "apply_ipv6_part parts i y omitted ip =
     (if parts ! i = ''*'' then
        Inr (y + 2, clear_bit (y + 1) (clear_bit y ip))
      else if parts ! i = [] then zero_fill (unat omitted) y ip
      else
        (let part = replicate (4 - length (parts ! i)) CHR ''0'' @ parts ! i in
         if length part = 4 then parse_hex_group part y ip
         else if CHR ''.'' \<notin> set part then bad_ip ''IPV6 parts can have max 4 characters (or nest an IPV4)''
         else bind_result (parse_nested_ipv4 parts i y ip) (\<lambda>ip. Inr (y, ip))))"

fun apply_ipv6_parts ::
    "string list \<Rightarrow> nat list \<Rightarrow> nat \<Rightarrow> 32 word \<Rightarrow> ip_representation \<Rightarrow> ip_representation result" where
  "apply_ipv6_parts parts [] y omitted ip = Inr ip"
| "apply_ipv6_parts parts (i # is) y omitted ip =
     bind_result (apply_ipv6_part parts i y omitted ip) (\<lambda>(y, ip). apply_ipv6_parts parts is y omitted ip)"

definition parse_ipv6 :: "string \<Rightarrow> ip_representation \<Rightarrow> ip_representation result" where
  "parse_ipv6 txt ip =
     (let parts = string_split txt (CHR '':'') False in
      if 8 < length parts then bad_ip ''Max 8 parts in IPV6.''
      else bind_result (compute_ipv6_omitted_segments parts)
        (\<lambda>(omitted, parts). apply_ipv6_parts parts [0..<length parts] 0 omitted (ip\<lparr>ip_version := IPV6\<rparr>)))"

definition ip_of_string :: "string \<Rightarrow> ip_representation result" where
  "ip_of_string txt =
     (let ip = blank_ip IPV4 in if CHR '':'' \<in> set txt then parse_ipv6 txt ip else parse_ipv4 txt ip)"

section \<open>Socket addresses\<close>

text \<open>A socket address as the code reads it: the family and, at the offsets of the two structures,
  the address bytes and the port as stored, in network byte order.\<close>

datatype sa_family = AF_INET | AF_INET6 | AF_other

record sockaddr =
  sa_family :: sa_family
  sin_addr :: "8 word list"
  sin6_addr :: "8 word list"
  sin_port :: "16 word"

definition ip_of_sockaddr :: "sockaddr \<Rightarrow> ip_representation" where
  "ip_of_sockaddr sa =
     (if sa_family sa = AF_INET then (blank_ip IPV4)\<lparr>ip_octets := replicate 12 0 @ take 4 (sin_addr sa)\<rparr>
      else (blank_ip IPV6)\<lparr>ip_octets := take 16 (sin6_addr sa)\<rparr>)"

definition get_port :: "sockaddr option \<Rightarrow> 16 word result" where
  "get_port sa =
     (case sa of
        None \<Rightarrow> Inl (invalid_argument ''socket pointer is null'')
      | Some a \<Rightarrow>
          if sa_family a = AF_INET \<or> sa_family a = AF_INET6 then Inr (sin_port a)
          else Inl (invalid_argument ''IP family must be either AF_INET or AF_INET6''))"

text \<open>\<open>ntop\<close> is \<^verbatim>\<open>inet_ntop\<close>, with the family as its argument.\<close>

definition get_ip_str :: "(sa_family \<Rightarrow> 8 word list \<Rightarrow> string) \<Rightarrow> sockaddr option \<Rightarrow> string result" where
  "get_ip_str ntop sa =
     (case sa of
        None \<Rightarrow> Inl (invalid_argument ''socket pointer is null'')
      | Some a \<Rightarrow>
          if sa_family a = AF_INET6 then Inr (ntop AF_INET6 (sin6_addr a))
          else if sa_family a = AF_INET then Inr (ntop AF_INET (sin_addr a))
          else Inl (invalid_argument ''IP family must be either AF_INET or AF_INET6''))"

section \<open>Comparison\<close>

definition accumulate_octet_score ::
    "ip_representation \<Rightarrow> ip_representation \<Rightarrow> nat \<Rightarrow> int \<times> int \<Rightarrow> int \<times> int" where
  "accumulate_octet_score a b i sc =
     (if check_bit (ip_mask a) i \<and> check_bit (ip_mask b) i then
        (fst sc + (16 - int i) * uint (ip_octets a ! i), snd sc + (16 - int i) * uint (ip_octets b ! i))
      else sc)"

definition is_v4_mapped_prefix_octet_pair :: "8 word \<Rightarrow> 8 word \<Rightarrow> bool" where
  "is_v4_mapped_prefix_octet_pair a b = ((a = 0x00 \<or> a = 0xFF) \<and> (b = 0x00 \<or> b = 0xFF))"

definition ip_less :: "ip_representation \<Rightarrow> ip_representation \<Rightarrow> bool" where
  "ip_less a b =
     (let sc = fold (accumulate_octet_score a b) (filter (\<lambda>i. i \<noteq> 10 \<and> i \<noteq> 11) [0..<16]) (0, 0) in
      if fst sc = snd sc \<and> is_v4_mapped_prefix_octet_pair (ip_octets a ! 10) (ip_octets b ! 10)
         \<and> is_v4_mapped_prefix_octet_pair (ip_octets a ! 11) (ip_octets b ! 11) then False
      else
        (let sc = accumulate_octet_score a b 11 (accumulate_octet_score a b 10 sc) in fst sc < snd sc))"

section \<open>The parser stays inside the array\<close>

definition defined_result :: "'a result \<Rightarrow> bool" where
  "defined_result r = (case r of Inl (undefined_behaviour m) \<Rightarrow> False | _ \<Rightarrow> True)"

lemma defined_simps [simp]:
  "defined_result (Inr x)"
  "defined_result (Inl (invalid_argument m))"
  "defined_result (bad_ip m)"
  by (simp_all add: defined_result_def bad_ip_def)

lemma defined_bind:
  "defined_result r \<Longrightarrow> (\<And>x. r = Inr x \<Longrightarrow> defined_result (f x)) \<Longrightarrow> defined_result (bind_result r f)"
  by (cases r) (simp_all add: defined_result_def)

lemma set_octet_defined: "i < 16 \<Longrightarrow> defined_result (set_octet i v ip)"
  by (simp add: set_octet_def)

lemma parse_octets_defined: "i + length ps \<le> 16 \<Longrightarrow> defined_result (parse_octets_from i ps ip)"
proof (induction ps arbitrary: i ip)
  case (Cons p ps)
  then show ?case
    by (auto simp: parse_decimal_octet_def Let_def set_octet_defined intro!: defined_bind)
qed simp

lemma zero_fill_defined:
  "y + 2 * n \<le> 16 \<Longrightarrow> defined_result (zero_fill n y ip) \<and> (\<forall>y' ip'. zero_fill n y ip = Inr (y', ip') \<longrightarrow> y' = y + 2 * n)"
proof (induction n arbitrary: y ip)
  case (Suc n)
  from Suc.IH [of "y + 2"] Suc.prems show ?case
    by (auto simp: bind_result_Inr_iff set_octet_defined intro!: defined_bind)
qed simp

definition part_cost :: "32 word \<Rightarrow> string \<Rightarrow> nat" where
  "part_cost omitted part = (if part = [] then 2 * unat omitted else 2)"

lemma parse_nested_defined: "defined_result (parse_nested_ipv4 parts i y ip)"
  by (auto simp: parse_nested_ipv4_def Let_def parse_octets_defined validate_ipv4_mapped_prefix_def split: option.splits)

lemma apply_ipv6_part_defined:
  assumes "y + part_cost omitted (parts ! i) \<le> 16"
  shows "defined_result (apply_ipv6_part parts i y omitted ip) \<and>
    (\<forall>y' ip'. apply_ipv6_part parts i y omitted ip = Inr (y', ip') \<longrightarrow> y' \<le> y + part_cost omitted (parts ! i))"
proof (cases "parts ! i = []")
  case True
  then show ?thesis
    using zero_fill_defined [of y "unat omitted" ip] assms by (simp add: apply_ipv6_part_def part_cost_def)
next
  case False
  then have "y + 1 < 16"
    using assms by (simp add: part_cost_def)
  then have "defined_result (parse_hex_group part y ip) \<and> (\<forall>y' ip'. parse_hex_group part y ip = Inr (y', ip') \<longrightarrow> y' = y + 2)" for part
    by (auto simp: parse_hex_group_def Let_def set_octet_defined bind_result_Inr_iff bad_ip_def intro!: defined_bind)
  then show ?thesis
    using False by (auto simp: apply_ipv6_part_def Let_def part_cost_def bind_result_Inr_iff bad_ip_def
        intro!: defined_bind parse_nested_defined)
qed

lemma apply_ipv6_parts_defined:
  "y + sum_list (map (\<lambda>i. part_cost omitted (parts ! i)) is) \<le> 16 \<Longrightarrow> defined_result (apply_ipv6_parts parts is y omitted ip)"
proof (induction "is" arbitrary: y ip)
  case (Cons i "is")
  then have b: "y + part_cost omitted (parts ! i) \<le> 16"
    by simp
  have "defined_result (apply_ipv6_parts parts is y' omitted ip')" if "apply_ipv6_part parts i y omitted ip = Inr (y', ip')" for y' ip'
    by (rule Cons.IH) (use that apply_ipv6_part_defined [OF b, of ip] Cons.prems in fastforce)
  with apply_ipv6_part_defined [OF b, of ip] show ?case
    by (auto intro!: defined_bind split: prod.splits)
qed simp

lemma sum_part_cost:
  "sum_list (map (part_cost omitted) ps) + 2 * length (filter (\<lambda>p. p = []) ps) =
     2 * length ps + 2 * unat omitted * length (filter (\<lambda>p. p = []) ps)"
  by (induction ps) (simp_all add: part_cost_def algebra_simps)

lemma omitted_value:
  assumes "1 \<le> n" "n \<le> 8"
  shows "unat (8 - (of_nat n - 1) :: 32 word) = 9 - n" "unat (8 - (of_nat n - 1) + 1 :: 32 word) = 10 - n"
    "8 - (of_nat n - 1) \<noteq> (0 :: 32 word)"
proof -
  have "n \<in> {1, 2, 3, 4, 5, 6, 7, 8}"
    using assms by auto
  then show "unat (8 - (of_nat n - 1) :: 32 word) = 9 - n" "unat (8 - (of_nat n - 1) + 1 :: 32 word) = 10 - n"
      "8 - (of_nat n - 1) \<noteq> (0 :: 32 word)"
    by auto
qed

lemma compute_omitted_cost:
  assumes "1 \<le> length parts" "length parts \<le> 8" "compute_ipv6_omitted_segments parts = Inr (om, parts')"
  shows "sum_list (map (part_cost om) parts') \<le> 16"
proof -
  let ?n = "length parts" and ?e = "length (filter (\<lambda>p. p = []) parts)"
  note V = omitted_value [OF assms(1,2)]
  show ?thesis
  proof (cases "?e \<le> 1")
    case True
    then have "om = 8 - (of_nat ?n - 1)" "parts' = parts"
      using assms(3) V(3) by (auto simp: compute_ipv6_omitted_segments_def Let_def)
    with True V(1) sum_part_cost [of om parts] show ?thesis
      using assms(1,2) by (cases ?e) auto
  next
    case False
    then have e: "?e = 2" and p: "parts' = tl parts" "parts ! 0 = []"
        and om: "om = (if CHR ''.'' \<in> set (last parts) then 8 - (of_nat ?n - 1) else 8 - (of_nat ?n - 1) + 1)"
      using assms(3) V(3) by (auto simp: compute_ipv6_omitted_segments_def Let_def bad_ip_def split: if_splits)
    have "unat om \<le> 10 - ?n"
      unfolding om using V(1,2) by (simp add: diff_le_mono)
    moreover obtain ps where "parts = [] # ps"
      using p(2) assms(1) by (cases parts) auto
    ultimately show ?thesis
      using e p(1) sum_part_cost [of om ps] assms(1,2) by auto
  qed
qed

lemma split_colon_length:
  assumes "CHR '':'' \<in> set txt"
  shows "1 \<le> length (string_split txt (CHR '':'') False)"
proof -
  obtain i where "find_char (CHR '':'') txt = Some i"
    using assms by (metis find_char_None not_None_eq)
  from segments_find [OF this] have "segments (CHR '':'') txt \<noteq> [last (segments (CHR '':'') txt)]"
    by auto
  then have "0 < length (butlast (segments (CHR '':'') txt))"
    by (metis append_Nil append_butlast_last_id segments_not_Nil length_greater_0_conv)
  then show ?thesis
    by (simp add: string_split_segments keep_token_def Suc_le_eq)
qed

lemma ip_of_string_defined: "defined_result (ip_of_string txt)"
proof (cases "CHR '':'' \<in> set txt")
  case True
  let ?parts = "string_split txt (CHR '':'') False"
  have "defined_result (compute_ipv6_omitted_segments ?parts)"
    by (simp add: compute_ipv6_omitted_segments_def Let_def)
  moreover have "defined_result (apply_ipv6_parts ps [0..<length ps] 0 om ip)"
      if "length ?parts \<le> 8" "compute_ipv6_omitted_segments ?parts = Inr (om, ps)" for om ps ip
  proof (rule apply_ipv6_parts_defined)
    have "map (\<lambda>i. part_cost om (ps ! i)) [0..<length ps] = map (part_cost om) ps"
      by (rule nth_equalityI) simp_all
    then show "0 + sum_list (map (\<lambda>i. part_cost om (ps ! i)) [0..<length ps]) \<le> 16"
      using compute_omitted_cost [OF split_colon_length [OF True] that] by simp
  qed
  ultimately show ?thesis
    using True by (auto simp: ip_of_string_def parse_ipv6_def Let_def intro!: defined_bind)
next
  case False
  then show ?thesis
    by (simp add: ip_of_string_def parse_ipv4_def Let_def parse_octets_defined)
qed

section \<open>Numbers read back\<close>

definition number_char :: "char \<Rightarrow> bool" where
  "number_char c =
     (c \<noteq> NUL \<and> \<not> is_space c \<and> c \<noteq> CHR ''-'' \<and> c \<noteq> CHR ''+'' \<and> c \<noteq> CHR ''.'' \<and> c \<noteq> CHR '':'' \<and> c \<noteq> CHR ''*'')"

lemma digit_char_facts:
  assumes "d < 16"
  shows "hex_char_to_val (digit_char d) = d" "digit_in 16 (digit_char d)" "d < 10 \<Longrightarrow> digit_in 10 (digit_char d)"
    "number_char (digit_char d)"
proof -
  have c: "(of_char (digit_char d) :: nat) = (if d < 10 then 48 + d else 87 + d)"
    using assms by (simp add: digit_char_def)
  have hex: "char_between CHR ''a'' CHR ''f'' (digit_char d) \<longleftrightarrow> \<not> d < 10" "is_digit (digit_char d) \<longleftrightarrow> d < 10"
    using assms by (simp_all add: char_between_def is_digit_def c)
  then show "hex_char_to_val (digit_char d) = d" "digit_in 16 (digit_char d)" "d < 10 \<Longrightarrow> digit_in 10 (digit_char d)"
    by (simp_all add: hex_char_to_val_def digit_in_def is_valid_hex_def c)
  have "\<not> is_space (digit_char d)"
    using assms c by (auto simp: is_space_def split: if_splits)
  moreover have "(of_char (digit_char d) :: nat) \<notin> {0, 42, 43, 45, 46, 58}"
    using c by auto
  then have "digit_char d \<noteq> NUL" "digit_char d \<noteq> CHR ''-''" "digit_char d \<noteq> CHR ''+''" "digit_char d \<noteq> CHR ''.''"
      "digit_char d \<noteq> CHR '':''" "digit_char d \<noteq> CHR ''*''"
    by auto
  ultimately show "number_char (digit_char d)"
    by (simp add: number_char_def)
qed

text \<open>Digits of a base, most significant first, and their value.\<close>

definition digits_ok :: "nat \<Rightarrow> string \<Rightarrow> bool" where
  "digits_ok b s = list_all (\<lambda>c. \<exists>d < b. c = digit_char d) s"

lemma show_base_digits: "b = 10 \<or> b = 16 \<Longrightarrow> digits_ok b (show_base b n) \<and> show_base b n \<noteq> []"
proof (induction b n rule: show_base.induct)
  case (1 b n)
  have "show_base b n = (if n < b then [digit_char n] else show_base b (n div b) @ [digit_char (n mod b)])"
    by (subst show_base.simps) (use 1(2) in auto)
  moreover have "\<exists>d < b. digit_char (n mod b) = digit_char d" "\<not> b < 2"
    using 1(2) by (intro exI [of _ "n mod b"], auto)
  ultimately show ?case
    using 1 unfolding digits_ok_def by (simp split: if_splits) blast
qed

lemma digits_ok_number_char: "digits_ok b s \<Longrightarrow> b \<le> 16 \<Longrightarrow> list_all number_char s"
  by (fastforce simp: digits_ok_def list_all_iff dest: digit_char_facts(4) order_less_le_trans)

lemma scan_digits_append:
  assumes "b = 10 \<or> b = 16" "digits_ok b s"
  shows "scan_digits b acc (s @ t) = scan_digits b (fst (scan_digits b acc s)) t \<and> snd (scan_digits b acc s) = []"
  using assms(2)
proof (induction s arbitrary: acc)
  case (Cons c s)
  then obtain d where "d < b" "c = digit_char d"
    by (auto simp: digits_ok_def)
  with Cons assms(1) show ?case
    using digit_char_facts [of d] by (auto simp: digits_ok_def)
qed simp

lemma scan_digits_show_base: "b = 10 \<or> b = 16 \<Longrightarrow> scan_digits b 0 (show_base b n) = (n, [])"
proof (induction b n rule: show_base.induct)
  case (1 b n)
  have d: "n mod b < b" "n mod b < 16"
    using 1(2) by (auto intro: order_less_trans [of _ 10])
  show ?case
  proof (cases "n < b")
    case True
    then show ?thesis
      using 1(2) digit_char_facts [of n] by (subst show_base.simps) auto
  next
    case False
    have "scan_digits b 0 (show_base b (n div b)) = (n div b, [])"
      using 1 False by auto
    then show ?thesis
      using 1(2) False digit_char_facts [OF d(2)] d(1) scan_digits_append [OF 1(2), of "show_base b (n div b)" 0]
        show_base_digits [OF 1(2), of "n div b"]
      by (subst show_base.simps) auto
  qed
qed

lemma strtol_number:
  assumes "list_all number_char s" "s \<noteq> []" "digit_in b (hd s)" "length s \<le> 2 \<or> b \<noteq> 16"
  shows "strtol b s = (case scan_digits b 0 s of (v, rest) \<Rightarrow> (max (- (2 ^ 63)) (min (2 ^ 63 - 1) (int v)), rest))"
proof -
  have h: "takeWhile (\<lambda>c. c \<noteq> NUL) s = s" "dropWhile is_space s = s" "hd s \<noteq> CHR ''-''" "hd s \<noteq> CHR ''+''"
    using assms(1,2) by (cases s; auto simp: number_char_def list_all_iff takeWhile_eq_all_conv)+
  have "skip_prefix b s = s"
    using assms(4) by (auto simp: skip_prefix_def)
  with h(3,4) assms(2,3) show ?thesis
    unfolding strtol_def Let_def h(1) h(2) by simp
qed

lemma hd_digits: "digits_ok b s \<Longrightarrow> s \<noteq> [] \<Longrightarrow> b = 10 \<or> b = 16 \<Longrightarrow> digit_in b (hd s)"
  using digit_char_facts(2,3) by (cases s) (auto simp: digits_ok_def)

lemma strtol_show_nat: "n < 2 ^ 63 \<Longrightarrow> strtol 10 (show_nat n) = (int n, [])"
  using show_base_digits [of 10 n] scan_digits_show_base [of 10 n]
    strtol_number [of "show_nat n" 10] hd_digits [of 10 "show_nat n"] digits_ok_number_char [of 10 "show_nat n"]
  by (simp add: show_nat_def)

lemma strtol_hex_pair:
  assumes "a < 16" "b < 16"
  shows "strtol 16 [digit_char a, digit_char b] = (int (16 * a + b), [])"
  using assms digit_char_facts [of a] digit_char_facts [of b] strtol_number [of "[digit_char a, digit_char b]" 16]
  by simp

lemma hex_group_text:
  assumes "n < 65536"
  shows "replicate (4 - length (show_base 16 n)) CHR ''0'' @ show_base 16 n =
    [digit_char (n div 4096), digit_char (n div 256 mod 16), digit_char (n div 16 mod 16), digit_char (n mod 16)]"
proof -
  have z: "digit_char 0 = CHR ''0''"
    by code_simp
  have s: "show_base 16 n = (if n < 16 then [digit_char n] else show_base 16 (n div 16) @ [digit_char (n mod 16)])" for n
    by (subst show_base.simps) simp
  have d: "n div 16 div 16 = n div 256" "n div 16 div 16 div 16 = n div 4096" "n div 256 div 16 = n div 4096"
    by (simp_all add: div_mult2_eq [symmetric])
  have r: "replicate 3 c = [c, c, c]" "replicate 2 c = [c, c]" for c :: char
    by (simp_all add: numeral_eq_Suc)
  consider "n < 16" | "16 \<le> n" "n < 256" | "256 \<le> n" "n < 4096" | "4096 \<le> n"
    by linarith
  then show ?thesis
  proof cases
    case 1
    then show ?thesis by (simp add: s [of n] z r)
  next
    case 2
    then have "n div 16 < 16" "n div 256 = 0" "n div 4096 = 0" by auto
    with 2 show ?thesis by (simp add: s [of n] s [of "n div 16"] z r)
  next
    case 3
    then have "\<not> n div 16 < 16" "n div 256 < 16" "n div 4096 = 0" by auto
    with 3 show ?thesis by (simp add: s [of n] s [of "n div 16"] s [of "n div 256"] d z r)
  next
    case 4
    then have "\<not> n div 16 < 16" "\<not> n div 256 < 16" "n div 4096 < 16" using assms by auto
    with 4 show ?thesis by (simp add: s [of n] s [of "n div 16"] s [of "n div 256"] s [of "n div 4096"] d z)
  qed
qed

end
