(* ===== verification/Http_Request.thy ===== *)
theory Http_Request
  imports Header_Map String_Utilities Cookie Ip_Representation Response_Body
begin

text \<open>
  The request object of \<^verbatim>\<open>src/src/http_request.cpp\<close>, \<^verbatim>\<open>src/src/http_request_auth.cpp\<close>,
  \<^verbatim>\<open>src/src/detail/http_request_impl.cpp\<close> and \<^verbatim>\<open>src/src/detail/http_request_impl_args.cpp\<close>: the public
  fields, the implementation object with its lazily built caches, the arguments with their limits, the
  query string, the credentials, the uploaded files and the redacted printout.  A getter that fills
  a cache returns the request with the cache filled.  What libmicrohttpd knows of a connection is
  a record of arguments: the values it enumerates and looks up, the decoded credentials and the
  client address.  A cached \<^verbatim>\<open>string_view\<close> is the text it had when the cache was built.
\<close>

section \<open>The connection\<close>

datatype MHD_ValueKind = MHD_HEADER_KIND | MHD_FOOTER_KIND | MHD_COOKIE_KIND | MHD_GET_ARGUMENT_KIND

datatype digest_auth_result =
    OK | GENERIC_ERROR | WRONG_HEADER | WRONG_USERNAME | WRONG_REALM | WRONG_URI | WRONG_QOP | WRONG_ALGO
  | TOO_LARGE | NONCE_STALE | NONCE_OTHER_COND | NONCE_WRONG | RESPONSE_WRONG

record connection_state =
  max_args_count :: nat
  max_args_bytes :: nat

text \<open>\<open>conn_values\<close> is the sequence of pairs \<^verbatim>\<open>MHD_get_connection_values\<close> hands to its callback, \<open>conn_lookup\<close>
  is \<^verbatim>\<open>MHD_lookup_connection_value\<close>, \<open>conn_socket_context\<close> the state the library attached to the
  connection.  A value of a pair may be \<^verbatim>\<open>NULL\<close>.\<close>

record mhd_connection =
  conn_values :: "MHD_ValueKind \<Rightarrow> (string \<times> string option) list"
  conn_lookup :: "MHD_ValueKind \<Rightarrow> string \<Rightarrow> string option"
  conn_basic_auth :: "(string \<times> string option) option"
  conn_digest_user :: "string option option"
  conn_digest_check :: "string \<Rightarrow> string \<Rightarrow> string \<Rightarrow> nat \<Rightarrow> 32 word \<Rightarrow> digest_algorithm \<Rightarrow> digest_auth_result"
  conn_client_addr :: "sockaddr option option"
  conn_socket_context :: "connection_state option"

text \<open>The enumeration: the callback is called on each pair until it returns \<^verbatim>\<open>MHD_NO\<close>.\<close>

fun mhd_iterate :: "(string \<Rightarrow> string option \<Rightarrow> 's \<Rightarrow> bool \<times> 's) \<Rightarrow> (string \<times> string option) list \<Rightarrow> 's \<Rightarrow> 's" where
  "mhd_iterate f [] s = s"
| "mhd_iterate f (kv # kvs) s =
     (let (more, s') = f (fst kv) (snd kv) s in if more then mhd_iterate f kvs s' else s')"

definition c_str :: "string \<Rightarrow> string" where
  "c_str s = takeWhile (\<lambda>c. c \<noteq> NUL) s"

section \<open>Uploaded files\<close>

record file_info =
  fi_file_size :: "64 word"
  fi_file_system_file_name :: string
  fi_content_type :: string
  fi_transfer_encoding :: string

definition default_file_info :: file_info where
  "default_file_info =
     \<lparr>fi_file_size = 0, fi_file_system_file_name = [], fi_content_type = [], fi_transfer_encoding = []\<rparr>"

definition grow_file_size :: "nat \<Rightarrow> file_info \<Rightarrow> file_info" where
  "grow_file_size n f = f\<lparr>fi_file_size := fi_file_size f + of_nat n\<rparr>"

text \<open>\<^verbatim>\<open>std::less<std::string>\<close>: lexicographic on unsigned bytes.\<close>

fun string_less :: "string \<Rightarrow> string \<Rightarrow> bool" where
  "string_less xs [] = False"
| "string_less [] (y # ys) = True"
| "string_less (x # xs) (y # ys) =
     (if (of_char x :: nat) < of_char y then True
      else if (of_char y :: nat) < of_char x then False else string_less xs ys)"

section \<open>The implementation object\<close>

type_synonym args_map_t = "string list ordered_map"
type_synonym file_cleanup_callback = "string \<Rightarrow> string \<Rightarrow> file_info \<Rightarrow> bool result"

record http_request_impl =
  req_connection :: "mhd_connection option"
  req_unescaper :: "(string \<Rightarrow> string) option"
  req_cleanup :: "file_cleanup_callback option"
  req_files :: "file_info ordered_map ordered_map"
  headers_local :: "string ordered_map"
  footers_local :: "string ordered_map"
  cookies_local :: "string ordered_map"
  requestor_port_local :: "16 word"
  username :: string
  password :: string
  querystring :: string
  requestor_ip :: string
  digested_user :: string
  unescaped_args :: args_map_t
  args_populated :: bool
  querystring_built :: bool
  user_pass_fetched :: bool
  requestor_ip_cached :: bool
  headers_cached :: "string ordered_map"
  footers_cached :: "string ordered_map"
  cookies_cached :: "string ordered_map"
  headers_cache_built :: bool
  footers_cache_built :: bool
  cookies_cache_built :: bool
  args_view_cached :: args_map_t
  args_view_cache_built :: bool
  args_flat_view_cached :: "string ordered_map"
  args_flat_view_cache_built :: bool
  path_pieces_cached :: "string list"
  path_pieces_cache_built :: bool
  cookies_parsed_cached :: "cookie list"
  cookies_parsed_cache_built :: bool
  expose_credentials :: bool

definition make_request_impl :: "mhd_connection option \<Rightarrow> (string \<Rightarrow> string) option \<Rightarrow> http_request_impl" where
  "make_request_impl connection unescaper =
     \<lparr>req_connection = connection, req_unescaper = unescaper, req_cleanup = None, req_files = [],
      headers_local = [], footers_local = [], cookies_local = [], requestor_port_local = 0,
      username = [], password = [], querystring = [], requestor_ip = [], digested_user = [],
      unescaped_args = [], args_populated = False, querystring_built = False, user_pass_fetched = False,
      requestor_ip_cached = False, headers_cached = [], footers_cached = [], cookies_cached = [],
      headers_cache_built = False, footers_cache_built = False, cookies_cache_built = False,
      args_view_cached = [], args_view_cache_built = False,
      args_flat_view_cached = [], args_flat_view_cache_built = False,
      path_pieces_cached = [], path_pieces_cache_built = False,
      cookies_parsed_cached = [], cookies_parsed_cache_built = False,
      expose_credentials = False\<rparr>"

section \<open>Headers, footers and cookies\<close>

fun local_map_for :: "MHD_ValueKind \<Rightarrow> http_request_impl \<Rightarrow> string ordered_map option" where
  "local_map_for MHD_HEADER_KIND i = Some (headers_local i)"
| "local_map_for MHD_FOOTER_KIND i = Some (footers_local i)"
| "local_map_for MHD_COOKIE_KIND i = Some (cookies_local i)"
| "local_map_for MHD_GET_ARGUMENT_KIND i = None"

definition get_connection_value :: "string \<Rightarrow> MHD_ValueKind \<Rightarrow> http_request_impl \<Rightarrow> string" where
  "get_connection_value key kind i =
     (case req_connection i of
        None \<Rightarrow>
          (case local_map_for kind i of
             Some m \<Rightarrow> (case map_find header_less key m of Some v \<Rightarrow> v | None \<Rightarrow> [])
           | None \<Rightarrow> [])
      | Some c \<Rightarrow> (case conn_lookup c kind (c_str key) of None \<Rightarrow> [] | Some v \<Rightarrow> v))"

text \<open>A \<^verbatim>\<open>NULL\<close> value would be read as a \<^verbatim>\<open>string_view\<close>, which is undefined.\<close>

definition build_request_header ::
  "string \<Rightarrow> string option \<Rightarrow> string ordered_map result \<Rightarrow> bool \<times> string ordered_map result" where
  "build_request_header key v dhr =
     (case v of
        None \<Rightarrow> (False, Inl (undefined_behaviour ''string_view of a null pointer''))
      | Some t \<Rightarrow> (True, bind_result dhr (\<lambda>m. Inr (insert_or_assign header_less key t m))))"

fun headerlike_cache :: "MHD_ValueKind \<Rightarrow> http_request_impl \<Rightarrow> string ordered_map \<times> bool" where
  "headerlike_cache MHD_HEADER_KIND i = (headers_cached i, headers_cache_built i)"
| "headerlike_cache MHD_FOOTER_KIND i = (footers_cached i, footers_cache_built i)"
| "headerlike_cache MHD_COOKIE_KIND i = (cookies_cached i, cookies_cache_built i)"
| "headerlike_cache MHD_GET_ARGUMENT_KIND i = (headers_cached i, headers_cache_built i)"

fun set_headerlike_cache :: "MHD_ValueKind \<Rightarrow> string ordered_map \<Rightarrow> http_request_impl \<Rightarrow> http_request_impl" where
  "set_headerlike_cache MHD_HEADER_KIND m i = i\<lparr>headers_cached := m, headers_cache_built := True\<rparr>"
| "set_headerlike_cache MHD_FOOTER_KIND m i = i\<lparr>footers_cached := m, footers_cache_built := True\<rparr>"
| "set_headerlike_cache MHD_COOKIE_KIND m i = i\<lparr>cookies_cached := m, cookies_cache_built := True\<rparr>"
| "set_headerlike_cache MHD_GET_ARGUMENT_KIND m i = i\<lparr>headers_cached := m, headers_cache_built := True\<rparr>"

definition ensure_headerlike_cache ::
  "MHD_ValueKind \<Rightarrow> http_request_impl \<Rightarrow> (string ordered_map \<times> http_request_impl) result" where
  "ensure_headerlike_cache kind i =
     (let (cache, built) = headerlike_cache kind i in
      if built then Inr (cache, i)
      else
        bind_result
          (case req_connection i of
             None \<Rightarrow>
               Inr (case local_map_for kind i of
                      Some m \<Rightarrow> fold (\<lambda>(k, v). insert_or_assign header_less k v) m cache
                    | None \<Rightarrow> cache)
           | Some c \<Rightarrow> mhd_iterate build_request_header (conn_values c kind) (Inr cache))
          (\<lambda>m. Inr (m, set_headerlike_cache kind m i)))"

definition ensure_cookies_parsed_cached :: "http_request_impl \<Rightarrow> http_request_impl" where
  "ensure_cookies_parsed_cached i =
     (if cookies_parsed_cache_built i then i
      else
        (case req_connection i of
           None \<Rightarrow>
             i\<lparr>cookies_parsed_cached := cookies_parsed_cached i @ map cookie_of_pair (cookies_local i),
               cookies_parsed_cache_built := True\<rparr>
         | Some c \<Rightarrow>
             (case conn_lookup c MHD_HEADER_KIND ''Cookie'' of
                Some raw \<Rightarrow> i\<lparr>cookies_parsed_cached := parse_cookie_header raw, cookies_parsed_cache_built := True\<rparr>
              | None \<Rightarrow> i\<lparr>cookies_parsed_cache_built := True\<rparr>)))"

section \<open>Arguments\<close>

text \<open>The map with the key present, and the vector of the key.\<close>

definition find_or_insert_arg :: "args_map_t \<Rightarrow> string \<Rightarrow> args_map_t \<times> string list" where
  "find_or_insert_arg args key =
     (case map_find arg_less key args of
        Some vec \<Rightarrow> (args, vec)
      | None \<Rightarrow> (map_emplace arg_less key [] args, []))"

text \<open>Writing back through the reference \<^const>\<open>find_or_insert_arg\<close> returns.\<close>

definition append_arg :: "args_map_t \<Rightarrow> string \<Rightarrow> string \<Rightarrow> args_map_t" where
  "append_arg args key v =
     (let (args', vec) = find_or_insert_arg args key in insert_or_assign arg_less key (vec @ [v]) args')"

definition impl_set_arg :: "string \<Rightarrow> string \<Rightarrow> nat \<Rightarrow> http_request_impl \<Rightarrow> http_request_impl" where
  "impl_set_arg key v content_size_limit i =
     i\<lparr>args_view_cache_built := False,
       unescaped_args := append_arg (unescaped_args i) key (take (min (length v) content_size_limit) v)\<rparr>"

text \<open>The overload on a byte range: \<open>v\<close> points at a buffer of at least \<open>sz\<close> bytes.\<close>

definition impl_set_arg_sized :: "string \<Rightarrow> string \<Rightarrow> nat \<Rightarrow> nat \<Rightarrow> http_request_impl \<Rightarrow> http_request_impl" where
  "impl_set_arg_sized key v sz content_size_limit i =
     i\<lparr>args_view_cache_built := False,
       unescaped_args := append_arg (unescaped_args i) key (take (min sz content_size_limit) v)\<rparr>"

definition impl_set_arg_flat :: "string \<Rightarrow> string \<Rightarrow> nat \<Rightarrow> http_request_impl \<Rightarrow> http_request_impl" where
  "impl_set_arg_flat key v content_size_limit i =
     (let (args', vec) = find_or_insert_arg (unescaped_args i) key in
      i\<lparr>args_view_cache_built := False,
        unescaped_args := insert_or_assign arg_less key [take (min (length v) content_size_limit) v] args'\<rparr>)"

definition impl_set_args :: "(string \<times> string) list \<Rightarrow> nat \<Rightarrow> http_request_impl \<Rightarrow> http_request_impl" where
  "impl_set_args args content_size_limit i =
     i\<lparr>args_view_cache_built := False,
       unescaped_args :=
         fold (\<lambda>(k, v) m. append_arg m k (take (min (length v) content_size_limit) v)) args (unescaped_args i)\<rparr>"

definition impl_grow_last_arg :: "string \<Rightarrow> string \<Rightarrow> http_request_impl \<Rightarrow> http_request_impl" where
  "impl_grow_last_arg key v i =
     (let (args', vec) = find_or_insert_arg (unescaped_args i) key in
      i\<lparr>args_view_cache_built := False,
        unescaped_args :=
          insert_or_assign arg_less key
            (if vec \<noteq> [] then vec[length vec - 1 := last vec @ v] else [v]) args'\<rparr>)"

text \<open>The user supplied unescaper replaces the decoder.\<close>

definition unescape_in_arena :: "(string \<Rightarrow> string) option \<Rightarrow> string \<Rightarrow> string" where
  "unescape_in_arena user_fn v =
     (if v = [] then v
      else
        (case user_fn of
           None \<Rightarrow> (let (data, new_size) = unescape_buf_raw v (length v) in take new_size data)
         | Some f \<Rightarrow> f v))"

record arguments_accumulator =
  aa_unescaper :: "(string \<Rightarrow> string) option"
  aa_arguments :: args_map_t
  aa_max_args_count :: nat
  aa_max_args_bytes :: nat
  aa_accumulated_bytes :: nat

definition DEFAULT_MAX_ARGS_COUNT :: nat where "DEFAULT_MAX_ARGS_COUNT = 64"
definition DEFAULT_MAX_ARGS_BYTES :: nat where "DEFAULT_MAX_ARGS_BYTES = 65536"

definition build_request_args ::
  "string \<Rightarrow> string option \<Rightarrow> arguments_accumulator \<Rightarrow> bool \<times> arguments_accumulator" where
  "build_request_args key arg_value aa =
     (let val_sv = (case arg_value of Some v \<Rightarrow> v | None \<Rightarrow> []);
          args = aa_arguments aa;
          existing = map_find arg_less key args
      in if length args + (if existing = None then 1 else 0) > aa_max_args_count aa then (False, aa)
         else if aa_accumulated_bytes aa + (length key + length val_sv) > aa_max_args_bytes aa then (False, aa)
         else
           (True,
            aa\<lparr>aa_accumulated_bytes := aa_accumulated_bytes aa + (length key + length val_sv),
               aa_arguments := append_arg args key (unescape_in_arena (aa_unescaper aa) val_sv)\<rparr>))"

definition populate_args :: "http_request_impl \<Rightarrow> http_request_impl" where
  "populate_args i =
     (if args_populated i then i
      else
        (case req_connection i of
           None \<Rightarrow> i\<lparr>args_populated := True\<rparr>
         | Some c \<Rightarrow>
             (let (count, bytes) =
                (case conn_socket_context c of
                   None \<Rightarrow> (DEFAULT_MAX_ARGS_COUNT, DEFAULT_MAX_ARGS_BYTES)
                 | Some cs \<Rightarrow>
                     (if max_args_count cs \<noteq> 0 then max_args_count cs else DEFAULT_MAX_ARGS_COUNT,
                      if max_args_bytes cs \<noteq> 0 then max_args_bytes cs else DEFAULT_MAX_ARGS_BYTES));
                  aa = mhd_iterate build_request_args (conn_values c MHD_GET_ARGUMENT_KIND)
                    \<lparr>aa_unescaper = req_unescaper i, aa_arguments = unescaped_args i, aa_max_args_count = count,
                     aa_max_args_bytes = bytes, aa_accumulated_bytes = 0\<rparr>
              in i\<lparr>unescaped_args := aa_arguments aa, args_populated := True\<rparr>)))"

definition ensure_args_view_cached :: "http_request_impl \<Rightarrow> http_request_impl" where
  "ensure_args_view_cached i =
     (if args_view_cache_built i then i
      else
        i\<lparr>args_view_cached :=
            fold (\<lambda>(key, vals) m.
                insert_or_assign arg_less key ((case map_find arg_less key m of Some a \<Rightarrow> a | None \<Rightarrow> []) @ vals) m)
              (unescaped_args i) [],
          args_view_cache_built := True\<rparr>)"

definition ensure_args_flat_view_cached :: "http_request_impl \<Rightarrow> http_request_impl" where
  "ensure_args_flat_view_cached i =
     (if args_flat_view_cache_built i then i
      else
        i\<lparr>args_flat_view_cached :=
            fold (\<lambda>(key, vals) m. if vals = [] then m else map_emplace arg_less key (hd vals) m)
              (unescaped_args i) [],
          args_flat_view_cache_built := True\<rparr>)"

definition ensure_path_pieces_cached :: "string \<Rightarrow> http_request_impl \<Rightarrow> http_request_impl" where
  "ensure_path_pieces_cached path i =
     (if path_pieces_cache_built i then i
      else i\<lparr>path_pieces_cached := tokenize_url path, path_pieces_cache_built := True\<rparr>)"

definition build_request_querystring :: "string \<Rightarrow> string option \<Rightarrow> string \<Rightarrow> bool \<times> string" where
  "build_request_querystring key arg_value qs =
     (True, qs @ (if qs = [] then ''?'' else ''&'') @ key @ ''='' @ (case arg_value of None \<Rightarrow> [] | Some v \<Rightarrow> v))"

section \<open>Credentials\<close>

definition fetch_user_pass :: "http_request_impl \<Rightarrow> http_request_impl" where
  "fetch_user_pass i =
     (case req_connection i of
        None \<Rightarrow> i
      | Some c \<Rightarrow>
          (case conn_basic_auth c of
             None \<Rightarrow> i\<lparr>user_pass_fetched := True\<rparr>
           | Some (u, p) \<Rightarrow>
               (case p of
                  None \<Rightarrow> i\<lparr>username := u, user_pass_fetched := True\<rparr>
                | Some pw \<Rightarrow> i\<lparr>username := u, password := pw, user_pass_fetched := True\<rparr>)))"

definition ensure_user_pass :: "http_request_impl \<Rightarrow> http_request_impl" where
  "ensure_user_pass i = (if user_pass_fetched i then i else (fetch_user_pass i)\<lparr>user_pass_fetched := True\<rparr>)"

section \<open>The request\<close>

record http_request =
  req_path :: string
  req_method :: string
  req_content :: string
  req_content_size_limit :: nat
  req_version :: string
  impl :: http_request_impl

definition size_t_max :: nat where "size_t_max = 2 ^ 64 - 1"

definition make_request :: "mhd_connection option \<Rightarrow> (string \<Rightarrow> string) option \<Rightarrow> http_request" where
  "make_request connection unescaper =
     \<lparr>req_path = [], req_method = [], req_content = [], req_content_size_limit = size_t_max, req_version = [],
      impl = make_request_impl connection unescaper\<rparr>"

definition on_impl :: "(http_request_impl \<Rightarrow> http_request_impl) \<Rightarrow> http_request \<Rightarrow> http_request" where
  "on_impl f r = r\<lparr>impl := f (impl r)\<rparr>"

definition set_arg :: "string \<Rightarrow> string \<Rightarrow> http_request \<Rightarrow> http_request" where
  "set_arg key v r = on_impl (impl_set_arg key v (req_content_size_limit r)) r"

definition set_arg_sized :: "string \<Rightarrow> string \<Rightarrow> nat \<Rightarrow> http_request \<Rightarrow> http_request" where
  "set_arg_sized key v sz r = on_impl (impl_set_arg_sized key v sz (req_content_size_limit r)) r"

definition set_arg_flat :: "string \<Rightarrow> string \<Rightarrow> http_request \<Rightarrow> http_request" where
  "set_arg_flat key v r = on_impl (impl_set_arg_flat key v (req_content_size_limit r)) r"

definition set_args :: "(string \<times> string) list \<Rightarrow> http_request \<Rightarrow> http_request" where
  "set_args args r = on_impl (impl_set_args args (req_content_size_limit r)) r"

definition grow_last_arg :: "string \<Rightarrow> string \<Rightarrow> http_request \<Rightarrow> http_request" where
  "grow_last_arg key v r = on_impl (impl_grow_last_arg key v) r"

definition set_file_cleanup_callback :: "file_cleanup_callback option \<Rightarrow> http_request \<Rightarrow> http_request" where
  "set_file_cleanup_callback callback r = on_impl (\<lambda>i. i\<lparr>req_cleanup := callback\<rparr>) r"

definition set_expose_credentials_in_logs :: "bool \<Rightarrow> http_request \<Rightarrow> http_request" where
  "set_expose_credentials_in_logs v r = on_impl (\<lambda>i. i\<lparr>expose_credentials := v\<rparr>) r"

definition set_content :: "string \<Rightarrow> http_request \<Rightarrow> http_request" where
  "set_content content r = r\<lparr>req_content := take (req_content_size_limit r) content\<rparr>"

definition set_content_size_limit :: "nat \<Rightarrow> http_request \<Rightarrow> http_request" where
  "set_content_size_limit n r = r\<lparr>req_content_size_limit := n\<rparr>"

definition grow_content :: "string \<Rightarrow> http_request \<Rightarrow> http_request" where
  "grow_content chunk r =
     (let c = req_content r @ chunk in
      r\<lparr>req_content := if length c > req_content_size_limit r then take (req_content_size_limit r) c else c\<rparr>)"

definition content_too_large :: "http_request \<Rightarrow> bool" where
  "content_too_large r \<longleftrightarrow> length (req_content r) \<ge> req_content_size_limit r"

definition set_path :: "string \<Rightarrow> http_request \<Rightarrow> http_request" where
  "set_path p r = r\<lparr>req_path := p\<rparr>"

definition set_method :: "string \<Rightarrow> http_request \<Rightarrow> http_request" where
  "set_method m r = r\<lparr>req_method := m\<rparr>"

definition set_version :: "string \<Rightarrow> http_request \<Rightarrow> http_request" where
  "set_version v r = r\<lparr>req_version := v\<rparr>"

definition get_path_pieces :: "http_request \<Rightarrow> string list \<times> http_request" where
  "get_path_pieces r =
     (let r' = on_impl (ensure_path_pieces_cached (req_path r)) r in (path_pieces_cached (impl r'), r'))"

text \<open>The guard compares as \<^verbatim>\<open>int\<close>; a negative index passes it and is converted to a huge position.\<close>

definition get_path_piece :: "int \<Rightarrow> http_request \<Rightarrow> (string \<times> http_request) result" where
  "get_path_piece index r =
     (let (pieces, r') = get_path_pieces r in
      if int (length pieces) > index then
        (if index < 0 then Inl (undefined_behaviour ''vector index out of range'')
         else Inr (pieces ! nat index, r'))
      else Inr ([], r'))"

definition req_get_header :: "string \<Rightarrow> http_request \<Rightarrow> string" where
  "req_get_header key r = get_connection_value key MHD_HEADER_KIND (impl r)"

definition req_get_footer :: "string \<Rightarrow> http_request \<Rightarrow> string" where
  "req_get_footer key r = get_connection_value key MHD_FOOTER_KIND (impl r)"

definition req_get_cookie :: "string \<Rightarrow> http_request \<Rightarrow> string" where
  "req_get_cookie key r = get_connection_value key MHD_COOKIE_KIND (impl r)"

definition req_headerlike :: "MHD_ValueKind \<Rightarrow> http_request \<Rightarrow> (string ordered_map \<times> http_request) result" where
  "req_headerlike kind r =
     bind_result (ensure_headerlike_cache kind (impl r)) (\<lambda>(m, i). Inr (m, r\<lparr>impl := i\<rparr>))"

definition req_get_headers :: "http_request \<Rightarrow> (string ordered_map \<times> http_request) result" where
  "req_get_headers r = req_headerlike MHD_HEADER_KIND r"

definition req_get_footers :: "http_request \<Rightarrow> (string ordered_map \<times> http_request) result" where
  "req_get_footers r = req_headerlike MHD_FOOTER_KIND r"

definition req_get_cookies :: "http_request \<Rightarrow> (string ordered_map \<times> http_request) result" where
  "req_get_cookies r = req_headerlike MHD_COOKIE_KIND r"

definition get_cookies_parsed :: "http_request \<Rightarrow> cookie list \<times> http_request" where
  "get_cookies_parsed r =
     (let r' = on_impl ensure_cookies_parsed_cached r in (cookies_parsed_cached (impl r'), r'))"

definition get_arg :: "string \<Rightarrow> http_request \<Rightarrow> string list \<times> http_request" where
  "get_arg key r =
     (let r' = on_impl populate_args r in
      (case map_find arg_less key (unescaped_args (impl r')) of Some vals \<Rightarrow> (vals, r') | None \<Rightarrow> ([], r')))"

text \<open>\<^verbatim>\<open>http_arg_value::get_flat_value\<close>.\<close>

definition get_flat_value :: "string list \<Rightarrow> string" where
  "get_flat_value vals = (if vals = [] then [] else vals ! 0)"

definition get_arg_flat :: "string \<Rightarrow> http_request \<Rightarrow> (string \<times> http_request) result" where
  "get_arg_flat key r =
     (let r' = on_impl populate_args r in
      (case map_find arg_less key (unescaped_args (impl r')) of
         Some vals \<Rightarrow>
           if vals = [] then Inl (undefined_behaviour ''vector index out of range'') else Inr (vals ! 0, r')
       | None \<Rightarrow> Inr ([], r')))"

definition get_args :: "http_request \<Rightarrow> args_map_t \<times> http_request" where
  "get_args r =
     (let r' = on_impl (ensure_args_view_cached \<circ> populate_args) r in (args_view_cached (impl r'), r'))"

definition get_args_flat :: "http_request \<Rightarrow> string ordered_map \<times> http_request" where
  "get_args_flat r =
     (let r' = on_impl (ensure_args_flat_view_cached \<circ> populate_args) r in (args_flat_view_cached (impl r'), r'))"

text \<open>\<^verbatim>\<open>files_[key][upload_file_name]\<close>: both levels are created on demand.\<close>

definition find_file_info :: "string \<Rightarrow> string \<Rightarrow> http_request \<Rightarrow> file_info" where
  "find_file_info key fname r =
     (case map_find string_less key (req_files (impl r)) of
        Some m \<Rightarrow> (case map_find string_less fname m of Some f \<Rightarrow> f | None \<Rightarrow> default_file_info)
      | None \<Rightarrow> default_file_info)"

definition put_file_info :: "string \<Rightarrow> string \<Rightarrow> file_info \<Rightarrow> http_request \<Rightarrow> http_request" where
  "put_file_info key fname f r =
     on_impl (\<lambda>i.
       i\<lparr>req_files :=
         insert_or_assign string_less key
           (insert_or_assign string_less fname f
             (case map_find string_less key (req_files i) of Some m \<Rightarrow> m | None \<Rightarrow> []))
           (req_files i)\<rparr>) r"

definition get_or_create_file_info :: "string \<Rightarrow> string \<Rightarrow> http_request \<Rightarrow> file_info \<times> http_request" where
  "get_or_create_file_info key fname r =
     (let f = find_file_info key fname r in (f, put_file_info key fname f r))"

definition get_querystring :: "http_request \<Rightarrow> string \<times> http_request" where
  "get_querystring r =
     (let i = impl r;
          i' = (if querystring_built i then i
                else
                  (case req_connection i of
                     None \<Rightarrow> i\<lparr>querystring_built := True\<rparr>
                   | Some c \<Rightarrow>
                       i\<lparr>querystring :=
                           mhd_iterate build_request_querystring (conn_values c MHD_GET_ARGUMENT_KIND) (querystring i),
                         querystring_built := True\<rparr>))
      in (querystring i', r\<lparr>impl := i'\<rparr>))"

definition get_requestor ::
  "(sa_family \<Rightarrow> 8 word list \<Rightarrow> string) \<Rightarrow> http_request \<Rightarrow> (string \<times> http_request) result" where
  "get_requestor ntop r =
     (let i = impl r in
      if requestor_ip_cached i \<or> req_connection i = None then Inr (requestor_ip i, r)
      else
        (case conn_client_addr (the (req_connection i)) of
           None \<Rightarrow> Inr ([], r)
         | Some addr \<Rightarrow>
             bind_result (get_ip_str ntop addr)
               (\<lambda>ip. Inr (ip, r\<lparr>impl := i\<lparr>requestor_ip := ip, requestor_ip_cached := True\<rparr>\<rparr>))))"

definition get_requestor_port :: "http_request \<Rightarrow> 16 word result" where
  "get_requestor_port r =
     (case req_connection (impl r) of
        None \<Rightarrow> Inr (requestor_port_local (impl r))
      | Some c \<Rightarrow> (case conn_client_addr c of None \<Rightarrow> Inr 0 | Some addr \<Rightarrow> get_port addr))"

definition get_user :: "http_request \<Rightarrow> string \<times> http_request" where
  "get_user r = (let r' = on_impl ensure_user_pass r in (username (impl r'), r'))"

definition get_pass :: "http_request \<Rightarrow> string \<times> http_request" where
  "get_pass r = (let r' = on_impl ensure_user_pass r in (password (impl r'), r'))"

definition get_digested_user :: "http_request \<Rightarrow> string \<times> http_request" where
  "get_digested_user r =
     (let i = impl r in
      if digested_user i \<noteq> [] \<or> req_connection i = None then (digested_user i, r)
      else
        (let u = (case conn_digest_user (the (req_connection i)) of Some (Some name) \<Rightarrow> name | _ \<Rightarrow> []) in
         (u, r\<lparr>impl := i\<lparr>digested_user := u\<rparr>\<rparr>)))"

definition check_digest_auth ::
  "string \<Rightarrow> string \<Rightarrow> nat \<Rightarrow> 32 word \<Rightarrow> digest_algorithm \<Rightarrow> http_request \<Rightarrow> digest_auth_result \<times> http_request" where
  "check_digest_auth realm passwd nonce_timeout max_nc algo r =
     (case req_connection (impl r) of
        None \<Rightarrow> (WRONG_HEADER, r)
      | Some c \<Rightarrow>
          (let (u, r') = get_digested_user r in
           (conn_digest_check c (c_str realm) (c_str u) (c_str passwd) nonce_timeout max_nc algo, r')))"

text \<open>The destructor: the paths that are removed, in order.\<close>

definition should_delete :: "file_cleanup_callback option \<Rightarrow> string \<Rightarrow> string \<Rightarrow> file_info \<Rightarrow> bool" where
  "should_delete callback key fname f =
     (case callback of None \<Rightarrow> True | Some cb \<Rightarrow> (case cb key fname f of Inl e \<Rightarrow> True | Inr b \<Rightarrow> b))"

definition destroy_request :: "http_request \<Rightarrow> string list" where
  "destroy_request r =
     concat (map (\<lambda>(key, by_filename).
         map (\<lambda>(fname, f). fi_file_system_file_name f)
           (filter (\<lambda>(fname, f). should_delete (req_cleanup (impl r)) key fname f) by_filename))
       (req_files (impl r)))"

section \<open>The printout\<close>

definition kRedacted :: string where
  "kRedacted = ''<redacted>''"

definition iequal_ascii :: "string \<Rightarrow> string \<Rightarrow> bool" where
  "iequal_ascii a b \<longleftrightarrow>
     (if length a \<noteq> length b then False
      else list_all2 (\<lambda>x y. http_header_toupper x = http_header_toupper y) a b)"

definition is_authorization_header_key :: "string \<Rightarrow> bool" where
  "is_authorization_header_key key \<longleftrightarrow>
     iequal_ascii key ''Authorization'' \<or> iequal_ascii key ''Proxy-Authorization''"

definition dump_map_redacted :: "string \<Rightarrow> string ordered_map \<Rightarrow> (string \<times> string \<Rightarrow> string) \<Rightarrow> string" where
  "dump_map_redacted label m value_for =
     (if m = [] then []
      else ''    '' @ label @ '' ['' @
           concat (map (\<lambda>kv. fst kv @ CHR '':'' # CHR 0x22 # value_for kv @ CHR 0x22 # '' '') m) @ '']'' @ [LF])"

definition dump_header_map_redacted :: "string \<Rightarrow> string ordered_map \<Rightarrow> string" where
  "dump_header_map_redacted label m =
     dump_map_redacted label m (\<lambda>kv. if is_authorization_header_key (fst kv) then kRedacted else snd kv)"

definition dump_cookie_map_redacted :: "string \<Rightarrow> string ordered_map \<Rightarrow> string" where
  "dump_cookie_map_redacted label m = dump_map_redacted label m (\<lambda>kv. kRedacted)"

definition dump_header_map :: "string \<Rightarrow> string ordered_map \<Rightarrow> string" where
  "dump_header_map label m =
     (if length m \<noteq> 0 then
        ''    '' @ label @ '' ['' @
        concat (map (\<lambda>kv. fst kv @ CHR '':'' # CHR 0x22 # snd kv @ CHR 0x22 # '' '') m) @ '']'' @ [LF]
      else [])"

definition dump_arg_map :: "string \<Rightarrow> args_map_t \<Rightarrow> string" where
  "dump_arg_map label m =
     (if length m \<noteq> 0 then
        ''    '' @ label @ '' ['' @
        concat (map (\<lambda>kv. fst kv @ '':['' @
            join '', '' (map (\<lambda>v. CHR 0x22 # v @ [CHR 0x22]) (snd kv)) @ ''] '') m) @ '']'' @ [LF]
      else [])"

definition request_line :: "string \<Rightarrow> string \<Rightarrow> string \<Rightarrow> string \<Rightarrow> string" where
  "request_line meth user pass_out path =
     meth @ '' Request ['' @ ''user:'' @ CHR 0x22 # user @ CHR 0x22 # '' '' @
     ''pass:'' @ CHR 0x22 # pass_out @ CHR 0x22 # ''] path:'' @ CHR 0x22 # path @ CHR 0x22 # [LF]"

definition requestor_line :: "string \<Rightarrow> string \<Rightarrow> 16 word \<Rightarrow> string" where
  "requestor_line version ip port =
     ''    Version [ '' @ version @ '' ] Requestor [ '' @ ip @ '' ] Port [ '' @ show_nat (unat port) @ '' ]'' @ [LF]"

definition print_request ::
  "(sa_family \<Rightarrow> 8 word list \<Rightarrow> string) \<Rightarrow> http_request \<Rightarrow> (string \<times> http_request) result" where
  "print_request ntop r =
     (let expose = expose_credentials (impl r);
          dump_headers = (if expose then dump_header_map else dump_header_map_redacted);
          dump_cookies = (if expose then dump_header_map else dump_cookie_map_redacted);
          (pass_out, r1) = (if expose then get_pass r else (kRedacted, r));
          (user, r2) = get_user r1;
          line = request_line (req_method r2) user pass_out (req_path r2)
      in bind_result (req_get_headers r2) (\<lambda>(hs, r3).
         bind_result (req_get_footers r3) (\<lambda>(fs, r4).
         bind_result (req_get_cookies r4) (\<lambda>(cs, r5).
         (let (args, r6) = get_args r5 in
          bind_result (get_requestor ntop r6) (\<lambda>(ip, r7).
          bind_result (get_requestor_port r7) (\<lambda>port.
          Inr (line @ dump_headers ''Headers'' hs @ dump_headers ''Footers'' fs @ dump_cookies ''Cookies'' cs @
               dump_arg_map ''Query Args'' args @
               requestor_line (req_version r7) ip port, r7))))))))"

section \<open>Maps that are rebuilt and extended\<close>

context key_order
begin

lemma emplace_insert: "map_find lt k m = None \<Longrightarrow> map_emplace lt k v m = insert_or_assign lt k v m"
  by (induction m) (auto split: if_splits)

lemma insert_insert: "insert_or_assign lt k v (insert_or_assign lt k u m) = insert_or_assign lt k v m"
  using lt_irrefl [of k k] by (induction m) auto

lemma insert_length:
  "length (insert_or_assign lt k v m) = length m + (if map_find lt k m = None then 1 else 0)"
  by (induction m) auto

lemma insert_values: "snd ` set (insert_or_assign lt k v m) \<subseteq> insert v (snd ` set m)"
  by (induction m) auto

lemma insert_last: "(\<And>e. e \<in> set m \<Longrightarrow> lt (fst e) k) \<Longrightarrow> insert_or_assign lt k v m = m @ [(k, v)]"
  by (induction m) auto

lemma find_last: "(\<And>e. e \<in> set m \<Longrightarrow> lt (fst e) k) \<Longrightarrow> map_find lt k m = None"
  by (induction m) auto

lemma map_ok_snoc: "map_ok (m @ e # m') \<Longrightarrow> x \<in> set m \<Longrightarrow> lt (fst x) (fst e)"
  by (auto simp: map_ok_def sorted_wrt_append)

end

definition arg_values :: "args_map_t \<Rightarrow> string \<Rightarrow> string list" where
  "arg_values m k = (case map_find arg_less k m of Some vals \<Rightarrow> vals | None \<Rightarrow> [])"

lemma find_or_insert_arg_insert:
  "insert_or_assign arg_less key vs (fst (find_or_insert_arg m key)) = insert_or_assign arg_less key vs m"
  "snd (find_or_insert_arg m key) = arg_values m key"
  by (auto simp: find_or_insert_arg_def arg_values_def arg.emplace_insert arg.insert_insert split: option.splits)

lemma append_arg_insert: "append_arg m k v = insert_or_assign arg_less k (arg_values m k @ [v]) m"
  by (simp add: append_arg_def case_prod_beta find_or_insert_arg_insert)

definition args_ok :: "args_map_t \<Rightarrow> bool" where
  "args_ok m \<longleftrightarrow> arg.map_ok m \<and> [] \<notin> snd ` set m"

lemma args_ok_insert: "args_ok m \<Longrightarrow> vs \<noteq> [] \<Longrightarrow> args_ok (insert_or_assign arg_less k vs m)"
  using arg.insert_values [of k vs m] by (auto simp: args_ok_def arg.insert_ok)

lemma args_ok_append: "args_ok m \<Longrightarrow> args_ok (append_arg m k v)"
  by (simp add: append_arg_insert args_ok_insert)

lemma args_ok_fold: "args_ok m \<Longrightarrow> args_ok (fold (\<lambda>kv m. append_arg m (f kv) (g kv)) kvs m)"
  by (induction kvs arbitrary: m) (auto intro: args_ok_append)

lemma arg_values_insert:
  "args_ok m \<Longrightarrow> arg_values (insert_or_assign arg_less k vs m) k' = (if k' = k then vs else arg_values m k')"
  by (simp add: arg_values_def args_ok_def arg.find_insert)

lemma arg_values_append:
  "args_ok m \<Longrightarrow> arg_values (append_arg m k v) k' = arg_values m k' @ (if k' = k then [v] else [])"
  by (simp add: append_arg_insert arg_values_insert)

lemma arg_values_fold:
  "args_ok m \<Longrightarrow>
    arg_values (fold (\<lambda>kv m. append_arg m (f kv) (g kv)) kvs m) k =
    arg_values m k @ map g (filter (\<lambda>kv. f kv = k) kvs)"
  by (induction kvs arbitrary: m) (auto simp: arg_values_append args_ok_append)

lemma find_arg_not_Nil: "args_ok m \<Longrightarrow> map_find arg_less k m = Some vals \<Longrightarrow> vals \<noteq> []"
  by (force simp: args_ok_def arg.find_Some_member)

lemma rebuild_view_from:
  "arg.map_ok (acc @ m) \<Longrightarrow>
    fold (\<lambda>(key, vals) m.
        insert_or_assign arg_less key ((case map_find arg_less key m of Some a \<Rightarrow> a | None \<Rightarrow> []) @ vals) m) m acc = acc @ m"
proof (induction m arbitrary: acc)
  case (Cons e m)
  have below: "\<And>x. x \<in> set acc \<Longrightarrow> arg_less (fst x) (fst e)"
    using arg.map_ok_snoc [OF Cons.prems] .
  have "arg.map_ok ((acc @ [e]) @ m)" using Cons.prems by simp
  from Cons.IH [OF this] show ?case
    using arg.insert_last [OF below] arg.find_last [OF below] by (cases e) simp
qed simp

lemma rebuild_view:
  "args_ok m \<Longrightarrow>
    fold (\<lambda>(key, vals) m.
        insert_or_assign arg_less key ((case map_find arg_less key m of Some a \<Rightarrow> a | None \<Rightarrow> []) @ vals) m) m [] = m"
  using rebuild_view_from [of "[]" m] by (simp add: args_ok_def)

section \<open>The arguments that pass the limits\<close>

lemma unescape_in_arena_decode: "unescape_in_arena None v = decode v"
  using http_unescape_decode [of v] by (auto simp: unescape_in_arena_def http_unescape_def case_prod_beta split: if_splits)

abbreviation arg_text :: "string option \<Rightarrow> string" where
  "arg_text v \<equiv> (case v of Some t \<Rightarrow> t | None \<Rightarrow> [])"

definition arg_limits :: "mhd_connection \<Rightarrow> nat \<times> nat" where
  "arg_limits c =
     (case conn_socket_context c of
        None \<Rightarrow> (DEFAULT_MAX_ARGS_COUNT, DEFAULT_MAX_ARGS_BYTES)
      | Some cs \<Rightarrow>
          (if max_args_count cs \<noteq> 0 then max_args_count cs else DEFAULT_MAX_ARGS_COUNT,
           if max_args_bytes cs \<noteq> 0 then max_args_bytes cs else DEFAULT_MAX_ARGS_BYTES))"

definition add_args :: "(string \<Rightarrow> string) option \<Rightarrow> (string \<times> string option) list \<Rightarrow> args_map_t \<Rightarrow> args_map_t" where
  "add_args u kvs m = fold (\<lambda>kv m. append_arg m (fst kv) (unescape_in_arena u (arg_text (snd kv)))) kvs m"

definition pair_bytes :: "(string \<times> string option) list \<Rightarrow> nat" where
  "pair_bytes kvs = sum_list (map (\<lambda>kv. length (fst kv) + length (arg_text (snd kv))) kvs)"

lemma append_arg_length: "length (append_arg m k v) = length m + (if map_find arg_less k m = None then 1 else 0)"
  by (simp add: append_arg_insert arg.insert_length)

lemma add_args_length: "length (add_args u kvs m) \<le> length m + length kvs"
proof (induction kvs arbitrary: m)
  case (Cons kv kvs)
  define m' where "m' = append_arg m (fst kv) (unescape_in_arena u (arg_text (snd kv)))"
  have "length m' \<le> Suc (length m)" by (simp add: m'_def append_arg_length)
  moreover have "add_args u (kv # kvs) m = add_args u kvs m'" by (simp add: add_args_def m'_def)
  ultimately show ?case using Cons.IH [of m'] by simp
qed (simp add: add_args_def)

text \<open>The state of the accumulator after a prefix of the pairs: the pairs of the prefix are in the map, and
  both limits hold of it.\<close>

lemma build_request_args_prefix:
  "\<exists>n \<le> length kvs.
     aa_arguments (mhd_iterate build_request_args kvs aa) = add_args (aa_unescaper aa) (take n kvs) (aa_arguments aa) \<and>
     (n = 0 \<or> length (add_args (aa_unescaper aa) (take n kvs) (aa_arguments aa)) \<le> aa_max_args_count aa \<and>
              aa_accumulated_bytes aa + pair_bytes (take n kvs) \<le> aa_max_args_bytes aa) \<and>
     (n < length kvs \<longrightarrow>
        aa_max_args_count aa < length (add_args (aa_unescaper aa) (take (Suc n) kvs) (aa_arguments aa)) \<or>
        aa_max_args_bytes aa < aa_accumulated_bytes aa + pair_bytes (take (Suc n) kvs))"
proof (induction kvs arbitrary: aa)
  case (Cons kv kvs)
  let ?v = "arg_text (snd kv)"
  let ?m = "append_arg (aa_arguments aa) (fst kv) (unescape_in_arena (aa_unescaper aa) ?v)"
  let ?b = "length (fst kv) + length ?v"
  let ?aa = "aa\<lparr>aa_accumulated_bytes := aa_accumulated_bytes aa + ?b, aa_arguments := ?m\<rparr>"
  show ?case
  proof (cases "length ?m \<le> aa_max_args_count aa \<and> aa_accumulated_bytes aa + ?b \<le> aa_max_args_bytes aa")
    case False
    then have "build_request_args (fst kv) (snd kv) aa = (False, aa)"
      by (auto simp: build_request_args_def Let_def append_arg_length)
    with False show ?thesis by (intro exI [of _ 0]) (auto simp: add_args_def pair_bytes_def)
  next
    case True
    then have step: "build_request_args (fst kv) (snd kv) aa = (True, ?aa)"
      by (auto simp: build_request_args_def Let_def append_arg_length)
    from Cons.IH [of ?aa] obtain n where n: "n \<le> length kvs"
      "aa_arguments (mhd_iterate build_request_args kvs ?aa) = add_args (aa_unescaper aa) (take n kvs) ?m"
      "n = 0 \<or> length (add_args (aa_unescaper aa) (take n kvs) ?m) \<le> aa_max_args_count aa \<and>
         aa_accumulated_bytes aa + ?b + pair_bytes (take n kvs) \<le> aa_max_args_bytes aa"
      "n < length kvs \<longrightarrow>
         aa_max_args_count aa < length (add_args (aa_unescaper aa) (take (Suc n) kvs) ?m) \<or>
         aa_max_args_bytes aa < aa_accumulated_bytes aa + ?b + pair_bytes (take (Suc n) kvs)"
      by auto
    show ?thesis
    proof (intro exI [of _ "Suc n"] conjI)
      show "Suc n \<le> length (kv # kvs)" using n(1) by simp
      show "aa_arguments (mhd_iterate build_request_args (kv # kvs) aa) =
          add_args (aa_unescaper aa) (take (Suc n) (kv # kvs)) (aa_arguments aa)"
        using n(2) step by (simp add: add_args_def)
      show "Suc n = 0 \<or> length (add_args (aa_unescaper aa) (take (Suc n) (kv # kvs)) (aa_arguments aa)) \<le> aa_max_args_count aa \<and>
          aa_accumulated_bytes aa + pair_bytes (take (Suc n) (kv # kvs)) \<le> aa_max_args_bytes aa"
        using n(3) True by (cases n) (auto simp: add_args_def pair_bytes_def)
      show "Suc n < length (kv # kvs) \<longrightarrow>
          aa_max_args_count aa < length (add_args (aa_unescaper aa) (take (Suc (Suc n)) (kv # kvs)) (aa_arguments aa)) \<or>
          aa_max_args_bytes aa < aa_accumulated_bytes aa + pair_bytes (take (Suc (Suc n)) (kv # kvs))"
        using n(4) by (auto simp: add_args_def pair_bytes_def)
    qed
  qed
qed (simp add: add_args_def pair_bytes_def)

lemma populate_args_live:
  assumes "\<not> args_populated i" "req_connection i = Some c"
  shows "populate_args i =
    i\<lparr>unescaped_args := aa_arguments (mhd_iterate build_request_args (conn_values c MHD_GET_ARGUMENT_KIND)
        \<lparr>aa_unescaper = req_unescaper i, aa_arguments = unescaped_args i, aa_max_args_count = fst (arg_limits c),
         aa_max_args_bytes = snd (arg_limits c), aa_accumulated_bytes = 0\<rparr>), args_populated := True\<rparr>"
  using assms by (simp add: populate_args_def arg_limits_def case_prod_beta Let_def split: option.splits)

text \<open>The bytes of keys and values a map holds.\<close>

definition values_bytes :: "string list \<Rightarrow> nat" where
  "values_bytes vs = sum_list (map length vs)"

definition arg_bytes :: "args_map_t \<Rightarrow> nat" where
  "arg_bytes m = sum_list (map (\<lambda>e. length (fst e) + values_bytes (snd e)) m)"

lemma arg_bytes_insert:
  "(case map_find arg_less k m of None \<Rightarrow> 0 | Some old \<Rightarrow> values_bytes old) + arg_bytes (insert_or_assign arg_less k vs m) =
    arg_bytes m + values_bytes vs + (if map_find arg_less k m = None then length k else 0)"
  by (induction m) (auto simp: arg_bytes_def split: option.splits)

lemma arg_bytes_append: "arg_bytes (append_arg m k v) \<le> arg_bytes m + length k + length v"
  using arg_bytes_insert [of k m "arg_values m k @ [v]"]
  by (auto simp: append_arg_insert arg_values_def values_bytes_def split: option.splits if_splits)

lemma arg_bytes_add: "arg_bytes (add_args None kvs m) \<le> arg_bytes m + pair_bytes kvs"
proof (induction kvs arbitrary: m)
  case (Cons kv kvs)
  define t where "t = arg_text (snd kv)"
  let ?m = "append_arg m (fst kv) (unescape_in_arena None t)"
  have "add_args None (kv # kvs) m = add_args None kvs ?m" by (simp add: add_args_def t_def)
  moreover have "arg_bytes ?m \<le> arg_bytes m + length (fst kv) + length t"
    using arg_bytes_append [of m "fst kv" "unescape_in_arena None t"] length_decode_le [of t]
    by (simp add: unescape_in_arena_decode)
  moreover have "pair_bytes (kv # kvs) = length (fst kv) + length t + pair_bytes kvs"
    by (simp add: pair_bytes_def t_def)
  ultimately show ?case using Cons.IH [of ?m] by simp
qed (simp add: add_args_def pair_bytes_def)

lemma populate_args_prefix:
  assumes "\<not> args_populated i" "req_connection i = Some c"
  defines "kvs \<equiv> conn_values c MHD_GET_ARGUMENT_KIND"
  obtains n where "n \<le> length kvs"
    "unescaped_args (populate_args i) = add_args (req_unescaper i) (take n kvs) (unescaped_args i)"
    "n = 0 \<or> length (add_args (req_unescaper i) (take n kvs) (unescaped_args i)) \<le> fst (arg_limits c) \<and>
       pair_bytes (take n kvs) \<le> snd (arg_limits c)"
    "n < length kvs \<longrightarrow>
       fst (arg_limits c) < length (add_args (req_unescaper i) (take (Suc n) kvs) (unescaped_args i)) \<or>
       snd (arg_limits c) < pair_bytes (take (Suc n) kvs)"
  using build_request_args_prefix [of kvs "\<lparr>aa_unescaper = req_unescaper i, aa_arguments = unescaped_args i,
      aa_max_args_count = fst (arg_limits c), aa_max_args_bytes = snd (arg_limits c), aa_accumulated_bytes = 0\<rparr>"]
    populate_args_live [OF assms(1,2)] that by (auto simp: kvs_def)

lemma add_args_values:
  "args_ok m \<Longrightarrow>
    arg_values (add_args u kvs m) k =
    arg_values m k @ map (\<lambda>kv. unescape_in_arena u (arg_text (snd kv))) (filter (\<lambda>kv. fst kv = k) kvs)"
  by (simp add: add_args_def arg_values_fold)

lemma add_args_ok: "args_ok m \<Longrightarrow> args_ok (add_args u kvs m)"
  by (simp add: add_args_def args_ok_fold)

lemma populate_args_ok: "args_ok (unescaped_args i) \<Longrightarrow> args_ok (unescaped_args (populate_args i))"
proof (cases "args_populated i \<or> req_connection i = None")
  case False
  then obtain c where "\<not> args_populated i" "req_connection i = Some c" by auto
  then show "args_ok (unescaped_args i) \<Longrightarrow> ?thesis" by (rule populate_args_prefix) (simp add: add_args_ok)
qed (auto simp: populate_args_def)

section \<open>Histories of a request\<close>

text \<open>Everything that reads or changes a request between its construction and its destruction.\<close>

datatype request_op =
    Set_Arg string string
  | Set_Arg_Sized string string nat
  | Set_Arg_Flat string string
  | Set_Args "(string \<times> string) list"
  | Grow_Last_Arg string string
  | Set_Content string
  | Set_Content_Size_Limit nat
  | Grow_Content string
  | Set_Path string
  | Set_Method string
  | Set_Version string
  | Set_Expose bool
  | Put_File_Info string string file_info
  | Get_Arg string
  | Get_Args
  | Get_Args_Flat
  | Get_Path_Pieces
  | Get_Querystring
  | Get_User
  | Get_Digested_User
  | Get_Cookies_Parsed
  | Get_Headerlike MHD_ValueKind
  | Get_Requestor "sa_family \<Rightarrow> 8 word list \<Rightarrow> string"
  | Set_Cleanup "file_cleanup_callback option"

primrec request_do :: "request_op \<Rightarrow> http_request \<Rightarrow> http_request" where
  "request_do (Set_Arg k v) r = set_arg k v r"
| "request_do (Set_Arg_Sized k v n) r = set_arg_sized k v n r"
| "request_do (Set_Arg_Flat k v) r = set_arg_flat k v r"
| "request_do (Set_Args kvs) r = set_args kvs r"
| "request_do (Grow_Last_Arg k v) r = grow_last_arg k v r"
| "request_do (Set_Content c) r = set_content c r"
| "request_do (Set_Content_Size_Limit n) r = set_content_size_limit n r"
| "request_do (Grow_Content c) r = grow_content c r"
| "request_do (Set_Path p) r = set_path p r"
| "request_do (Set_Method m) r = set_method m r"
| "request_do (Set_Version v) r = set_version v r"
| "request_do (Set_Expose b) r = set_expose_credentials_in_logs b r"
| "request_do (Put_File_Info k n f) r = put_file_info k n f r"
| "request_do (Get_Arg k) r = snd (get_arg k r)"
| "request_do Get_Args r = snd (get_args r)"
| "request_do Get_Args_Flat r = snd (get_args_flat r)"
| "request_do Get_Path_Pieces r = snd (get_path_pieces r)"
| "request_do Get_Querystring r = snd (get_querystring r)"
| "request_do Get_User r = snd (get_user r)"
| "request_do Get_Digested_User r = snd (get_digested_user r)"
| "request_do Get_Cookies_Parsed r = snd (get_cookies_parsed r)"
| "request_do (Get_Headerlike kind) r = (case req_headerlike kind r of Inr (m, r') \<Rightarrow> r' | Inl e \<Rightarrow> r)"
| "request_do (Get_Requestor ntop) r = (case get_requestor ntop r of Inr (ip, r') \<Rightarrow> r' | Inl e \<Rightarrow> r)"
| "request_do (Set_Cleanup callback) r = set_file_cleanup_callback callback r"

definition impl_inv :: "http_request_impl \<Rightarrow> bool" where
  "impl_inv i \<longleftrightarrow>
     args_ok (unescaped_args i) \<and>
     (args_view_cache_built i \<longrightarrow> args_populated i \<and> args_view_cached i = unescaped_args i)"

definition request_inv :: "http_request \<Rightarrow> bool" where
  "request_inv r \<longleftrightarrow> impl_inv (impl r)"

lemma request_inv_make: "request_inv (make_request c u)"
  by (simp add: request_inv_def impl_inv_def make_request_def make_request_impl_def args_ok_def arg.map_ok_Nil)

lemma populate_args_fields:
  "args_populated (populate_args i)" "args_view_cached (populate_args i) = args_view_cached i"
  "args_view_cache_built (populate_args i) = args_view_cache_built i"
  "args_populated i \<Longrightarrow> populate_args i = i"
  by (auto simp: populate_args_def Let_def case_prod_beta split: option.splits)

lemma impl_inv_populate: "impl_inv i \<Longrightarrow> impl_inv (populate_args i)"
  using populate_args_ok [of i] populate_args_fields by (auto simp: impl_inv_def)

lemma impl_inv_view:
  assumes "impl_inv i" "args_populated i"
  shows "impl_inv (ensure_args_view_cached i)" "args_view_cached (ensure_args_view_cached i) = unescaped_args i"
proof -
  have "args_ok (unescaped_args i)" using assms by (simp add: impl_inv_def)
  with assms show "impl_inv (ensure_args_view_cached i)" "args_view_cached (ensure_args_view_cached i) = unescaped_args i"
    unfolding ensure_args_view_cached_def rebuild_view [OF \<open>args_ok (unescaped_args i)\<close>]
    by (auto simp: impl_inv_def)
qed

lemma impl_inv_frame:
  "impl_inv i \<Longrightarrow> unescaped_args j = unescaped_args i \<Longrightarrow> args_view_cache_built j = args_view_cache_built i \<Longrightarrow>
    args_view_cached j = args_view_cached i \<Longrightarrow> args_populated j = args_populated i \<Longrightarrow> impl_inv j"
  by (simp add: impl_inv_def)

lemma impl_inv_args:
  "impl_inv i \<Longrightarrow> args_ok m \<Longrightarrow> impl_inv (i\<lparr>args_view_cache_built := False, unescaped_args := m\<rparr>)"
  by (simp add: impl_inv_def)

lemma impl_inv_setters:
  assumes "impl_inv i"
  shows "impl_inv (impl_set_arg k v n i)" "impl_inv (impl_set_arg_sized k v sz n i)"
    "impl_inv (impl_set_arg_flat k v n i)" "impl_inv (impl_set_args kvs n i)" "impl_inv (impl_grow_last_arg k v i)"
proof -
  have ok: "args_ok (unescaped_args i)" using assms by (simp add: impl_inv_def)
  show "impl_inv (impl_set_arg k v n i)" "impl_inv (impl_set_arg_sized k v sz n i)"
    unfolding impl_set_arg_def impl_set_arg_sized_def by (intro impl_inv_args assms args_ok_append ok)+
  show "impl_inv (impl_set_arg_flat k v n i)"
    unfolding impl_set_arg_flat_def case_prod_beta Let_def find_or_insert_arg_insert
    by (intro impl_inv_args assms args_ok_insert ok) simp
  show "impl_inv (impl_set_args kvs n i)"
    unfolding impl_set_args_def case_prod_beta by (intro impl_inv_args assms args_ok_fold ok)
  show "impl_inv (impl_grow_last_arg k v i)"
    unfolding impl_grow_last_arg_def case_prod_beta Let_def find_or_insert_arg_insert
    by (intro impl_inv_args assms args_ok_insert ok) simp
qed

lemmas request_ops = set_arg_def set_arg_sized_def set_arg_flat_def set_args_def grow_last_arg_def set_content_def
  set_content_size_limit_def grow_content_def set_path_def set_method_def set_version_def
  set_expose_credentials_in_logs_def set_file_cleanup_callback_def put_file_info_def get_arg_def get_args_def get_args_flat_def get_path_pieces_def
  get_querystring_def get_user_def get_digested_user_def get_cookies_parsed_def on_impl_def

lemma impl_inv_getters:
  assumes "impl_inv i"
  shows "impl_inv (ensure_path_pieces_cached p i)" "impl_inv (ensure_user_pass i)"
    "impl_inv (ensure_cookies_parsed_cached i)" "impl_inv (ensure_args_flat_view_cached i)"
  using assms
  by (auto simp: ensure_path_pieces_cached_def ensure_user_pass_def fetch_user_pass_def
      ensure_cookies_parsed_cached_def ensure_args_flat_view_cached_def impl_inv_def split: option.splits prod.splits)

lemma impl_inv_headerlike: "impl_inv i \<Longrightarrow> impl_inv (set_headerlike_cache kind m i)"
  by (cases kind) (simp_all add: impl_inv_def)

lemma request_inv_do: "request_inv r \<Longrightarrow> request_inv (request_do opn r)"
proof (induction opn)
  case Get_Querystring
  then show ?case by (auto simp: request_inv_def request_ops impl_inv_def Let_def split: option.splits)
next
  case Get_Digested_User
  then show ?case by (auto simp: request_inv_def request_ops impl_inv_def Let_def split: option.splits)
next
  case (Get_Arg k)
  then show ?case
    by (auto simp: request_inv_def request_ops Let_def impl_inv_populate split: option.splits)
next
  case (Put_File_Info k n f)
  then show ?case by (auto simp: request_inv_def request_ops impl_inv_def)
next
  case (Get_Headerlike kind)
  then show ?case
    by (cases "headerlike_cache kind (impl r)")
      (auto simp: request_inv_def req_headerlike_def ensure_headerlike_cache_def impl_inv_headerlike bind_result_Inr_iff
        split: sum.splits if_splits)
next
  case (Get_Requestor ntop)
  then show ?case
    by (auto simp: request_inv_def get_requestor_def Let_def impl_inv_def bind_result_def split: option.splits sum.splits if_splits)
next
  case (Set_Cleanup callback)
  then show ?case by (auto simp: request_inv_def request_ops impl_inv_def)
qed (auto simp: request_inv_def request_ops Let_def impl_inv_setters impl_inv_populate
    impl_inv_view populate_args_fields impl_inv_getters impl_inv_frame)

lemma request_inv_history: "request_inv r \<Longrightarrow> request_inv (fold request_do ops r)"
  by (induction ops arbitrary: r) (auto intro: request_inv_do)

section \<open>What a printout may depend on\<close>

text \<open>The secrets of a request: the password, the values of authorization headers and footers, and the
  values of cookies, wherever the request or its connection holds them.\<close>

definition credential_field :: "string \<Rightarrow> bool" where
  "credential_field k \<longleftrightarrow>
     header_norm k = header_norm ''Authorization'' \<or> header_norm k = header_norm ''Proxy-Authorization''"

fun hide_value :: "MHD_ValueKind \<Rightarrow> string \<Rightarrow> string \<Rightarrow> string" where
  "hide_value MHD_HEADER_KIND k v = (if credential_field k then [] else v)"
| "hide_value MHD_FOOTER_KIND k v = (if credential_field k then [] else v)"
| "hide_value MHD_COOKIE_KIND k v = []"
| "hide_value MHD_GET_ARGUMENT_KIND k v = v"

definition hide_map :: "MHD_ValueKind \<Rightarrow> string ordered_map \<Rightarrow> string ordered_map" where
  "hide_map kind m = map (\<lambda>e. (fst e, hide_value kind (fst e) (snd e))) m"

definition hide_pairs :: "MHD_ValueKind \<Rightarrow> (string \<times> string option) list \<Rightarrow> (string \<times> string option) list" where
  "hide_pairs kind kvs = map (\<lambda>e. (fst e, map_option (hide_value kind (fst e)) (snd e))) kvs"

definition hide_connection :: "mhd_connection \<Rightarrow> mhd_connection" where
  "hide_connection c =
     c\<lparr>conn_values := \<lambda>kind. hide_pairs kind (conn_values c kind),
       conn_basic_auth := map_option (\<lambda>(u, p). (u, map_option (\<lambda>_. []) p)) (conn_basic_auth c)\<rparr>"

definition hide_impl :: "http_request_impl \<Rightarrow> http_request_impl" where
  "hide_impl i =
     i\<lparr>req_connection := map_option hide_connection (req_connection i), password := [],
       headers_local := hide_map MHD_HEADER_KIND (headers_local i),
       footers_local := hide_map MHD_FOOTER_KIND (footers_local i),
       cookies_local := hide_map MHD_COOKIE_KIND (cookies_local i),
       headers_cached := hide_map MHD_HEADER_KIND (headers_cached i),
       footers_cached := hide_map MHD_FOOTER_KIND (footers_cached i),
       cookies_cached := hide_map MHD_COOKIE_KIND (cookies_cached i)\<rparr>"

definition hide_secrets :: "http_request \<Rightarrow> http_request" where
  "hide_secrets r = on_impl hide_impl r"

lemma iequal_ascii_norm: "iequal_ascii a b \<longleftrightarrow> header_norm a = header_norm b"
proof -
  have "list_all2 (\<lambda>x y. http_header_toupper x = http_header_toupper y) a b \<longleftrightarrow>
      map http_header_toupper a = map http_header_toupper b"
    by (simp add: list.rel_eq [symmetric] list.rel_map)
  then show ?thesis
    using map_eq_imp_length_eq [of http_header_toupper a http_header_toupper b]
    by (auto simp: iequal_ascii_def map_header_toupper_iff)
qed

lemma authorization_key: "is_authorization_header_key k \<longleftrightarrow> credential_field k"
  by (simp add: is_authorization_header_key_def credential_field_def iequal_ascii_norm)

lemma hide_value_norm: "header_norm k = header_norm k' \<Longrightarrow> hide_value kind k v = hide_value kind k' v"
  by (cases kind) (simp_all add: credential_field_def)

lemma hide_map_insert:
  "hide_map kind (insert_or_assign header_less k v m) = insert_or_assign header_less k (hide_value kind k v) (hide_map kind m)"
proof (induction m)
  case (Cons e m)
  have "\<not> header_less (fst e) k \<Longrightarrow> \<not> header_less k (fst e) \<Longrightarrow> hide_value kind (fst e) v = hide_value kind k v"
    using hdr.equivalent_iff [of "fst e" k] hide_value_norm by blast
  with Cons show ?case by (auto simp: hide_map_def)
qed (simp add: hide_map_def)

lemma hide_iterate:
  "mhd_iterate build_request_header (hide_pairs kind kvs) (map_sum id (hide_map kind) acc) =
    map_sum id (hide_map kind) (mhd_iterate build_request_header kvs acc)"
proof (induction kvs arbitrary: acc)
  case (Cons kv kvs)
  show ?case
  proof (cases "snd kv")
    case (Some t)
    have "build_request_header (fst kv) (Some (hide_value kind (fst kv) t)) (map_sum id (hide_map kind) acc) =
        (True, map_sum id (hide_map kind) (snd (build_request_header (fst kv) (Some t) acc)))"
      by (cases acc) (simp_all add: build_request_header_def hide_map_insert)
    moreover have "fst (build_request_header (fst kv) (Some t) acc) = True"
      by (simp add: build_request_header_def)
    moreover have "hide_pairs kind (kv # kvs) = (fst kv, Some (hide_value kind (fst kv) t)) # hide_pairs kind kvs"
      using Some by (simp add: hide_pairs_def)
    ultimately show ?thesis
      using Cons.IH [of "snd (build_request_header (fst kv) (Some t) acc)"] Some
      by (simp only: mhd_iterate.simps fst_conv snd_conv Let_def case_prod_beta if_True)
  qed (simp add: hide_pairs_def build_request_header_def)
qed (simp add: hide_pairs_def)

lemma hide_fold:
  "fold (\<lambda>(k, v). insert_or_assign header_less k v) (hide_map kind m) (hide_map kind acc) =
    hide_map kind (fold (\<lambda>(k, v). insert_or_assign header_less k v) m acc)"
proof (induction m arbitrary: acc)
  case (Cons e m)
  show ?case
    using Cons.IH [of "insert_or_assign header_less (fst e) (snd e) acc"]
    by (cases e) (simp add: hide_map_insert, simp add: hide_map_def)
qed (simp add: hide_map_def)

lemma hide_cache_fields:
  "kind \<noteq> MHD_GET_ARGUMENT_KIND \<Longrightarrow> headerlike_cache kind (hide_impl i) = map_prod (hide_map kind) id (headerlike_cache kind i)"
  "kind \<noteq> MHD_GET_ARGUMENT_KIND \<Longrightarrow> local_map_for kind (hide_impl i) = map_option (hide_map kind) (local_map_for kind i)"
  "kind \<noteq> MHD_GET_ARGUMENT_KIND \<Longrightarrow>
    set_headerlike_cache kind (hide_map kind m) (hide_impl i) = hide_impl (set_headerlike_cache kind m i)"
  "req_connection (hide_impl i) = map_option hide_connection (req_connection i)"
  "conn_values (hide_connection c) kind = hide_pairs kind (conn_values c kind)"
  by (cases kind; simp add: hide_impl_def hide_connection_def)+

lemma hide_headerlike:
  assumes "kind \<noteq> MHD_GET_ARGUMENT_KIND"
  shows "req_headerlike kind (hide_secrets r) = map_sum id (map_prod (hide_map kind) hide_secrets) (req_headerlike kind r)"
proof -
  let ?i = "impl r"
  obtain cache built where cb: "headerlike_cache kind ?i = (cache, built)" by fastforce
  have "ensure_headerlike_cache kind (hide_impl ?i) =
      map_sum id (map_prod (hide_map kind) hide_impl) (ensure_headerlike_cache kind ?i)"
  proof (cases "req_connection ?i")
    case None
    then show ?thesis
      using assms
      by (auto simp: ensure_headerlike_cache_def hide_cache_fields cb hide_fold split: option.splits)
  next
    case (Some c)
    let ?it = "\<lambda>kvs acc. mhd_iterate build_request_header kvs acc"
    have it: "?it (hide_pairs kind (conn_values c kind)) (Inr (hide_map kind cache)) =
        map_sum id (hide_map kind) (?it (conn_values c kind) (Inr cache))"
      using hide_iterate [of kind "conn_values c kind" "Inr cache"] by simp
    show ?thesis
      using assms Some
      by (cases "?it (conn_values c kind) (Inr cache)")
        (simp_all add: ensure_headerlike_cache_def hide_cache_fields cb it)
  qed
  then show ?thesis
    by (cases "ensure_headerlike_cache kind ?i") (auto simp: req_headerlike_def hide_secrets_def on_impl_def)
qed

lemma hide_get_user: "get_user (hide_secrets r) = map_prod id hide_secrets (get_user r)"
proof -
  have "ensure_user_pass (hide_impl i) = hide_impl (ensure_user_pass i)" for i
    by (auto simp: ensure_user_pass_def fetch_user_pass_def hide_impl_def hide_connection_def split: option.splits prod.splits)
  moreover have "username (hide_impl i) = username i" for i by (simp add: hide_impl_def)
  ultimately show ?thesis by (simp add: get_user_def hide_secrets_def on_impl_def)
qed

lemma hide_pairs_get: "hide_pairs MHD_GET_ARGUMENT_KIND kvs = kvs"
proof -
  have "map_option (hide_value MHD_GET_ARGUMENT_KIND k) v = v" for k v by (cases v) simp_all
  then show ?thesis by (simp add: hide_pairs_def)
qed

lemma hide_populate: "populate_args (hide_impl i) = hide_impl (populate_args i)"
proof (cases "args_populated i \<or> req_connection i = None")
  case False
  then obtain c where c: "\<not> args_populated i" "req_connection i = Some c" by auto
  have "arg_limits (hide_connection c) = arg_limits c"
    by (simp add: arg_limits_def hide_connection_def split: option.splits)
  moreover have "conn_values (hide_connection c) MHD_GET_ARGUMENT_KIND = conn_values c MHD_GET_ARGUMENT_KIND"
    by (simp add: hide_cache_fields hide_pairs_get)
  moreover have "\<not> args_populated (hide_impl i)" "req_connection (hide_impl i) = Some (hide_connection c)"
    "req_unescaper (hide_impl i) = req_unescaper i" "unescaped_args (hide_impl i) = unescaped_args i"
    using c by (simp_all add: hide_impl_def)
  ultimately show ?thesis
    using populate_args_live [OF c] populate_args_live [of "hide_impl i" "hide_connection c"] by (simp add: hide_impl_def)
qed (auto simp: populate_args_def hide_impl_def)

lemma hide_get_args: "get_args (hide_secrets r) = map_prod id hide_secrets (get_args r)"
proof -
  have "ensure_args_view_cached (hide_impl i) = hide_impl (ensure_args_view_cached i)" for i
    by (simp add: ensure_args_view_cached_def hide_impl_def)
  moreover have "args_view_cached (hide_impl i) = args_view_cached i" for i by (simp add: hide_impl_def)
  ultimately show ?thesis by (simp add: get_args_def hide_secrets_def on_impl_def hide_populate)
qed

lemma hide_requestor: "get_requestor ntop (hide_secrets r) = map_sum id (map_prod id hide_secrets) (get_requestor ntop r)"
proof (cases "req_connection (impl r)")
  case None
  then show ?thesis by (simp add: get_requestor_def hide_secrets_def on_impl_def hide_impl_def)
next
  case (Some c)
  show ?thesis
  proof (cases "conn_client_addr c")
    case (Some addr)
    with \<open>req_connection (impl r) = Some c\<close> show ?thesis
      by (cases "get_ip_str ntop addr")
        (simp_all add: get_requestor_def hide_secrets_def on_impl_def hide_impl_def hide_connection_def Let_def)
  qed (simp add: \<open>req_connection (impl r) = Some c\<close> get_requestor_def hide_secrets_def on_impl_def hide_impl_def
      hide_connection_def Let_def)
qed

lemma hide_port: "get_requestor_port (hide_secrets r) = get_requestor_port r"
  by (auto simp: get_requestor_port_def hide_secrets_def on_impl_def hide_impl_def hide_connection_def split: option.splits)

lemma hide_dump:
  "dump_header_map_redacted label (hide_map MHD_HEADER_KIND m) = dump_header_map_redacted label m"
  "dump_header_map_redacted label (hide_map MHD_FOOTER_KIND m) = dump_header_map_redacted label m"
  "dump_cookie_map_redacted label (hide_map MHD_COOKIE_KIND m) = dump_cookie_map_redacted label m"
  by (auto simp: dump_header_map_redacted_def dump_cookie_map_redacted_def dump_map_redacted_def hide_map_def comp_def
      authorization_key intro!: arg_cong [where f = concat])

lemma hide_public:
  "req_method (hide_secrets r) = req_method r" "req_path (hide_secrets r) = req_path r"
  "req_version (hide_secrets r) = req_version r"
  "expose_credentials (impl (hide_secrets r)) = expose_credentials (impl r)"
  by (simp_all add: hide_secrets_def on_impl_def hide_impl_def)

section \<open>Properties\<close>


definition silent_connection :: "(string \<times> string option) option \<Rightarrow> (string \<times> string option) list \<Rightarrow> mhd_connection" where
  "silent_connection auth query =
     \<lparr>conn_values = \<lambda>kind. if kind = MHD_GET_ARGUMENT_KIND then query else [],
      conn_lookup = \<lambda>kind key. None, conn_basic_auth = auth, conn_digest_user = None,
      conn_digest_check = \<lambda>realm user pass timeout nc algo. WRONG_HEADER,
      conn_client_addr = None, conn_socket_context = None\<rparr>"


text \<open>The raw \<^verbatim>\<open>Cookie\<close> header escapes the redaction: whenever the header map of a request has a \<^verbatim>\<open>Cookie\<close>
  entry (libmicrohttpd keeps it among the headers), its whole value, cookie values included, is part of
  the printout with credentials hidden.\<close>

theorem cookie_header_is_printed:
  assumes "\<not> expose_credentials (impl r)"
    and "req_get_headers (snd (get_user r)) = Inr (hs, r2)" "map_find header_less ''Cookie'' hs = Some raw"
    and "hdr.map_ok hs" "print_request ntop r = Inr (out, r3)"
  shows "sublist raw out"
proof -
  obtain k where k: "header_norm k = header_norm ''Cookie''" "(k, raw) \<in> set hs"
    using assms(3,4) by (auto simp: hdr.find_Some_member)
  have "\<not> is_authorization_header_key ''Cookie''" by code_simp
  then have plain: "\<not> is_authorization_header_key k" using k(1) by (simp add: authorization_key credential_field_def)
  obtain xs ys where hs: "hs = xs @ (k, raw) # ys" using k(2) by (auto simp: in_set_conv_decomp)
  let ?f = "\<lambda>kv. fst kv @ CHR '':'' # CHR 0x22 #
    (if is_authorization_header_key (fst kv) then kRedacted else snd kv) @ CHR 0x22 # '' ''"
  have "dump_header_map_redacted ''Headers'' hs =
      (''    Headers ['' @ concat (map ?f xs) @ k @ [CHR '':'', CHR 0x22]) @ raw @
      (CHR 0x22 # '' '' @ concat (map ?f ys) @ '']'' @ [LF])"
    by (simp add: dump_header_map_redacted_def dump_map_redacted_def hs plain)
  then obtain A B where dump: "dump_header_map_redacted ''Headers'' hs = A @ raw @ B" by blast
  have "\<exists>pre post. out = pre @ dump_header_map_redacted ''Headers'' hs @ post"
    using assms(5)
    unfolding print_request_def Let_def case_prod_beta bind_result_Inr_iff
    by (simp only: assms(1,2) if_False fst_conv snd_conv sum.inject prod.inject)
      (elim exE conjE, hypsubst, simp only: fst_conv, intro exI, rule refl)
  then obtain pre post where "out = (pre @ A) @ raw @ (B @ post)" unfolding dump append_assoc by blast
  then show ?thesis unfolding sublist_def by blast
qed

lemma cookie_header_is_printed_witness:
  "\<exists>out r3.
    print_request (\<lambda>fam bytes. [])
      (make_request (Some ((silent_connection None [])\<lparr>conn_values :=
         \<lambda>kind. if kind = MHD_HEADER_KIND then [(''Cookie'', Some ''sid=42'')] else []\<rparr>)) None) = Inr (out, r3) \<and>
    sublist ''sid=42'' out"
proof -
  let ?r = "make_request (Some ((silent_connection None [])\<lparr>conn_values :=
      \<lambda>kind. if kind = MHD_HEADER_KIND then [(''Cookie'', Some ''sid=42'')] else []\<rparr>)) None"
  have hs: "\<exists>r2. req_get_headers (snd (get_user ?r)) = Inr ([(''Cookie'', ''sid=42'')], r2)"
    by (simp add: req_get_headers_def req_headerlike_def ensure_headerlike_cache_def get_user_def on_impl_def
        ensure_user_pass_def fetch_user_pass_def make_request_def make_request_impl_def silent_connection_def
        build_request_header_def)
  have out: "\<exists>out r3. print_request (\<lambda>fam bytes. []) ?r = Inr (out, r3)"
    by (simp add: print_request_def Let_def case_prod_beta req_get_headers_def req_get_footers_def req_get_cookies_def
        req_headerlike_def ensure_headerlike_cache_def get_user_def on_impl_def ensure_user_pass_def fetch_user_pass_def
        make_request_def make_request_impl_def silent_connection_def build_request_header_def get_args_def
        get_requestor_def get_requestor_port_def populate_args_def ensure_args_view_cached_def)
  have "\<not> expose_credentials (impl ?r)" by (simp add: make_request_def make_request_impl_def)
  moreover have "map_find header_less ''Cookie'' [(''Cookie'', ''sid=42'')] = Some ''sid=42''"
    using hdr.lt_irrefl by simp
  moreover have "hdr.map_ok [(''Cookie'', ''sid=42'')]" by (simp add: hdr.map_ok_def)
  ultimately show ?thesis using cookie_header_is_printed [of ?r] hs out by blast
qed

text \<open>C36: Whatever happened to a request since its construction, the three ways to read an argument agree: the
  map of all arguments holds for each key the values the single lookup returns, the flat lookup returns
  the first of them, and it never reads past the end of an empty list of values.\<close>

theorem argument_getters_agree:
  "arg_values (fst (get_args (fold request_do ops (make_request c u)))) key =
     fst (get_arg key (fold request_do ops (make_request c u))) \<and>
   map_sum id fst (get_arg_flat key (fold request_do ops (make_request c u))) =
     Inr (get_flat_value (fst (get_arg key (fold request_do ops (make_request c u)))))"
proof -
  define r where "r = fold request_do ops (make_request c u)"
  have "request_inv r" unfolding r_def by (rule request_inv_history) (rule request_inv_make)
  then have inv: "impl_inv (populate_args (impl r))" by (simp add: request_inv_def impl_inv_populate)
  then have ok: "args_ok (unescaped_args (populate_args (impl r)))" by (simp add: impl_inv_def)
  have "fst (get_args r) = unescaped_args (populate_args (impl r))"
    using impl_inv_view(2) [OF inv populate_args_fields(1)] by (simp add: get_args_def on_impl_def)
  moreover have "fst (get_arg key r) = arg_values (unescaped_args (populate_args (impl r))) key"
    by (auto simp: get_arg_def on_impl_def arg_values_def Let_def split: option.splits)
  moreover have "map_sum id fst (get_arg_flat key r) =
      Inr (get_flat_value (arg_values (unescaped_args (populate_args (impl r))) key))"
    using find_arg_not_Nil [OF ok]
    by (auto simp: get_arg_flat_def on_impl_def arg_values_def get_flat_value_def Let_def split: option.splits)
  ultimately show ?thesis by (simp add: r_def)
qed

text \<open>The first read of the arguments of a live request adds the query arguments in the order of the query,
  decoded, behind the values the request already had for the key, up to the first one that would pass
  the limit on the number of keys or on the bytes: all of them when the limits are not passed.\<close>

theorem query_arguments:
  assumes "request_inv r" "\<not> args_populated (impl r)" "req_connection (impl r) = Some c"
  defines "kvs \<equiv> conn_values c MHD_GET_ARGUMENT_KIND"
  shows "\<exists>n \<le> length kvs.
     (\<forall>key. fst (get_arg key r) = arg_values (unescaped_args (impl r)) key @
        map (\<lambda>kv. unescape_in_arena (req_unescaper (impl r)) (arg_text (snd kv)))
          (filter (\<lambda>kv. fst kv = key) (take n kvs))) \<and>
     (n < length kvs \<longrightarrow>
        fst (arg_limits c) < length (add_args (req_unescaper (impl r)) (take (Suc n) kvs) (unescaped_args (impl r))) \<or>
        snd (arg_limits c) < pair_bytes (take (Suc n) kvs))"
proof -
  have ok: "args_ok (unescaped_args (impl r))" using assms(1) by (simp add: request_inv_def impl_inv_def)
  have "fst (get_arg key r) = arg_values (unescaped_args (populate_args (impl r))) key" for key
    by (auto simp: get_arg_def on_impl_def arg_values_def Let_def split: option.splits)
  then show ?thesis
    using populate_args_prefix [OF assms(2,3)] add_args_values [OF ok] unfolding kvs_def by metis
qed

lemma query_arguments_witness:
  "fst (get_arg ''q'' (set_arg ''q'' ''first'' (make_request (Some (silent_connection None
     [(''q'', Some ''a+b''), (''z'', None), (''q'', Some ''%41'')])) None))) = [''first'', ''a b'', ''A'']"
proof -
  define kvs where "kvs = [(''q'', Some ''a+b''), (''z'', None), (''q'', Some ''%41'')]"
  define c where "c = silent_connection None kvs"
  define r where "r = set_arg ''q'' ''first'' (make_request (Some c) None)"
  have inv: "request_inv r"
    unfolding r_def using request_inv_do [OF request_inv_make, of "Set_Arg ''q'' ''first''"] by simp
  have live: "\<not> args_populated (impl r)" "req_connection (impl r) = Some c" "req_unescaper (impl r) = None"
    by (simp_all add: r_def set_arg_def on_impl_def impl_set_arg_def make_request_def make_request_impl_def)
  have vals: "conn_values c MHD_GET_ARGUMENT_KIND = kvs" by (simp add: c_def silent_connection_def)
  have args: "unescaped_args (impl r) = [(''q'', [''first''])]"
    by (simp add: r_def set_arg_def on_impl_def impl_set_arg_def make_request_def make_request_impl_def append_arg_insert
        arg_values_def size_t_max_def)
  have limits: "fst (arg_limits c) = 64" "snd (arg_limits c) = 65536"
    by (simp_all add: arg_limits_def c_def silent_connection_def DEFAULT_MAX_ARGS_COUNT_def DEFAULT_MAX_ARGS_BYTES_def)
  from query_arguments [OF inv live(1,2), unfolded vals live(3) args limits] obtain n where n: "n \<le> length kvs"
    "fst (get_arg ''q'' r) = arg_values [(''q'', [''first''])] ''q'' @
       map (\<lambda>kv. unescape_in_arena None (arg_text (snd kv))) (filter (\<lambda>kv. fst kv = ''q'') (take n kvs))"
    "n < length kvs \<longrightarrow> 64 < length (add_args None (take (Suc n) kvs) [(''q'', [''first''])]) \<or>
       65536 < pair_bytes (take (Suc n) kvs)"
    by blast
  have len: "length kvs = 3" by (simp add: kvs_def)
  have "length (add_args None (take (Suc n) kvs) [(''q'', [''first''])]) \<le> 64"
    using add_args_length [of None "take (Suc n) kvs" "[(''q'', [''first''])]"] len by simp
  moreover have "pair_bytes (ys @ zs) = pair_bytes ys + pair_bytes zs" for ys zs by (simp add: pair_bytes_def)
  note this [of "take (Suc n) kvs" "drop (Suc n) kvs"]
  then have part: "pair_bytes (take (Suc n) kvs) \<le> pair_bytes kvs" by simp
  have "pair_bytes (take (Suc n) kvs) \<le> 65536"
    by (rule le_trans [OF part]) (simp add: kvs_def pair_bytes_def)
  ultimately have "n = length kvs" using n(1,3) by linarith
  have dec: "decode ''a+b'' = ''a b''" "decode ''%41'' = ''A''" by code_simp+
  have "fst (get_arg ''q'' r) = [''first'', ''a b'', ''A'']"
    using n(2) \<open>n = length kvs\<close> arg.lt_irrefl by (simp add: arg_values_def unescape_in_arena_decode kvs_def dec del: decode.simps)
  then show ?thesis by (simp add: r_def c_def kvs_def)
qed





text \<open>Which value an argument has depends on whether anybody read the arguments before the dispatcher stored
  the captured path segments: read first, the value of the query comes first; otherwise the
  captured segment does.\<close>

theorem capture_precedence:
  assumes "length key + length q \<le> 65536"
  defines "r \<equiv> make_request (Some (silent_connection None [(key, Some q)])) None"
  shows "get_flat_value (fst (get_arg key (set_arg key v r))) = take size_t_max v \<and>
    get_flat_value (fst (get_arg key (set_arg key v (snd (get_args r))))) = decode q"
proof -
  have fresh: "populate_args (impl r) =
      (impl r)\<lparr>unescaped_args := [(key, [decode q])], args_populated := True\<rparr>"
    using assms(1)
    by (simp add: r_def make_request_def make_request_impl_def populate_args_def silent_connection_def
        build_request_args_def DEFAULT_MAX_ARGS_COUNT_def DEFAULT_MAX_ARGS_BYTES_def append_arg_insert arg_values_def
        unescape_in_arena_decode)
  have "populate_args (impl (set_arg key v r)) =
      (impl (set_arg key v r))\<lparr>unescaped_args := [(key, [take size_t_max v, decode q])], args_populated := True\<rparr>"
    using assms(1) arg.lt_irrefl
    by (simp add: r_def make_request_def make_request_impl_def populate_args_def silent_connection_def set_arg_def
        on_impl_def impl_set_arg_def min_def
        build_request_args_def DEFAULT_MAX_ARGS_COUNT_def DEFAULT_MAX_ARGS_BYTES_def append_arg_insert arg_values_def
        unescape_in_arena_decode)
  then have first: "fst (get_arg key (set_arg key v r)) = [take size_t_max v, decode q]"
    using arg.lt_irrefl by (simp add: get_arg_def on_impl_def)
  have "unescaped_args (impl (snd (get_args r))) = [(key, [decode q])]" "args_populated (impl (snd (get_args r)))"
    using fresh by (simp_all add: get_args_def on_impl_def ensure_args_view_cached_def)
  then have "hd (fst (get_arg key (set_arg key v (snd (get_args r))))) = decode q \<and>
      fst (get_arg key (set_arg key v (snd (get_args r)))) \<noteq> []"
    using arg.lt_irrefl
    by (simp add: get_arg_def set_arg_def on_impl_def impl_set_arg_def populate_args_fields(4) append_arg_insert
        arg_values_def)
  with first show ?thesis by (auto simp: get_flat_value_def hd_conv_nth)
qed

lemma capture_precedence_witness:
  "get_flat_value (fst (get_arg ''id'' (set_arg ''id'' ''7''
     (make_request (Some (silent_connection None [(''id'', Some ''13'')])) None)))) = ''7'' \<and>
   get_flat_value (fst (get_arg ''id'' (set_arg ''id'' ''7''
     (snd (get_args (make_request (Some (silent_connection None [(''id'', Some ''13'')])) None)))))) = ''13''"
proof -
  have "decode ''13'' = ''13''" by code_simp
  then show ?thesis using capture_precedence [of "''id''" "''13''" "''7''"] by (simp add: size_t_max_def)
qed

text \<open>The body a request keeps is the configured prefix of the bytes that arrived, in whatever chunks.\<close>

theorem content_is_prefix:
  assumes "length (req_content r) \<le> req_content_size_limit r"
  shows "req_content (fold grow_content chunks r) = take (req_content_size_limit r) (req_content r @ concat chunks)"
proof -
  have "req_content (fold grow_content chunks r) = take (req_content_size_limit r) (req_content r @ concat chunks) \<and>
      req_content_size_limit (fold grow_content chunks r) = req_content_size_limit r"
    using assms
  proof (induction chunks arbitrary: r)
    case (Cons chunk chunks)
    have step: "req_content (grow_content chunk r) = take (req_content_size_limit r) (req_content r @ chunk)"
      "req_content_size_limit (grow_content chunk r) = req_content_size_limit r"
      by (simp_all add: grow_content_def Let_def)
    have tk: "take n (take n xs @ ys) = take n (xs @ ys)" for n and xs ys :: string
      by (simp add: min_def)
    have "length (take n xs) \<le> n" for n and xs :: string by simp
    from Cons.IH [of "grow_content chunk r", unfolded step tk, OF this] show ?case by (simp del: take_append)
  qed simp
  then show ?thesis by simp
qed

lemma content_is_prefix_witness:
  "req_content (fold grow_content [''ab'', ''cde'', ''f''] (set_content_size_limit 4 (make_request None None))) = ''abcd''"
  using content_is_prefix [of "set_content_size_limit 4 (make_request None None)" "[''ab'', ''cde'', ''f'']"]
  by (simp add: set_content_size_limit_def make_request_def)

end
