(* ===== verification/Peer_Address.thy ===== *)
theory Peer_Address
  imports Ip_Representation
begin

text \<open>
  Peer addresses as hooks see them (\<^verbatim>\<open>peer_address.cpp\<close>, \<^verbatim>\<open>hook_context.hpp\<close>, \<^verbatim>\<open>make_peer_address\<close> of
  \<^verbatim>\<open>detail/webserver_callbacks.cpp\<close>): the conversion from a socket address and the printer, which writes
  RFC 5952 text for IPv6 into fixed buffers.  A write past a buffer is the value
  \<^const>\<open>undefined_behaviour\<close>.  The main lemma: whatever address a connection has, the text printed for
  it is parsed by \<^const>\<open>ip_of_string\<close> to exactly the representation the access lists compare.
\<close>

unbundle bit_operations_syntax

section \<open>Data and conversion\<close>

datatype address_family = family_unspec | family_ipv4 | family_ipv6

record peer_address =
  pa_fam :: address_family
  pa_bytes :: "8 word list"
  pa_port :: "16 word"

text \<open>\<open>ntohs\<close> is the platform's conversion of a stored port to host byte order.\<close>

definition make_peer_address :: "(16 word \<Rightarrow> 16 word) \<Rightarrow> sockaddr option \<Rightarrow> peer_address" where
  "make_peer_address ntohs addr =
     (let out = \<lparr>pa_fam = family_unspec, pa_bytes = replicate 16 0, pa_port = 0\<rparr> in
      case addr of
        None \<Rightarrow> out
      | Some sa \<Rightarrow>
          if sa_family sa = AF_INET then
            out\<lparr>pa_fam := family_ipv4, pa_bytes := take 4 (sin_addr sa) @ drop 4 (pa_bytes out), pa_port := ntohs (sin_port sa)\<rparr>
          else if sa_family sa = AF_INET6 then
            out\<lparr>pa_fam := family_ipv6, pa_bytes := take 16 (sin6_addr sa), pa_port := ntohs (sin_port sa)\<rparr>
          else out)"

section \<open>Printing\<close>

definition assemble_groups :: "8 word list \<Rightarrow> 16 word list" where
  "assemble_groups bytes =
     map (\<lambda>i. push_bit 8 (ucast (bytes ! (2 * i))) OR ucast (bytes ! (2 * i + 1))) [0..<8]"

definition is_ipv4_mapped :: "16 word list \<Rightarrow> bool" where
  "is_ipv4_mapped g = (list_all (\<lambda>i. g ! i = 0) [0..<5] \<and> g ! 5 = 0xffff)"

text \<open>\<^verbatim>\<open>snprintf\<close> into a buffer of \<open>n\<close> bytes followed by a read of the length it reports.\<close>

definition read_printed :: "nat \<Rightarrow> string \<Rightarrow> string result" where
  "read_printed n t = (if length t < n then Inr t else Inl (undefined_behaviour ''read past the buffer''))"

definition dotted :: "8 word list \<Rightarrow> string" where
  "dotted bs = join ''.'' (map (\<lambda>b. show_nat (unat b)) bs)"

definition format_ipv4_mapped :: "8 word list \<Rightarrow> string result" where
  "format_ipv4_mapped bytes =
     read_printed 24 (''::ffff:'' @ dotted [bytes ! 12, bytes ! 13, bytes ! 14, bytes ! 15])"

record zero_run =
  zr_start :: int
  zr_len :: nat

definition no_run :: zero_run where
  "no_run = \<lparr>zr_start = - 1, zr_len = 0\<rparr>"

text \<open>The scan keeps the best run, the start and the length of the current run.\<close>

definition scan_group :: "16 word list \<Rightarrow> nat \<Rightarrow> zero_run \<times> nat \<times> nat \<Rightarrow> zero_run \<times> nat \<times> nat" where
  "scan_group g i st =
     (case st of (best, run_start, run_len) \<Rightarrow>
        if g ! i \<noteq> 0 then (best, run_start, 0)
        else
          (let run_start = (if run_len = 0 then i else run_start); run_len = run_len + 1 in
           (if zr_len best < run_len then \<lparr>zr_start = int run_start, zr_len = run_len\<rparr> else best, run_start, run_len)))"

definition find_longest_zero_run :: "16 word list \<Rightarrow> zero_run" where
  "find_longest_zero_run g =
     (let best = fst (fold (scan_group g) [0..<8] (no_run, 0, 0)) in if zr_len best < 2 then no_run else best)"

text \<open>The loop of \<^verbatim>\<open>emit_canonical\<close> with fuel; \<^term>\<open>None\<close> is a loop that has not ended.  The buffer
  holds 40 bytes.\<close>

definition put_colons :: "string \<Rightarrow> string \<Rightarrow> string result" where
  "put_colons cs buf =
     (if length buf + length cs \<le> 40 then Inr (buf @ cs) else Inl (undefined_behaviour ''write past the buffer''))"

fun emit_loop :: "nat \<Rightarrow> 16 word list \<Rightarrow> zero_run \<Rightarrow> nat \<Rightarrow> string \<Rightarrow> string result option" where
  "emit_loop 0 g run i buf = None"
| "emit_loop (Suc fuel) g run i buf =
     (if 8 \<le> i then Some (Inr buf)
      else if int i = zr_start run then
        (case put_colons ''::'' buf of
           Inl e \<Rightarrow> Some (Inl e)
         | Inr buf \<Rightarrow> emit_loop fuel g run (i + zr_len run) buf)
      else
        (let t = show_base 16 (unat (g ! i)) in
         if 40 - length buf \<le> length t then Some (Inr buf)
         else if i + 1 < 8 \<and> int (i + 1) \<noteq> zr_start run then
           (case put_colons '':'' (buf @ t) of
              Inl e \<Rightarrow> Some (Inl e)
            | Inr buf \<Rightarrow> emit_loop fuel g run (i + 1) buf)
         else emit_loop fuel g run (i + 1) (buf @ t)))"

definition emit_canonical :: "16 word list \<Rightarrow> zero_run \<Rightarrow> string result option" where
  "emit_canonical g run = emit_loop 9 g run 0 []"

definition ipv6_canonical :: "8 word list \<Rightarrow> string result option" where
  "ipv6_canonical bytes =
     (let groups = assemble_groups bytes in
      if is_ipv4_mapped groups then Some (format_ipv4_mapped bytes)
      else emit_canonical groups (find_longest_zero_run groups))"

definition peer_to_string :: "peer_address \<Rightarrow> string result option" where
  "peer_to_string pa =
     (case pa_fam pa of
        family_ipv4 \<Rightarrow> Some (read_printed 16 (dotted (take 4 (pa_bytes pa))))
      | family_ipv6 \<Rightarrow> ipv6_canonical (pa_bytes pa)
      | family_unspec \<Rightarrow> Some (Inr []))"

section \<open>The printed form of a run of groups\<close>

definition hex_groups :: "16 word list \<Rightarrow> string list" where
  "hex_groups gs = map (\<lambda>g. show_base 16 (unat g)) gs"

lemma hex_length: "length (show_base 16 (unat (g :: 16 word))) \<le> 4"
proof -
  have "unat g < 65536"
    using unsigned_less [of g, where 'a = nat] by simp
  from arg_cong [OF hex_group_text [OF this], of length] show ?thesis
    by simp
qed

lemma hex_not_Nil: "show_base 16 n \<noteq> []"
  using show_base_digits [of 16 n] by blast

text \<open>Between two collapses the loop joins the groups with colons.\<close>

lemma emit_loop_groups:
  assumes "i < n" "n \<le> 8" "length g = 8" "\<forall>k \<in> {i..<n}. int k \<noteq> zr_start run" "int n = zr_start run \<or> n = 8"
    "n - i \<le> fuel" "length buf \<le> 5 * i"
  shows "emit_loop fuel g run i buf =
    emit_loop (fuel - (n - i)) g run n (buf @ join '':'' (hex_groups (take (n - i) (drop i g))))"
  using assms
proof (induction "n - i" arbitrary: i fuel buf)
  case (Suc d)
  obtain f where f: "fuel = Suc f"
    using Suc.prems by (cases fuel) auto
  let ?t = "show_base 16 (unat (g ! i))"
  have i: "i < 8" "int i \<noteq> zr_start run" "\<not> 40 - length buf \<le> length ?t"
    using Suc.prems hex_length [of "g ! i"] by auto
  have drop: "drop i g = g ! i # drop (Suc i) g"
    using Suc.prems i by (simp add: Cons_nth_drop_Suc)
  show ?case
  proof (cases "Suc i = n")
    case True
    have tk: "take (n - i) (drop i g) = [g ! i]"
      using True drop by (metis One_nat_def Suc_diff_Suc diff_self_eq_0 lessI take0 take_Suc_Cons)
    have "\<not> (i + 1 < 8 \<and> int (i + 1) \<noteq> zr_start run)"
      using True Suc.prems by auto
    then have "emit_loop fuel g run i buf = emit_loop f g run n (buf @ ?t)"
      using i True by (auto simp: f Let_def)
    moreover have "fuel - (n - i) = f"
      using True f by auto
    ultimately show ?thesis
      by (simp add: tk hex_groups_def)
  next
    case False
    then have n: "Suc i < n" using Suc.prems by simp
    have tk: "take (n - i) (drop i g) = g ! i # take (n - Suc i) (drop (Suc i) g)"
      using n drop by (metis Suc_diff_Suc Suc.prems(1) take_Suc_Cons)
    have ne: "hex_groups (take (n - Suc i) (drop (Suc i) g)) \<noteq> []"
      using n Suc.prems by (simp add: hex_groups_def)
    have "i + 1 < 8 \<and> int (i + 1) \<noteq> zr_start run"
      using n Suc.prems(2) bspec [OF Suc.prems(4), of "Suc i"] by auto
    moreover have "put_colons '':'' (buf @ ?t) = Inr (buf @ ?t @ '':'')"
      using Suc.prems i hex_length [of "g ! i"] by (simp add: put_colons_def)
    ultimately have "emit_loop fuel g run i buf = emit_loop f g run (Suc i) (buf @ ?t @ '':'')"
      using i by (simp add: f Let_def)
    also have "\<dots> = emit_loop (f - (n - Suc i)) g run n ((buf @ ?t @ '':'') @ join '':'' (hex_groups (take (n - Suc i) (drop (Suc i) g))))"
      by (rule Suc.hyps(1)) (use Suc n f hex_length [of "g ! i"] in auto)
    moreover have "f - (n - Suc i) = fuel - (n - i)"
      using n f Suc.prems by auto
    ultimately show ?thesis
      using ne by (simp add: tk hex_groups_def join_Cons)
  qed
qed simp

section \<open>The longest run of zero groups\<close>

definition zeros :: "16 word list \<Rightarrow> nat \<Rightarrow> nat \<Rightarrow> bool" where
  "zeros g s l = (\<forall>k \<in> {s..<s + l}. g ! k = 0)"

text \<open>What the scan knows after the groups below \<open>n\<close>: the best run is a run, no run is longer and
  none as long starts earlier; the current run is the maximal one that ends at \<open>n\<close>.\<close>

definition scan_inv :: "16 word list \<Rightarrow> nat \<Rightarrow> zero_run \<times> nat \<times> nat \<Rightarrow> bool" where
  "scan_inv g n st =
     (case st of (best, rs, rl) \<Rightarrow>
        (zr_len best = 0 \<or> (\<exists>s. zr_start best = int s \<and> s + zr_len best \<le> n \<and> zeros g s (zr_len best))) \<and>
        rl \<le> n \<and> zeros g (n - rl) rl \<and> (0 < rl \<longrightarrow> rs = n - rl) \<and>
        (\<forall>s \<le> n. zeros g s (n - s) \<longrightarrow> n - s \<le> rl) \<and>
        (\<forall>s l. 0 < l \<and> s + l \<le> n \<and> zeros g s l \<longrightarrow> l < zr_len best \<or> (l = zr_len best \<and> zr_start best \<le> int s)))"

lemma zeros_last: "zeros g s (Suc n - s) \<Longrightarrow> s \<le> n \<Longrightarrow> g ! n = 0 \<and> zeros g s (n - s)"
  by (auto simp: zeros_def)

lemma zeros_snoc: "zeros g s (n - s) \<Longrightarrow> s \<le> n \<Longrightarrow> g ! n = 0 \<Longrightarrow> zeros g s (Suc n - s)"
  by (auto simp: zeros_def less_Suc_eq)

lemma scan_inv_step:
  assumes "scan_inv g n st"
  shows "scan_inv g (Suc n) (scan_group g n st)"
proof -
  obtain best rs rl where st: "st = (best, rs, rl)"
    by (cases st)
  have A: "zr_len best = 0 \<or> (\<exists>s. zr_start best = int s \<and> s + zr_len best \<le> n \<and> zeros g s (zr_len best))"
    and B: "rl \<le> n" "zeros g (n - rl) rl" "0 < rl \<longrightarrow> rs = n - rl" "\<And>s. s \<le> n \<Longrightarrow> zeros g s (n - s) \<Longrightarrow> n - s \<le> rl"
    and C: "\<And>s l. 0 < l \<Longrightarrow> s + l \<le> n \<Longrightarrow> zeros g s l \<Longrightarrow> l < zr_len best \<or> (l = zr_len best \<and> zr_start best \<le> int s)"
    using assms by (auto simp: scan_inv_def st)
  have end_at: "s \<le> n \<and> zeros g s (n - s) \<and> g ! n = 0" if "0 < l" "s + l = Suc n" "zeros g s l" for s l
    using that zeros_last [of g s n] by (metis add_diff_cancel_left' less_add_same_cancel1 less_Suc_eq_le)
  show ?thesis
  proof (cases "g ! n = 0")
    case False
    have "l < zr_len best \<or> (l = zr_len best \<and> zr_start best \<le> int s)" if "0 < l" "s + l \<le> Suc n" "zeros g s l" for s l
      using that C end_at False by (metis le_Suc_eq)
    moreover have "Suc n - s \<le> 0" if "s \<le> Suc n" "zeros g s (Suc n - s)" for s
      using that zeros_last [of g s n] False by (cases "s = Suc n") auto
    ultimately show ?thesis
      using A False by (auto simp: scan_inv_def scan_group_def st zeros_def)
  next
    case True
    define best' where "best' = (if zr_len best < Suc rl then \<lparr>zr_start = int (n - rl), zr_len = Suc rl\<rparr> else best)"
    have s: "scan_group g n st = (best', n - rl, Suc rl)"
      using True B by (auto simp: scan_group_def st best'_def)
    have z: "zeros g (n - rl) (Suc rl)"
      using zeros_snoc [of g "n - rl" n] B True by (simp add: Suc_diff_le)
    have A': "zr_len best' = 0 \<or> (\<exists>s. zr_start best' = int s \<and> s + zr_len best' \<le> Suc n \<and> zeros g s (zr_len best'))"
    proof (cases "zr_len best < Suc rl")
      case True
      then show ?thesis
        using z B(1) by (intro disjI2 exI [of _ "n - rl"]) (simp add: best'_def)
    qed (use A in \<open>auto simp: best'_def\<close>)
    have B': "Suc n - s \<le> Suc rl" if "s \<le> Suc n" "zeros g s (Suc n - s)" for s
      using that zeros_last [of g s n] B(4) [of s] by (cases "s = Suc n") auto
    have C': "l < zr_len best' \<or> (l = zr_len best' \<and> zr_start best' \<le> int s)" if l: "0 < l" "s + l \<le> Suc n" "zeros g s l" for s l
    proof (cases "s + l = Suc n")
      case True
      then have "n - s \<le> rl" "s \<le> n"
        using end_at [OF l(1) True l(3)] B(4) by blast+
      with True A show ?thesis
        by (auto simp: best'_def)
    next
      case False
      then show ?thesis
        using C [OF l(1) _ l(3)] l(2) by (auto simp: best'_def)
    qed
    show ?thesis
      unfolding scan_inv_def s using A' B' C' z B(1) by auto
  qed
qed

lemma scan_inv_fold: "scan_inv g n (fold (scan_group g) [0..<n] (no_run, 0, 0))"
  by (induction n) (auto simp: scan_inv_step, auto simp: scan_inv_def no_run_def zeros_def)

lemma find_longest_zero_run_spec:
  assumes "find_longest_zero_run g = run"
  shows "(run = no_run \<and> (\<forall>s l. 2 \<le> l \<and> s + l \<le> 8 \<longrightarrow> \<not> zeros g s l)) \<or>
    (\<exists>s. zr_start run = int s \<and> 2 \<le> zr_len run \<and> s + zr_len run \<le> 8 \<and> zeros g s (zr_len run) \<and>
      (\<forall>s' l. s' + l \<le> 8 \<and> zeros g s' l \<longrightarrow> l < zr_len run \<or> (l = zr_len run \<and> s \<le> s')))"
proof -
  define best where "best = fst (fold (scan_group g) [0..<8] (no_run, 0, 0))"
  have I: "zr_len best = 0 \<or> (\<exists>s. zr_start best = int s \<and> s + zr_len best \<le> 8 \<and> zeros g s (zr_len best))"
      "\<And>s l. 0 < l \<Longrightarrow> s + l \<le> 8 \<Longrightarrow> zeros g s l \<Longrightarrow> l < zr_len best \<or> (l = zr_len best \<and> zr_start best \<le> int s)"
    using scan_inv_fold [of g 8] unfolding scan_inv_def best_def by (auto split: prod.splits)
  show ?thesis
  proof (cases "zr_len best < 2")
    case True
    then have "run = no_run"
      using assms by (simp add: find_longest_zero_run_def flip: best_def)
    moreover have "\<not> zeros g s l" if "2 \<le> l" "s + l \<le> 8" for s l
      using I(2) [of l s] that True by auto
    ultimately show ?thesis
      by blast
  next
    case False
    then have r: "run = best"
      using assms by (simp add: find_longest_zero_run_def flip: best_def)
    obtain s where s: "zr_start best = int s" "s + zr_len best \<le> 8" "zeros g s (zr_len best)"
      using I(1) False by auto
    moreover have "l < zr_len best \<or> (l = zr_len best \<and> s \<le> s')" if "s' + l \<le> 8" "zeros g s' l" for s' l
      using I(2) [of l s'] that s False by (cases "l = 0") auto
    ultimately show ?thesis
      using False by (intro disjI2 exI [of _ s]) (simp add: r)
  qed
qed

section \<open>The text of an address\<close>

lemma length_join_hex: "length (join '':'' (hex_groups gs)) \<le> 5 * length gs"
proof (induction gs)
  case (Cons g gs)
  with hex_length [of g] show ?case
    by (cases gs) (auto simp: hex_groups_def)
qed (simp add: hex_groups_def)

lemma emit_canonical_plain:
  assumes "length g = 8"
  shows "emit_canonical g no_run = Some (Inr (join '':'' (hex_groups g)))"
  using emit_loop_groups [of 0 8 g no_run 9 "[]"] assms
  by (simp add: emit_canonical_def no_run_def numeral_eq_Suc)

lemma emit_loop_end: "emit_loop (Suc f) g run 8 buf = Some (Inr buf)"
  by simp

lemma emit_canonical_collapsed:
  assumes "length g = 8" "zr_start run = int s" "2 \<le> zr_len run" "s + zr_len run \<le> 8"
  shows "emit_canonical g run =
    Some (Inr (join '':'' (hex_groups (take s g)) @ ''::'' @ join '':'' (hex_groups (drop (s + zr_len run) g))))"
proof -
  let ?l = "zr_len run" and ?a = "join '':'' (hex_groups (take s g))"
  let ?e = "s + ?l"
  have la: "length ?a \<le> 5 * s"
    using length_join_hex [of "take s g"] assms by simp
  have "emit_loop 9 g run 0 [] = emit_loop (9 - s) g run s ?a"
  proof (cases "s = 0")
    case False
    then show ?thesis
      using emit_loop_groups [of 0 s g run 9 "[]"] assms by simp
  qed (simp add: hex_groups_def)
  also have "\<dots> = emit_loop (8 - s) g run ?e (?a @ ''::'')"
  proof -
    have "9 - s = Suc (8 - s)" "\<not> 8 \<le> s" "put_colons ''::'' ?a = Inr (?a @ ''::'')"
      using assms la by (auto simp: put_colons_def)
    then show ?thesis
      using assms by simp
  qed
  also have "\<dots> = Some (Inr ((?a @ ''::'') @ join '':'' (hex_groups (drop ?e g))))"
  proof (cases "?e = 8")
    case True
    then obtain f where "8 - s = Suc f"
      using assms by (cases "8 - s") auto
    with True assms show ?thesis
      by (simp add: hex_groups_def)
  next
    case False
    have "emit_loop (8 - s) g run ?e (?a @ ''::'') =
        emit_loop (8 - s - (8 - ?e)) g run 8 ((?a @ ''::'') @ join '':'' (hex_groups (take (8 - ?e) (drop ?e g))))"
      by (rule emit_loop_groups) (use assms False la in auto)
    moreover obtain f where "8 - s - (8 - ?e) = Suc f"
      using assms by (cases "8 - s - (8 - ?e)") auto
    moreover have "take (8 - ?e) (drop ?e g) = drop ?e g"
      using assms by simp
    ultimately show ?thesis
      by simp
  qed
  finally show ?thesis
    by (simp add: emit_canonical_def)
qed

section \<open>The printed text is parsed back\<close>

lemma hex_chars: "list_all number_char (show_base 16 n)"
  using show_base_digits [of 16 n] digits_ok_number_char [of 16 "show_base 16 n"] by simp

lemma segments_join_hex: "gs \<noteq> [] \<Longrightarrow> segments (CHR '':'') (join '':'' (hex_groups gs)) = hex_groups gs"
  using hex_chars by (intro segments_join_id) (auto simp: hex_groups_def list_all_iff number_char_def)

lemma split_colons:
  "string_split txt (CHR '':'') False =
     (if last (segments (CHR '':'') txt) = [] then butlast (segments (CHR '':'') txt) else segments (CHR '':'') txt)"
  by (simp add: string_split_segments keep_token_def)

definition group_bytes :: "16 word \<Rightarrow> 8 word list" where
  "group_bytes g = [word_of_nat (unat g div 256), word_of_nat (unat g mod 256)]"

definition bytes_of :: "16 word list \<Rightarrow> 8 word list" where
  "bytes_of gs = concat (map group_bytes gs)"

lemma length_bytes_of [simp]: "length (bytes_of gs) = 2 * length gs"
  by (induction gs) (simp_all add: bytes_of_def group_bytes_def)

lemma bytes_of_simps [simp]:
  "bytes_of [] = []" "bytes_of (g # gs) = group_bytes g @ bytes_of gs" "bytes_of (gs @ hs) = bytes_of gs @ bytes_of hs"
  by (simp_all add: bytes_of_def)

lemma group_bytes_join: "group_bytes (push_bit 8 (ucast a) OR ucast b) = [a, b]" for a b :: "8 word"
proof -
  let ?g = "push_bit 8 (ucast a) OR ucast b :: 16 word"
  have "unat ?g div 256 = drop_bit 8 (unat ?g)" "unat ?g mod 256 = take_bit 8 (unat ?g)"
    by (simp_all add: drop_bit_eq_div take_bit_eq_mod)
  moreover have "word_of_nat (drop_bit 8 (unat ?g)) = a"
    by (rule bit_eqI) (auto simp: bit_simps dest: bit_imp_le_length)
  moreover have "word_of_nat (take_bit 8 (unat ?g)) = b"
    by (rule bit_eqI) (auto simp: bit_simps dest: bit_imp_le_length)
  ultimately show ?thesis
    by (simp only: group_bytes_def)
qed

lemma bytes_of_assemble:
  assumes "length bytes = 16"
  shows "bytes_of (assemble_groups bytes) = bytes"
proof -
  have u: "[0..<8] = [0, 1, 2, 3, 4, 5, 6, 7]" "[0..<16] = [0, 1, 2, 3, 4, 5, 6, 7, 8, 9, 10, 11, 12, 13, 14, 15]"
    by code_simp+
  have "bytes_of (assemble_groups bytes) = map ((!) bytes) [0..<16]"
    by (simp add: assemble_groups_def u group_bytes_join)
  then show ?thesis
    using map_nth [of bytes] assms by simp
qed

text \<open>An address under construction: the octets written so far, the rest zero.\<close>

definition ip_prefix_of :: "ip_version_T \<Rightarrow> 8 word list \<Rightarrow> ip_representation" where
  "ip_prefix_of v P = \<lparr>ip_version = v, ip_octets = P @ replicate (16 - length P) 0, ip_mask = 0xFFFF\<rparr>"

abbreviation ip_prefix :: "8 word list \<Rightarrow> ip_representation" where
  "ip_prefix \<equiv> ip_prefix_of IPV6"

lemma set_octet_prefix: "length P < 16 \<Longrightarrow> set_octet (length P) b (ip_prefix_of v P) = Inr (ip_prefix_of v (P @ [b]))"
  by (cases "16 - length P") (simp_all add: set_octet_def ip_prefix_of_def list_update_append)

lemma zero_fill_prefix:
  "length P + 2 * n \<le> 16 \<Longrightarrow>
   zero_fill n (length P) (ip_prefix P) = Inr (length P + 2 * n, ip_prefix (P @ replicate (2 * n) 0))"
proof (induction n arbitrary: P)
  case (Suc n)
  from Suc.IH [of "P @ [0, 0]"] Suc.prems show ?case
    using set_octet_prefix [of P 0 IPV6] set_octet_prefix [of "P @ [0]" 0 IPV6]
    by (simp add: replicate_app_Cons_same)
qed simp

lemma parse_hex_group_prefix:
  assumes "length P \<le> 14"
  shows "parse_hex_group (replicate (4 - length (show_base 16 (unat g))) CHR ''0'' @ show_base 16 (unat g)) (length P) (ip_prefix P) =
    Inr (length P + 2, ip_prefix (P @ group_bytes g))"
proof -
  let ?n = "unat g"
  have n: "?n < 65536"
    using unsigned_less [of g, where 'a = nat] by simp
  have d: "?n div 4096 < 16" "?n div 256 mod 16 < 16" "?n div 16 mod 16 < 16" "?n mod 16 < 16"
    using n by (auto simp: less_mult_imp_div_less)
  have v: "16 * (?n div 4096) + ?n div 256 mod 16 = ?n div 256" "16 * (?n div 16 mod 16) + ?n mod 16 = ?n mod 256"
    by (simp_all add: div_mult2_eq [of ?n 256 16, simplified] mod_mult2_eq [of ?n 16 16, simplified])
  show ?thesis
    unfolding parse_hex_group_def hex_group_text [OF n]
    using strtol_hex_pair [OF d(1,2)] strtol_hex_pair [OF d(3,4)] assms v
      set_octet_prefix [of P] set_octet_prefix [of "P @ [x]" for x]
    by (simp add: substr_def group_bytes_def)
qed

lemma hex_not_star: "show_base 16 n \<noteq> ''*''"
  using hex_chars [of n] by (auto simp: number_char_def)

lemma apply_hex_part:
  assumes "length P \<le> 14" "parts ! i = show_base 16 (unat g)"
  shows "apply_ipv6_part parts i (length P) om (ip_prefix P) = Inr (length P + 2, ip_prefix (P @ group_bytes g))"
proof -
  have l: "length (replicate (4 - length (parts ! i)) CHR ''0'' @ parts ! i) = 4"
    using hex_length [of g] assms(2) by simp
  show ?thesis
    unfolding apply_ipv6_part_def Let_def l
    using parse_hex_group_prefix [OF assms(1), of g] hex_not_star hex_not_Nil assms(2) by simp
qed

lemma apply_hex_parts:
  "parts = A @ hex_groups gs @ B \<Longrightarrow> length P + 2 * length gs \<le> 16 \<Longrightarrow>
   apply_ipv6_parts parts ([length A..<length A + length gs] @ is) (length P) om (ip_prefix P) =
     apply_ipv6_parts parts is (length P + 2 * length gs) om (ip_prefix (P @ bytes_of gs))"
proof (induction gs arbitrary: A P)
  case (Cons g gs)
  have h: "parts ! length A = show_base 16 (unat g)"
    using Cons.prems(1) by (simp add: hex_groups_def)
  have u: "[length A..<length A + length (g # gs)] = length A # [Suc (length A)..<Suc (length A) + length gs]"
    by (simp add: upt_conv_Cons del: upt_Suc)
  have len: "length (group_bytes g) = 2"
    by (simp add: group_bytes_def)
  have "apply_ipv6_parts parts ([length (A @ [show_base 16 (unat g)])..<length (A @ [show_base 16 (unat g)]) + length gs] @ is)
      (length (P @ group_bytes g)) om (ip_prefix (P @ group_bytes g)) =
      apply_ipv6_parts parts is (length (P @ group_bytes g) + 2 * length gs) om (ip_prefix ((P @ group_bytes g) @ bytes_of gs))"
    by (rule Cons.IH) (use Cons.prems len in \<open>simp_all add: hex_groups_def\<close>)
  then show ?case
    using apply_hex_part [OF _ h, of P om] Cons.prems(2) unfolding u by (simp add: len del: upt_Suc)
qed (simp add: hex_groups_def)

text \<open>The parts the walk sees: the groups before the collapse, its placeholder, the groups after.\<close>

lemma apply_collapsed:
  assumes "length pre + n + length post = 8" "unat om = n"
  shows "apply_ipv6_parts (hex_groups pre @ [[]] @ hex_groups post) [0..<length pre + 1 + length post] 0 om (ip_prefix []) =
    Inr (ip_prefix (bytes_of pre @ replicate (2 * n) 0 @ bytes_of post))"
proof -
  let ?parts = "hex_groups pre @ [[]] @ hex_groups post"
  have lh: "length (hex_groups gs) = length gs" for gs
    by (simp add: hex_groups_def)
  have u: "[0..<length pre + 1 + length post] =
      [0..<length pre] @ length pre # [Suc (length pre)..<Suc (length pre) + length post]"
    using upt_add_eq_append [of 0 "length pre" "1 + length post"]
    by (simp add: upt_conv_Cons add.assoc del: upt_Suc)
  have 1: "apply_ipv6_parts ?parts [0..<length pre + 1 + length post] 0 om (ip_prefix []) =
      apply_ipv6_parts ?parts (length pre # [Suc (length pre)..<Suc (length pre) + length post]) (2 * length pre) om (ip_prefix (bytes_of pre))"
    using apply_hex_parts [of ?parts "[]" pre "[[]] @ hex_groups post" "[]"] assms(1) unfolding u
    by (simp del: upt_Suc apply_ipv6_parts.simps)
  have "apply_ipv6_part ?parts (length pre) (2 * length pre) om (ip_prefix (bytes_of pre)) =
      Inr (2 * length pre + 2 * n, ip_prefix (bytes_of pre @ replicate (2 * n) 0))"
    using zero_fill_prefix [of "bytes_of pre" n] assms by (simp add: apply_ipv6_part_def lh nth_append)
  moreover have "apply_ipv6_parts ?parts [Suc (length pre)..<Suc (length pre) + length post] (2 * length pre + 2 * n) om
      (ip_prefix (bytes_of pre @ replicate (2 * n) 0)) = Inr (ip_prefix (bytes_of pre @ replicate (2 * n) 0 @ bytes_of post))"
    using apply_hex_parts [of ?parts "hex_groups pre @ [[]]" post "[]" "bytes_of pre @ replicate (2 * n) 0" "[]" om] assms(1)
    by (simp add: lh del: upt_Suc)
  ultimately show ?thesis
    using 1 by (simp del: upt_Suc)
qed

lemma show_byte_chars: "list_all number_char (show_nat n)"
  using show_base_digits [of 10 n] digits_ok_number_char [of 10 "show_base 10 n"] by (simp add: show_nat_def)

lemma number_text_facts:
  assumes "list_all number_char s"
  shows "CHR ''.'' \<notin> set s" "CHR '':'' \<notin> set s" "CHR ''*'' \<notin> set s"
  using assms by (metis list_all_iff number_char_def)+

lemma show_byte_facts:
  "show_nat n \<noteq> []" "show_nat n \<noteq> ''*''" "CHR ''.'' \<notin> set (show_nat n)" "CHR '':'' \<notin> set (show_nat n)"
proof -
  show "show_nat n \<noteq> []"
    using show_base_digits [of 10 n] by (simp add: show_nat_def)
  show "show_nat n \<noteq> ''*''" "CHR ''.'' \<notin> set (show_nat n)" "CHR '':'' \<notin> set (show_nat n)"
    using number_text_facts [OF show_byte_chars [of n]] by (metis list.set_intros(1))+
qed

lemma byte_less: "unat (b :: 8 word) < 256" "uint (b :: 8 word) \<le> 255"
  using unsigned_less [of b, where 'a = nat] unsigned_less [of b, where 'a = int] by simp_all

lemma parse_octets_prefix:
  "length P + length bs \<le> 16 \<Longrightarrow>
   parse_octets_from (length P) (map (\<lambda>b. show_nat (unat b)) bs) (ip_prefix_of v P) = Inr (ip_prefix_of v (P @ bs))"
proof (induction bs arbitrary: P)
  case (Cons b bs)
  have "strtol 10 (show_nat (unat b)) = (int (unat b), [])"
    using byte_less [of b] by (intro strtol_show_nat) simp
  then have "parse_decimal_octet (length P) (show_nat (unat b)) (ip_prefix_of v P) = Inr (ip_prefix_of v (P @ [b]))"
    using Cons.prems byte_less [of b] set_octet_prefix [of P b v] by (simp add: parse_decimal_octet_def show_byte_facts Let_def)
  with Cons.IH [of "P @ [b]"] Cons.prems show ?case
    by simp
qed simp

lemma split_dotted: "bs \<noteq> [] \<Longrightarrow> string_split (dotted bs) (CHR ''.'') True = map (\<lambda>b. show_nat (unat b)) bs"
  using segments_join_id [of "map (\<lambda>b. show_nat (unat b)) bs" "CHR ''.''"]
  by (simp add: string_split_collapse dotted_def show_byte_facts)

lemma dotted_length: "length (dotted bs) \<le> 4 * length bs - 1"
proof (induction bs)
  case (Cons b bs)
  have "length (show_nat (unat b)) \<le> 3"
    using show_base_length [of "unat b" 2] byte_less [of b] by (simp add: show_nat_def)
  with Cons show ?case
    by (cases bs) (auto simp: dotted_def)
qed (simp add: dotted_def)

lemma dotted_no_colon: "CHR '':'' \<notin> set (dotted bs)"
proof (induction bs)
  case (Cons b bs)
  then show ?case
    by (cases bs) (simp_all add: dotted_def show_byte_facts)
qed (simp add: dotted_def)

lemma parse_dotted:
  assumes "length bs = 4"
  shows "ip_of_string (dotted bs) = Inr (ip_prefix_of IPV4 (replicate 12 0 @ bs))"
proof -
  have "bs \<noteq> []"
    using assms by auto
  moreover have "(blank_ip IPV4)\<lparr>ip_version := IPV4\<rparr> = ip_prefix_of IPV4 (replicate 12 0)"
    by (simp add: blank_ip_def ip_prefix_of_def flip: replicate_add)
  ultimately show ?thesis
    using parse_octets_prefix [of "replicate 12 0" bs IPV4] assms
    by (simp add: ip_of_string_def dotted_no_colon parse_ipv4_def split_dotted)
qed

lemma hex_groups_filter: "filter (\<lambda>p. p = []) (hex_groups gs) = []"
  by (auto simp: hex_groups_def hex_not_Nil filter_empty_conv)

lemma length_hex_groups [simp]: "length (hex_groups gs) = length gs"
  by (simp add: hex_groups_def)

lemma hex_groups_last: "gs \<noteq> [] \<Longrightarrow> last (hex_groups gs) \<noteq> [] \<and> CHR ''.'' \<notin> set (last (hex_groups gs))"
  using number_text_facts(1) [OF hex_chars] by (simp add: hex_groups_def last_map hex_not_Nil)

lemma parse_ipv6_start: "(blank_ip IPV4)\<lparr>ip_version := IPV6\<rparr> = ip_prefix []"
  by (simp add: blank_ip_def ip_prefix_of_def)

lemma parse_plain:
  assumes "length g = 8"
  shows "ip_of_string (join '':'' (hex_groups g)) = Inr (ip_prefix (bytes_of g))"
proof -
  have ne: "g \<noteq> []"
    using assms by auto
  have "CHR '':'' \<in> set (join '':'' (hex_groups g))"
    using segments_join_hex [OF ne] segments_no_sep [of "CHR '':''" "join '':'' (hex_groups g)"] assms
    by (metis length_Cons length_hex_groups list.size(3) n_not_Suc_n numeral_eq_one_iff One_nat_def semiring_norm(85))
  moreover have "string_split (join '':'' (hex_groups g)) (CHR '':'') False = hex_groups g"
    using hex_groups_last [OF ne] by (simp add: split_colons segments_join_hex [OF ne])
  moreover have "compute_ipv6_omitted_segments (hex_groups g) = Inr (1, hex_groups g)"
    using assms by (simp add: compute_ipv6_omitted_segments_def hex_groups_filter)
  moreover have "apply_ipv6_parts (hex_groups g) [0..<8] 0 1 (ip_prefix []) = Inr (ip_prefix (bytes_of g))"
    using apply_hex_parts [of "hex_groups g" "[]" g "[]" "[]" "[]" 1] assms by (simp del: upt_Suc)
  ultimately show ?thesis
    using assms by (simp add: ip_of_string_def parse_ipv6_def parse_ipv6_start)
qed

lemma split_collapsed:
  "string_split (join '':'' (hex_groups pre) @ ''::'' @ join '':'' (hex_groups post)) (CHR '':'') False =
     (if pre = [] then [[]] else hex_groups pre) @ [[]] @ hex_groups post"
proof -
  let ?seg = "\<lambda>gs. if gs = [] then [[]] else hex_groups gs"
  have S: "segments (CHR '':'') (join '':'' (hex_groups gs)) = ?seg gs" for gs
    using segments_join_hex by (simp add: hex_groups_def)
  have "segments (CHR '':'') (join '':'' (hex_groups pre) @ ''::'' @ join '':'' (hex_groups post)) = ?seg pre @ [[]] @ ?seg post"
    by (simp add: segments_append S)
  then show ?thesis
    using hex_groups_last [of post] by (auto simp: split_colons butlast_append hex_groups_def)
qed

lemma compute_collapsed:
  assumes "length pre + n + length post = 8" "2 \<le> n"
  shows "\<exists>om. unat om = n \<and>
    compute_ipv6_omitted_segments ((if pre = [] then [[]] else hex_groups pre) @ [[]] @ hex_groups post) =
      Inr (om, hex_groups pre @ [[]] @ hex_groups post)"
proof (cases "pre = []")
  case True
  let ?k = "2 + length post"
  have V: "1 \<le> ?k" "?k \<le> 8"
    using assms True by auto
  note W = omitted_value [OF V]
  have "CHR ''.'' \<notin> set (last ([[], []] @ hex_groups post))"
    using hex_groups_last [of post] by (cases "post = []") (auto simp: hex_groups_def)
  then have "compute_ipv6_omitted_segments ([[], []] @ hex_groups post) =
      Inr (8 - (of_nat ?k - 1) + 1, [[]] @ hex_groups post)"
    using W(3) by (simp add: compute_ipv6_omitted_segments_def Let_def hex_groups_filter)
  then show ?thesis
    using W(2) True assms by (intro exI [of _ "8 - (of_nat ?k - 1) + 1"]) (simp add: hex_groups_def)
next
  case False
  let ?k = "length pre + 1 + length post"
  have V: "1 \<le> ?k" "?k \<le> 8"
    using assms by auto
  note W = omitted_value [OF V]
  have "compute_ipv6_omitted_segments (hex_groups pre @ [[]] @ hex_groups post) =
      Inr (8 - (of_nat ?k - 1), hex_groups pre @ [[]] @ hex_groups post)"
    using W(3) by (simp add: compute_ipv6_omitted_segments_def Let_def hex_groups_filter)
  then show ?thesis
    using W(1) False assms by (intro exI [of _ "8 - (of_nat ?k - 1)"]) simp
qed

lemma parse_collapsed:
  assumes "length pre + n + length post = 8" "2 \<le> n"
  shows "ip_of_string (join '':'' (hex_groups pre) @ ''::'' @ join '':'' (hex_groups post)) =
    Inr (ip_prefix (bytes_of pre @ replicate (2 * n) 0 @ bytes_of post))"
proof -
  obtain om where om: "unat om = n"
      "compute_ipv6_omitted_segments ((if pre = [] then [[]] else hex_groups pre) @ [[]] @ hex_groups post) =
        Inr (om, hex_groups pre @ [[]] @ hex_groups post)"
    using compute_collapsed [OF assms] by blast
  have "length ((if pre = [] then [[]] else hex_groups pre) @ [[]] @ hex_groups post) \<le> 8"
    using assms by auto
  then show ?thesis
    using om(2) apply_collapsed [OF assms(1) om(1)]
    unfolding ip_of_string_def parse_ipv6_def split_collapsed Let_def parse_ipv6_start
    by (simp del: upt_Suc add: add.assoc)
qed

lemma split_zeros:
  assumes "zeros g s l" "s + l \<le> length g"
  shows "g = take s g @ replicate l 0 @ drop (s + l) g"
proof -
  have "take l (drop s g) = replicate l 0"
    using assms by (intro nth_equalityI) (auto simp: zeros_def)
  then show ?thesis
    by (metis append_take_drop_id drop_drop add.commute)
qed

lemma bytes_of_zeros: "bytes_of (replicate l 0) = replicate (2 * l) 0"
  by (induction l) (simp_all add: group_bytes_def)

lemma parse_emitted:
  assumes "length g = 8"
  shows "\<exists>txt. emit_canonical g (find_longest_zero_run g) = Some (Inr txt) \<and> ip_of_string txt = Inr (ip_prefix (bytes_of g))"
proof -
  consider "find_longest_zero_run g = no_run"
    | s where "zr_start (find_longest_zero_run g) = int s" "2 \<le> zr_len (find_longest_zero_run g)"
        "s + zr_len (find_longest_zero_run g) \<le> 8" "zeros g s (zr_len (find_longest_zero_run g))"
    using find_longest_zero_run_spec [OF refl, of g] by blast
  then show ?thesis
  proof cases
    case 1
    with emit_canonical_plain [OF assms] parse_plain [OF assms] show ?thesis
      by auto
  next
    case (2 s)
    let ?l = "zr_len (find_longest_zero_run g)"
    have g: "g = take s g @ replicate ?l 0 @ drop (s + ?l) g"
      using split_zeros [OF 2(4)] 2(3) assms by simp
    have "bytes_of g = bytes_of (take s g) @ replicate (2 * ?l) 0 @ bytes_of (drop (s + ?l) g)"
      by (subst g) (simp add: bytes_of_zeros)
    moreover have "length (take s g) + ?l + length (drop (s + ?l) g) = 8"
      using 2 assms by simp
    ultimately show ?thesis
      using emit_canonical_collapsed [OF assms 2(1-3)] parse_collapsed [OF _ 2(2)] by auto
  qed
qed

lemma parse_mapped:
  assumes "length bs = 4"
  shows "ip_of_string (''::ffff:'' @ dotted bs) = Inr (ip_prefix (replicate 10 0 @ [0xFF, 0xFF] @ bs))"
proof -
  let ?d = "dotted bs" and ?parts = "[[], ''ffff'', dotted bs]"
  have ne: "bs \<noteq> []"
    using assms by auto
  have d: "?d \<noteq> []" "CHR ''.'' \<in> set ?d" "\<not> length ?d \<le> 4" "?d \<noteq> ''*''"
  proof -
    obtain a b c e where "bs = [a, b, c, e]"
      using assms by (auto simp: numeral_eq_Suc length_Suc_conv)
    then show "?d \<noteq> []" "CHR ''.'' \<in> set ?d" "\<not> length ?d \<le> 4"
      using show_byte_facts(1) [of "unat a"] show_byte_facts(1) [of "unat b"]
        show_byte_facts(1) [of "unat c"] show_byte_facts(1) [of "unat e"]
      by (auto simp: dotted_def Suc_le_eq not_le simp flip: length_greater_0_conv)
    then show "?d \<noteq> ''*''"
      by auto
  qed
  have "segments (CHR '':'') (''::ffff:'' @ ?d) = [[], [], ''ffff'', ?d]"
    using segments_no_sep [OF dotted_no_colon, of bs] by simp
  then have "string_split (''::ffff:'' @ ?d) (CHR '':'') False = [[], [], ''ffff'', ?d]"
    using d by (simp add: split_colons)
  moreover have "compute_ipv6_omitted_segments [[], [], ''ffff'', ?d] = Inr (5, ?parts)"
    using d by (simp add: compute_ipv6_omitted_segments_def)
  moreover have "apply_ipv6_part ?parts 0 0 5 (ip_prefix []) = Inr (10, ip_prefix (replicate 10 0))"
    using zero_fill_prefix [of "[]" 5] by (simp add: apply_ipv6_part_def)
  moreover have "apply_ipv6_part ?parts 1 10 5 (ip_prefix (replicate 10 0)) = Inr (12, ip_prefix (replicate 10 0 @ [0xFF, 0xFF]))"
  proof -
    have "char_of (102 :: nat) = CHR ''f''"
      by code_simp
    then have "show_base 16 (unat (0xFFFF :: 16 word)) = ''ffff''" "group_bytes 0xFFFF = [0xFF, 0xFF]"
      by (simp_all add: show_base.simps digit_char_def group_bytes_def)
    then show ?thesis
      using apply_hex_part [of "replicate 10 0" ?parts 1 "0xFFFF" 5] by simp
  qed
  moreover have "apply_ipv6_part ?parts 2 12 5 (ip_prefix (replicate 10 0 @ [0xFF, 0xFF])) =
      Inr (12, ip_prefix (replicate 10 0 @ [0xFF, 0xFF] @ bs))"
  proof -
    have "validate_ipv4_mapped_prefix (ip_octets (ip_prefix (replicate 10 0 @ [0xFF, 0xFF]))) = None"
      by code_simp
    then have "parse_nested_ipv4 ?parts 2 12 (ip_prefix (replicate 10 0 @ [0xFF, 0xFF])) = Inr (ip_prefix (replicate 10 0 @ [0xFF, 0xFF] @ bs))"
      using parse_octets_prefix [of "replicate 10 0 @ [0xFF, 0xFF]" bs IPV6] assms
      by (simp add: parse_nested_ipv4_def split_dotted [OF ne])
    then show ?thesis
      using d by (simp add: apply_ipv6_part_def)
  qed
  moreover have "[0..<length ?parts] = [0, 1, 2]"
    by (simp add: upt_rec)
  ultimately show ?thesis
    by (simp add: ip_of_string_def parse_ipv6_def parse_ipv6_start Let_def numeral_2_eq_2)
qed

lemma mapped_bytes:
  assumes "length bytes = 16" "is_ipv4_mapped (assemble_groups bytes)"
  shows "bytes = replicate 10 0 @ [0xFF, 0xFF] @ [bytes ! 12, bytes ! 13, bytes ! 14, bytes ! 15]"
proof -
  let ?g = "assemble_groups bytes"
  have u: "[0..<8] = [0, 1, 2, 3, 4, 5, 6, 7]" "[0..<5] = [0, 1, 2, 3, 4]"
    by code_simp+
  have z: "?g ! 0 = 0" "?g ! 1 = 0" "?g ! 2 = 0" "?g ! 3 = 0" "?g ! 4 = 0" "?g ! 5 = 0xFFFF"
    using assms(2) by (simp_all add: is_ipv4_mapped_def u)
  have "?g = [?g ! 0, ?g ! 1, ?g ! 2, ?g ! 3, ?g ! 4, ?g ! 5, ?g ! 6, ?g ! 7]"
    by (simp add: assemble_groups_def u)
  then have g: "?g = [0, 0, 0, 0, 0, 0xFFFF, ?g ! 6, ?g ! 7]"
    unfolding z .
  have 67: "group_bytes (?g ! 6) = [bytes ! 12, bytes ! 13]" "group_bytes (?g ! 7) = [bytes ! 14, bytes ! 15]"
    by (simp_all add: assemble_groups_def u group_bytes_join)
  have c: "group_bytes 0 = [0, 0]" "group_bytes 0xFFFF = [0xFF, 0xFF]"
    by (simp_all add: group_bytes_def)
  have r: "replicate 10 x = [x, x, x, x, x, x, x, x, x, x]" for x :: "8 word"
    by (simp add: numeral_eq_Suc)
  have "bytes = bytes_of [0, 0, 0, 0, 0, 0xFFFF, ?g ! 6, ?g ! 7]"
    using bytes_of_assemble [OF assms(1)] g by metis
  then show ?thesis
    by (simp add: 67 c r)
qed

lemma parse_ipv6_canonical:
  assumes "length bytes = 16"
  shows "\<exists>txt. ipv6_canonical bytes = Some (Inr txt) \<and> ip_of_string txt = Inr (ip_prefix bytes)"
proof (cases "is_ipv4_mapped (assemble_groups bytes)")
  case True
  let ?bs = "[bytes ! 12, bytes ! 13, bytes ! 14, bytes ! 15]"
  have "length (dotted ?bs) \<le> 15"
    using dotted_length [of ?bs] by simp
  then have "ipv6_canonical bytes = Some (Inr (''::ffff:'' @ dotted ?bs))"
    using True by (simp add: ipv6_canonical_def format_ipv4_mapped_def read_printed_def)
  moreover have "ip_of_string (''::ffff:'' @ dotted ?bs) = Inr (ip_prefix bytes)"
    by (subst (5) mapped_bytes [OF assms True], rule parse_mapped) simp
  ultimately show ?thesis
    by blast
next
  case False
  have "length (assemble_groups bytes) = 8"
    by (simp add: assemble_groups_def)
  from parse_emitted [OF this] show ?thesis
    using False by (simp add: ipv6_canonical_def Let_def bytes_of_assemble [OF assms])
qed

section \<open>Properties\<close>

text \<open>C29: the printed form of a peer is faithful.  For every IPv4 or IPv6 socket address the printer
  terminates within its fuel, never leaves its buffers, and the text it returns is parsed to exactly
  the representation under which the access lists look the peer up.\<close>

theorem peer_text_parses_back:
  assumes "length (sin_addr sa) = 4" "length (sin6_addr sa) = 16" "sa_family sa \<noteq> AF_other"
  shows "\<exists>txt. peer_to_string (make_peer_address ntohs (Some sa)) = Some (Inr txt) \<and>
    ip_of_string txt = Inr (ip_of_sockaddr sa)"
proof (cases "sa_family sa = AF_INET")
  case True
  let ?t = "dotted (sin_addr sa)"
  have "length ?t < 16"
    using dotted_length [of "sin_addr sa"] assms(1) by simp
  then have "peer_to_string (make_peer_address ntohs (Some sa)) = Some (Inr ?t)"
    using True assms(1) by (simp add: peer_to_string_def make_peer_address_def read_printed_def)
  moreover have "ip_prefix_of IPV4 (replicate 12 0 @ sin_addr sa) = ip_of_sockaddr sa"
    using True assms(1) by (simp add: ip_prefix_of_def ip_of_sockaddr_def blank_ip_def)
  ultimately show ?thesis
    using parse_dotted [OF assms(1)] by auto
next
  case False
  then have f: "sa_family sa = AF_INET6"
    using assms(3) by (cases "sa_family sa") auto
  have "ip_prefix (sin6_addr sa) = ip_of_sockaddr sa"
    using f assms(2) by (simp add: ip_prefix_of_def ip_of_sockaddr_def blank_ip_def)
  with parse_ipv6_canonical [OF assms(2)] show ?thesis
    using f assms(2) by (simp add: peer_to_string_def make_peer_address_def)
qed

lemma peer_text_parses_back_witness:
  "\<exists>txt. peer_to_string (make_peer_address id (Some \<lparr>sa_family = AF_INET6, sin_addr = replicate 4 0,
       sin6_addr = [0x20, 0x01] @ replicate 13 0 @ [1], sin_port = 80\<rparr>)) = Some (Inr txt) \<and>
     ip_of_string txt = Inr (ip_of_sockaddr \<lparr>sa_family = AF_INET6, sin_addr = replicate 4 0,
       sin6_addr = [0x20, 0x01] @ replicate 13 0 @ [1], sin_port = 80\<rparr>)"
  by (rule peer_text_parses_back) simp_all

text \<open>the run of groups the printer collapses is the one RFC 5952 asks for: it has at least two
  zero groups, no other run is longer and none as long starts earlier; without such a run nothing
  is collapsed.\<close>

theorem collapsed_run_is_longest_leftmost:
  "if zr_len (find_longest_zero_run g) = 0
   then \<not> (\<exists>s l. 2 \<le> l \<and> s + l \<le> 8 \<and> zeros g s l)
   else (\<exists>s. zr_start (find_longest_zero_run g) = int s \<and> 2 \<le> zr_len (find_longest_zero_run g) \<and>
     s + zr_len (find_longest_zero_run g) \<le> 8 \<and> zeros g s (zr_len (find_longest_zero_run g)) \<and>
     \<not> (\<exists>s' l. s' + l \<le> 8 \<and> zeros g s' l \<and>
          (zr_len (find_longest_zero_run g) < l \<or> (l = zr_len (find_longest_zero_run g) \<and> s' < s))))"
  using find_longest_zero_run_spec [OF refl, of g] by (fastforce simp: no_run_def)

end
