(* ===== verification/Ip_Access_Control.thy ===== *)
theory Ip_Access_Control
  imports Peer_Address
begin

text \<open>
  The access lists (\<^verbatim>\<open>detail/ip_access_control.cpp\<close>), the reduction of list membership to a decision and
  the policy callback of the daemon (\<^verbatim>\<open>detail/webserver_callbacks.cpp\<close>), and the four methods of
  \<^verbatim>\<open>webserver\<close> that edit the lists.  The lists are \<^verbatim>\<open>std::set\<close>s ordered by \<^const>\<open>ip_less\<close>.  The standard
  defines the operations of a set only while its comparison is a strict weak ordering of the keys
  involved; the model checks exactly that and returns \<^const>\<open>undefined_behaviour\<close> otherwise, so the
  lemmas below say both what the lists do and when they may be used at all.
\<close>

section \<open>std::set with a comparison\<close>

definition equiv_by :: "('a \<Rightarrow> 'a \<Rightarrow> bool) \<Rightarrow> 'a \<Rightarrow> 'a \<Rightarrow> bool" where
  "equiv_by lt x y = (\<not> lt x y \<and> \<not> lt y x)"

text \<open>Strict weak ordering on a list of keys: irreflexive, transitive, with transitive equivalence.\<close>

definition swo_on :: "('a \<Rightarrow> 'a \<Rightarrow> bool) \<Rightarrow> 'a list \<Rightarrow> bool" where
  "swo_on lt xs =
     (list_all (\<lambda>x. \<not> lt x x) xs \<and>
      list_all (\<lambda>x. list_all (\<lambda>y. list_all (\<lambda>z.
        (lt x y \<and> lt y z \<longrightarrow> lt x z) \<and>
        (equiv_by lt x y \<and> equiv_by lt y z \<longrightarrow> equiv_by lt x z)) xs) xs) xs)"

definition with_order :: "('a \<Rightarrow> 'a \<Rightarrow> bool) \<Rightarrow> 'a \<Rightarrow> 'a list \<Rightarrow> 'b \<Rightarrow> 'b result" where
  "with_order lt x l r = (if swo_on lt (x # l) then Inr r else Inl (undefined_behaviour ''comparison is no strict weak ordering''))"

definition set_find :: "('a \<Rightarrow> 'a \<Rightarrow> bool) \<Rightarrow> 'a \<Rightarrow> 'a list \<Rightarrow> 'a option result" where
  "set_find lt x l = with_order lt x l (find (equiv_by lt x) l)"

definition set_count :: "('a \<Rightarrow> 'a \<Rightarrow> bool) \<Rightarrow> 'a \<Rightarrow> 'a list \<Rightarrow> bool result" where
  "set_count lt x l = with_order lt x l (list_ex (equiv_by lt x) l)"

definition set_insert :: "('a \<Rightarrow> 'a \<Rightarrow> bool) \<Rightarrow> 'a \<Rightarrow> 'a list \<Rightarrow> 'a list result" where
  "set_insert lt x l = with_order lt x l (if list_ex (equiv_by lt x) l then l else x # l)"

definition set_erase :: "('a \<Rightarrow> 'a \<Rightarrow> bool) \<Rightarrow> 'a \<Rightarrow> 'a list \<Rightarrow> 'a list result" where
  "set_erase lt x l = with_order lt x l (filter (\<lambda>y. \<not> equiv_by lt x y) l)"

section \<open>The access lists\<close>

record ip_access_control =
  deny_list :: "ip_representation list"
  allow_list :: "ip_representation list"

definition empty_acl :: ip_access_control where
  "empty_acl = \<lparr>deny_list = [], allow_list = []\<rparr>"

text \<open>Erasing by iterator removes the one element found.\<close>

definition insert_wildcard_aware :: "ip_representation \<Rightarrow> ip_representation list \<Rightarrow> ip_representation list result" where
  "insert_wildcard_aware t_ip l =
     bind_result (set_find ip_less t_ip l) (\<lambda>it.
       set_insert ip_less t_ip
         (case it of
            Some e \<Rightarrow> if ip_weight t_ip < ip_weight e then remove1 e l else l
          | None \<Rightarrow> l))"

definition acl_deny :: "string \<Rightarrow> ip_access_control \<Rightarrow> ip_access_control result" where
  "acl_deny txt acl =
     bind_result (ip_of_string txt) (\<lambda>ip.
     bind_result (insert_wildcard_aware ip (deny_list acl)) (\<lambda>l. Inr (acl\<lparr>deny_list := l\<rparr>)))"

definition acl_remove_denied :: "string \<Rightarrow> ip_access_control \<Rightarrow> ip_access_control result" where
  "acl_remove_denied txt acl =
     bind_result (ip_of_string txt) (\<lambda>ip.
     bind_result (set_erase ip_less ip (deny_list acl)) (\<lambda>l. Inr (acl\<lparr>deny_list := l\<rparr>)))"

definition acl_allow :: "string \<Rightarrow> ip_access_control \<Rightarrow> ip_access_control result" where
  "acl_allow txt acl =
     bind_result (ip_of_string txt) (\<lambda>ip.
     bind_result (insert_wildcard_aware ip (allow_list acl)) (\<lambda>l. Inr (acl\<lparr>allow_list := l\<rparr>)))"

definition acl_remove_allowed :: "string \<Rightarrow> ip_access_control \<Rightarrow> ip_access_control result" where
  "acl_remove_allowed txt acl =
     bind_result (ip_of_string txt) (\<lambda>ip.
     bind_result (set_erase ip_less ip (allow_list acl)) (\<lambda>l. Inr (acl\<lparr>allow_list := l\<rparr>)))"

definition acl_classify :: "ip_representation \<Rightarrow> ip_access_control \<Rightarrow> (bool \<times> bool) result" where
  "acl_classify peer acl =
     bind_result (set_count ip_less peer (deny_list acl)) (\<lambda>d.
     bind_result (set_count ip_less peer (allow_list acl)) (\<lambda>a. Inr (d, a)))"

section \<open>The policy callback\<close>

datatype policy_T = ACCEPT | REJECT

definition classify_decision :: "policy_T \<Rightarrow> bool \<Rightarrow> bool \<Rightarrow> bool \<times> string option" where
  "classify_decision default_policy is_denied is_allowed =
     (if default_policy = ACCEPT \<and> is_denied \<and> \<not> is_allowed then (False, Some ''denied'')
      else if default_policy = REJECT \<and> is_denied then (False, Some ''denied'')
      else if default_policy = REJECT \<and> \<not> is_allowed then (False, Some ''not-on-allow-list'')
      else (True, None))"

text \<open>The decision and the context handed to the \<^verbatim>\<open>accept_decision\<close> hooks, if any are registered.\<close>

record accept_ctx =
  ac_peer :: peer_address
  ac_accepted :: bool
  ac_reason :: "string option"

definition policy_callback ::
    "(16 word \<Rightarrow> 16 word) \<Rightarrow> bool \<Rightarrow> policy_T \<Rightarrow> bool \<Rightarrow> sockaddr \<Rightarrow> ip_access_control \<Rightarrow> (bool \<times> accept_ctx option) result" where
  "policy_callback ntohs enabled default_policy armed addr acl =
     bind_result
       (if enabled then
          bind_result (acl_classify (ip_of_sockaddr addr) acl) (\<lambda>(d, a). Inr (classify_decision default_policy d a))
        else Inr (True, None))
       (\<lambda>(accepted, reason).
          Inr (accepted,
               if armed then Some \<lparr>ac_peer = make_peer_address ntohs (Some addr), ac_accepted = accepted, ac_reason = reason\<rparr>
               else None))"

section \<open>Orderings given by a key\<close>

lemma swo_by_key: "(\<And>x y. x \<in> set xs \<Longrightarrow> y \<in> set xs \<Longrightarrow> lt x y \<longleftrightarrow> key x < (key y :: int)) \<Longrightarrow> swo_on lt xs"
  by (auto simp: swo_on_def equiv_by_def list_all_iff)

lemma swo_on_equiv:
  "swo_on lt xs \<Longrightarrow> x \<in> set xs \<Longrightarrow> y \<in> set xs \<Longrightarrow> z \<in> set xs \<Longrightarrow>
   equiv_by lt x y \<Longrightarrow> equiv_by lt y z \<Longrightarrow> equiv_by lt x z"
  unfolding swo_on_def list_all_iff by blast

text \<open>Plain IPv4 addresses, and the weighted sum the comparison reduces to on them.\<close>

abbreviation v4 :: "8 word list \<Rightarrow> ip_representation" where
  "v4 bs \<equiv> ip_prefix_of IPV4 (replicate 12 0 @ bs)"

definition v4_score :: "8 word list \<Rightarrow> int" where
  "v4_score bs = 4 * uint (bs ! 0) + 3 * uint (bs ! 1) + 2 * uint (bs ! 2) + uint (bs ! 3)"

lemma four_bytes: "length bs = 4 \<Longrightarrow> bs = [bs ! 0, bs ! 1, bs ! 2, bs ! 3]"
  by (auto simp: numeral_eq_Suc length_Suc_conv)

lemma check_bit_full: "i < 16 \<Longrightarrow> check_bit 0xFFFF i"
proof -
  assume i: "i < 16"
  have N: "(0xFFFF :: 16 word) = - 1"
    by simp
  have "push_bit i 1 \<noteq> (0 :: 16 word)"
    using i by (simp add: exp_eq_zero_iff)
  then show ?thesis
    unfolding check_bit_def N by simp
qed

definition masked_score :: "16 word \<Rightarrow> 16 word \<Rightarrow> 8 word list \<Rightarrow> int" where
  "masked_score m n bs =
     (\<Sum>(i, w) \<leftarrow> [(0, 4), (1, 3), (2, 2), (3, 1)].
        if check_bit m (12 + i) \<and> check_bit n (12 + i) then w * uint (bs ! i) else 0)"

lemma ip_less_masked:
  assumes "length as = 4" "length bs = 4"
  shows "ip_less ((v4 as)\<lparr>ip_mask := m\<rparr>) ((v4 bs)\<lparr>ip_mask := n\<rparr>) \<longleftrightarrow> masked_score m n as < masked_score m n bs"
proof -
  have u: "filter (\<lambda>i. i \<noteq> 10 \<and> i \<noteq> 11) [0..<16] = [0, 1, 2, 3, 4, 5, 6, 7, 8, 9, 12, 13, 14, 15]"
    by code_simp
  let ?acc = "accumulate_octet_score ((v4 as)\<lparr>ip_mask := m\<rparr>) ((v4 bs)\<lparr>ip_mask := n\<rparr>)"
  have z: "?acc i sc = sc" if "i < 12" for i sc
    using that by (cases sc) (simp add: accumulate_octet_score_def ip_prefix_of_def nth_append)
  have s: "?acc i (x, y) =
      (x + (if check_bit m i \<and> check_bit n i then (16 - int i) * uint (as ! (i - 12)) else 0),
       y + (if check_bit m i \<and> check_bit n i then (16 - int i) * uint (bs ! (i - 12)) else 0))"
      if "12 \<le> i" "i < 16" for i x y
    using that assms by (simp add: accumulate_octet_score_def ip_prefix_of_def nth_append)
  have acc: "fold ?acc [0, 1, 2, 3, 4, 5, 6, 7, 8, 9, 12, 13, 14, 15] (0, 0) = (masked_score m n as, masked_score m n bs)"
    by (simp add: z s masked_score_def cong: if_cong)
  have "is_v4_mapped_prefix_octet_pair (ip_octets ((v4 as)\<lparr>ip_mask := m\<rparr>) ! i) (ip_octets ((v4 bs)\<lparr>ip_mask := n\<rparr>) ! i)" if "i < 12" for i
    using that by (simp add: is_v4_mapped_prefix_octet_pair_def ip_prefix_of_def nth_append)
  then show ?thesis
    unfolding ip_less_def u acc Let_def by (simp add: z)
qed

lemma ip_less_v4:
  assumes "length as = 4" "length bs = 4"
  shows "ip_less (v4 as) (v4 bs) \<longleftrightarrow> v4_score as < v4_score bs"
  using ip_less_masked [OF assms, of "0xFFFF" "0xFFFF"]
  by (simp add: ip_prefix_of_def masked_score_def check_bit_full v4_score_def add.assoc)

text \<open>A list of plain IPv4 entries with the scores \<open>S\<close>.\<close>

definition v4_entries :: "ip_representation list \<Rightarrow> int set \<Rightarrow> bool" where
  "v4_entries l S = (\<exists>bss. l = map v4 bss \<and> (\<forall>bs \<in> set bss. length bs = 4) \<and> v4_score ` set bss = S)"

lemma v4_entries_equiv:
  assumes "v4_entries l S" "length p = 4"
  shows "swo_on ip_less (v4 p # l)" "list_ex (equiv_by ip_less (v4 p)) l \<longleftrightarrow> v4_score p \<in> S"
proof -
  obtain bss where l: "l = map v4 bss" "\<forall>bs \<in> set bss. length bs = 4" "v4_score ` set bss = S"
    using assms(1) by (auto simp: v4_entries_def)
  define key where "key ip = v4_score (drop 12 (ip_octets ip))" for ip :: ip_representation
  have key: "key (v4 bs) = v4_score bs" if "length bs = 4" for bs
    using that by (simp add: key_def ip_prefix_of_def)
  have all: "\<exists>bs. x = v4 bs \<and> length bs = 4" if "x \<in> set (v4 p # l)" for x
    using that l assms(2) by auto
  show "swo_on ip_less (v4 p # l)"
    by (rule swo_by_key [where key = key]) (metis all ip_less_v4 key)
  show "list_ex (equiv_by ip_less (v4 p)) l \<longleftrightarrow> v4_score p \<in> S"
    using l assms(2) by (auto simp: list_ex_iff equiv_by_def ip_less_v4 image_iff)
qed

lemma ip_weight_v4: "ip_weight (v4 as) = ip_weight (v4 bs)"
  by (simp add: ip_weight_def ip_prefix_of_def)

lemma insert_v4:
  assumes "v4_entries l S" "length p = 4"
  shows "\<exists>l'. insert_wildcard_aware (v4 p) l = Inr l' \<and> v4_entries l' (insert (v4_score p) S)"
proof -
  obtain bss where l: "l = map v4 bss" "\<forall>bs \<in> set bss. length bs = 4" "v4_score ` set bss = S"
    using assms(1) by (auto simp: v4_entries_def)
  note E = v4_entries_equiv [OF assms]
  have "\<not> ip_weight (v4 p) < ip_weight e" if F: "find (equiv_by ip_less (v4 p)) l = Some e" for e
  proof -
    obtain bs where "e = v4 bs"
      using F l(1) by (auto simp: find_Some_iff)
    then show ?thesis
      using ip_weight_v4 [of p bs] by simp
  qed
  then have "insert_wildcard_aware (v4 p) l = Inr (if v4_score p \<in> S then l else v4 p # l)"
    using E by (auto simp: insert_wildcard_aware_def set_find_def set_insert_def with_order_def split: option.splits)
  moreover have "v4_entries (v4 p # l) (insert (v4_score p) S)"
    unfolding v4_entries_def using l assms(2) by (intro exI [of _ "p # bss"]) auto
  ultimately show ?thesis
    using assms(1) by (auto simp: insert_absorb)
qed

fun deny_all :: "string list \<Rightarrow> ip_access_control \<Rightarrow> ip_access_control result" where
  "deny_all [] acl = Inr acl"
| "deny_all (t # ts) acl = bind_result (acl_deny t acl) (deny_all ts)"

lemma deny_all_v4:
  "v4_entries (deny_list acl) S \<Longrightarrow> \<forall>bs \<in> set bss. length bs = 4 \<Longrightarrow>
   \<exists>acl'. deny_all (map dotted bss) acl = Inr acl' \<and> v4_entries (deny_list acl') (v4_score ` set bss \<union> S) \<and>
     allow_list acl' = allow_list acl"
proof (induction bss arbitrary: acl S)
  case (Cons bs bss)
  obtain l' where l': "insert_wildcard_aware (v4 bs) (deny_list acl) = Inr l'" "v4_entries l' (insert (v4_score bs) S)"
    using insert_v4 [OF Cons.prems(1), of bs] Cons.prems(2) by auto
  then have "acl_deny (dotted bs) acl = Inr (acl\<lparr>deny_list := l'\<rparr>)"
    using Cons.prems(2) by (simp add: acl_deny_def parse_dotted)
  with Cons.IH [of "acl\<lparr>deny_list := l'\<rparr>" "insert (v4_score bs) S"] l' Cons.prems(2) show ?case
    by (simp add: Un_commute)
qed simp

section \<open>Properties\<close>

text \<open>C30: what the deny list decides for plain IPv4 addresses.  After any sequence of denials the set
  operations stay defined, and a peer is found on the list exactly when its weighted octet sum
  equals that of some denied address; every denied address is therefore denied.\<close>

theorem denied_iff_same_score:
  assumes "\<forall>bs \<in> set bss. length bs = 4" "length p = 4"
  shows "bind_result (deny_all (map dotted bss) empty_acl) (acl_classify (v4 p)) =
    Inr (v4_score p \<in> v4_score ` set bss, False)"
proof -
  have "v4_entries (deny_list empty_acl) {}"
    by (simp add: v4_entries_def empty_acl_def)
  from deny_all_v4 [OF this assms(1)] obtain acl where acl: "deny_all (map dotted bss) empty_acl = Inr acl"
      "v4_entries (deny_list acl) (v4_score ` set bss)" "allow_list acl = []"
    by (auto simp: empty_acl_def)
  have "v4_entries [] {}"
    by (simp add: v4_entries_def)
  from v4_entries_equiv [OF this assms(2)] v4_entries_equiv [OF acl(2) assms(2)] acl(1,3) show ?thesis
    by (simp add: acl_classify_def set_count_def with_order_def)
qed

lemma denied_iff_same_score_witness:
  "bind_result (deny_all (map dotted [[10, 0, 0, 2]]) empty_acl) (acl_classify (v4 [10, 0, 0, 2])) = Inr (True, False)"
  using denied_iff_same_score [of "[[10, 0, 0, 2]]" "[10, 0, 0, 2]"] by simp

lemma allow_v4:
  assumes "length bs = 4"
  shows "\<exists>l. acl_allow (dotted bs) empty_acl = Inr \<lparr>deny_list = [], allow_list = l\<rparr> \<and> v4_entries l {v4_score bs}"
proof -
  have "v4_entries [] {}"
    by (simp add: v4_entries_def)
  from insert_v4 [OF this assms] show ?thesis
    using assms by (auto simp: acl_allow_def parse_dotted empty_acl_def)
qed


text \<open>wildcard entries break the ordering the lists are built on.  A wildcard is equivalent to
  two addresses that are themselves ordered, so with \<^verbatim>\<open>10.0.0.1\<close> and \<^verbatim>\<open>10.0.0.2\<close> denied, adding
  \<^verbatim>\<open>10.0.0.*\<close> is an operation the standard leaves undefined.\<close>

theorem wildcard_entry_breaks_ordering:
  "let wild = (v4 [10, 0, 0, 0])\<lparr>ip_mask := 0x7FFF\<rparr> in
   equiv_by ip_less wild (v4 [10, 0, 0, 1]) \<and> equiv_by ip_less wild (v4 [10, 0, 0, 2]) \<and>
   ip_less (v4 [10, 0, 0, 1]) (v4 [10, 0, 0, 2]) \<and>
   insert_wildcard_aware wild [v4 [10, 0, 0, 1], v4 [10, 0, 0, 2]] =
     Inl (undefined_behaviour ''comparison is no strict weak ordering'')"
proof -
  let ?w = "(v4 [10, 0, 0, 0])\<lparr>ip_mask := 0x7FFF\<rparr>"
  have full: "v4 bs = (v4 bs)\<lparr>ip_mask := 0xFFFF\<rparr>" for bs
    by (simp add: ip_prefix_of_def)
  have "equiv_by ip_less ?w (v4 [10, 0, 0, x])" "equiv_by ip_less (v4 [10, 0, 0, x]) ?w" for x
    unfolding equiv_by_def by (subst (1 2) full, simp add: ip_less_masked masked_score_def check_bit_def)+
  moreover have l: "ip_less (v4 [10, 0, 0, 1]) (v4 [10, 0, 0, 2])"
    by (simp add: ip_less_v4 v4_score_def)
  then have "\<not> equiv_by ip_less (v4 [10, 0, 0, 1]) (v4 [10, 0, 0, 2])"
    by (simp add: equiv_by_def)
  ultimately have "\<not> swo_on ip_less (?w # [v4 [10, 0, 0, 1], v4 [10, 0, 0, 2]])"
    by (meson list.set_intros swo_on_equiv)
  with \<open>\<And>x. equiv_by ip_less ?w (v4 [10, 0, 0, x])\<close> l show ?thesis
    by (simp add: Let_def insert_wildcard_aware_def set_find_def with_order_def)
qed

text \<open>the decision of the policy callback.  Without access control every peer is accepted; with
  it, a peer on the deny list is accepted only if the default is to accept and the peer is on the
  allow list too, and a peer off the deny list is rejected only if the default is to reject and it
  is not on the allow list; hooks see the same decision.\<close>

theorem policy_callback_decides:
  "case policy_callback ntohs enabled pol armed addr acl of
     Inl e \<Rightarrow> enabled \<and> throws (acl_classify (ip_of_sockaddr addr) acl)
   | Inr (accepted, ctx) \<Rightarrow>
       (if enabled then
          (\<exists>d a. acl_classify (ip_of_sockaddr addr) acl = Inr (d, a) \<and>
             (accepted \<longleftrightarrow> (if d then pol = ACCEPT \<and> a else pol = ACCEPT \<or> a)))
        else accepted) \<and>
       (case ctx of None \<Rightarrow> \<not> armed | Some c \<Rightarrow> armed \<and> ac_accepted c = accepted \<and> (ac_reason c = None \<longleftrightarrow> accepted))"
  by (cases pol)
    (auto simp: policy_callback_def classify_decision_def bind_result_def split: sum.splits prod.splits option.splits if_splits)

end
