(* ===== verification/Webserver_Config.thy ===== *)
theory Webserver_Config
  imports Http_Request Ip_Access_Control
begin

text \<open>
  The configuration of a server and its builder: \<^verbatim>\<open>webserver_config\<close> and \<^verbatim>\<open>create_webserver\<close> of
  \<^verbatim>\<open>src/src/httpserver/create_webserver.hpp\<close>, \<^verbatim>\<open>src/src/httpserver/create_webserver_setters.hpp\<close> and
  \<^verbatim>\<open>src/src/create_webserver.cpp\<close>.  A call of a setter is a value of the datatypes \<open>setter\<close> and
  \<open>tuning_setter\<close>; a chain of calls runs until one throws.  The callbacks of the user are names.  The file
  system that \<^verbatim>\<open>load_file\<close> reads and the C library's \<^verbatim>\<open>inet_pton\<close> are arguments.
\<close>

section \<open>Enumerations and constants\<close>

datatype file_upload_target_T = FILE_UPLOAD_MEMORY_ONLY | FILE_UPLOAD_DISK_ONLY | FILE_UPLOAD_MEMORY_AND_DISK

datatype cred_type_T = CRED_NONE | CERTIFICATE | ANON | SRP | PSK | IA

datatype start_method_T = INTERNAL_SELECT | THREAD_PER_CONNECTION | EXTERNAL_SELECT

definition DEFAULT_WS_PORT :: "16 word" where "DEFAULT_WS_PORT = 9898"
definition DEFAULT_WS_TIMEOUT :: int where "DEFAULT_WS_TIMEOUT = 180"

text \<open>The features the library was compiled with.\<close>

record build_flags =
  have_bauth :: bool
  have_dauth :: bool
  have_gnutls :: bool
  have_websocket :: bool
  have_cert_callback :: bool
  use_fastopen :: bool

text \<open>The bytes of the address storage, and what the pointer to the address to bind points at: nothing, an
  address of the caller, or the storage block of a number.  A block replaces the one before it and frees it.\<close>

datatype sockaddr_storage = Zeroed | Inet4 "8 word list" "16 word" | Inet6 "8 word list" "16 word"

datatype bind_pointer = Null_Address | Caller_Address nat | Into_Storage nat

section \<open>The configuration\<close>

record 'h webserver_config =
  cfg_port :: "16 word"
  cfg_start_method :: start_method_T
  cfg_max_threads :: int
  cfg_max_connections :: int
  cfg_memory_limit :: int
  cfg_content_size_limit :: nat
  cfg_connection_timeout :: int
  cfg_per_IP_connection_limit :: int
  log_access :: "'h option"
  log_error :: "'h option"
  cfg_validator :: "'h option"
  cfg_unescaper :: "(string \<Rightarrow> string) option"
  cfg_bind_address :: bind_pointer
  cfg_bind_address_storage :: "(nat \<times> sockaddr_storage) option"
  cfg_bind_socket :: int
  cfg_max_thread_stack_size :: int
  cfg_max_args_count :: nat
  cfg_max_args_bytes :: nat
  cfg_use_ssl :: bool
  cfg_use_ipv6 :: bool
  cfg_use_dual_stack :: bool
  cfg_debug :: bool
  cfg_pedantic :: bool
  expose_exception_messages :: bool
  cfg_expose_credentials :: bool
  cfg_https_mem_key :: string
  cfg_https_mem_cert :: string
  cfg_https_mem_trust :: string
  cfg_https_priorities :: string
  cfg_cred_type :: cred_type_T
  cfg_psk_cred_handler :: "'h option"
  cfg_digest_auth_random :: string
  cfg_nonce_nc_size :: int
  cfg_default_policy :: policy_T
  cfg_basic_auth_enabled :: bool
  cfg_digest_auth_enabled :: bool
  cfg_regex_checking :: bool
  cfg_ip_access_control_enabled :: bool
  post_process_enabled :: bool
  put_processed_data_to_content :: bool
  file_upload_target :: file_upload_target_T
  file_upload_dir :: string
  generate_random_filename_on_upload :: bool
  cfg_deferred_enabled :: bool
  cfg_single_resource :: bool
  cfg_tcp_nodelay :: bool
  not_found_handler :: "'h option"
  method_not_allowed_handler :: "'h option"
  internal_error_handler :: "'h option"
  cfg_file_cleanup :: "file_cleanup_callback option"
  auth_handler :: "'h option"
  cfg_auth_skip_paths :: "string list"
  cfg_sni_callback :: "'h option"
  cfg_no_listen_socket :: bool
  cfg_no_thread_safety :: bool
  cfg_turbo :: bool
  cfg_suppress_date_header :: bool
  cfg_listen_backlog :: int
  cfg_address_reuse :: int
  cfg_connection_memory_increment :: nat
  cfg_tcp_fastopen_queue_size :: int
  cfg_sigpipe_handled_by_app :: bool
  cfg_https_mem_dhparams :: string
  cfg_https_key_password :: string
  cfg_https_priorities_append :: string
  cfg_no_alpn :: bool
  cfg_client_discipline_level :: int

definition default_config :: "build_flags \<Rightarrow> 'h webserver_config" where
  "default_config build =
     \<lparr>cfg_port = DEFAULT_WS_PORT, cfg_start_method = INTERNAL_SELECT, cfg_max_threads = 0, cfg_max_connections
      = 0, cfg_memory_limit = 0, cfg_content_size_limit = size_t_max, cfg_connection_timeout = DEFAULT_WS_TIMEOUT,
      cfg_per_IP_connection_limit = 0, log_access = None, log_error = None, cfg_validator = None, cfg_unescaper =
      None, cfg_bind_address = Null_Address, cfg_bind_address_storage = None, cfg_bind_socket = 0,
      cfg_max_thread_stack_size = 0, cfg_max_args_count = 0, cfg_max_args_bytes = 0, cfg_use_ssl = False, cfg_use_ipv6
      = False, cfg_use_dual_stack = False, cfg_debug = False, cfg_pedantic = False, expose_exception_messages = False,
      cfg_expose_credentials = False, cfg_https_mem_key = [], cfg_https_mem_cert = [], cfg_https_mem_trust = [],
      cfg_https_priorities = [], cfg_cred_type = CRED_NONE, cfg_psk_cred_handler = None, cfg_digest_auth_random = [],
      cfg_nonce_nc_size = 0, cfg_default_policy = ACCEPT, cfg_basic_auth_enabled = have_bauth build,
      cfg_digest_auth_enabled = have_dauth build, cfg_regex_checking = True, cfg_ip_access_control_enabled = True,
      post_process_enabled = True, put_processed_data_to_content = True, file_upload_target = FILE_UPLOAD_MEMORY_ONLY,
      file_upload_dir = ''/tmp'', generate_random_filename_on_upload = False, cfg_deferred_enabled = False,
      cfg_single_resource = False, cfg_tcp_nodelay = False, not_found_handler = None, method_not_allowed_handler =
      None, internal_error_handler = None, cfg_file_cleanup = None, auth_handler = None, cfg_auth_skip_paths = [],
      cfg_sni_callback = None, cfg_no_listen_socket = False, cfg_no_thread_safety = False, cfg_turbo = False,
      cfg_suppress_date_header = False, cfg_listen_backlog = 0, cfg_address_reuse = 0, cfg_connection_memory_increment
      = 0, cfg_tcp_fastopen_queue_size = 0, cfg_sigpipe_handled_by_app = False, cfg_https_mem_dhparams = [],
      cfg_https_key_password = [], cfg_https_priorities_append = [], cfg_no_alpn = False, cfg_client_discipline_level
      = - 1\<rparr>"

section \<open>The builder\<close>

definition invalid_range :: "string \<Rightarrow> int \<Rightarrow> string \<Rightarrow> exn" where
  "invalid_range name v bounds = invalid_argument (name @ '': '' @ show_int v @ '' out of range '' @ bounds)"

definition check_non_negative :: "string \<Rightarrow> int \<Rightarrow> exn option" where
  "check_non_negative name v =
     (if v < 0 then Some (invalid_argument (name @ '': '' @ show_int v @ '' must be >= 0'')) else None)"

text \<open>A setter that checks its argument first, and one that has the file's contents as its argument.\<close>

definition checked :: "exn option \<Rightarrow> 'c \<Rightarrow> 'c \<Rightarrow> 'c \<times> exn option" where
  "checked guard c c' = (case guard of Some x \<Rightarrow> (c, Some x) | None \<Rightarrow> (c', None))"

definition load_file :: "(string \<Rightarrow> string option) \<Rightarrow> string \<Rightarrow> string result" where
  "load_file fs filename =
     (case fs filename of Some content \<Rightarrow> Inr content | None \<Rightarrow> Inl (invalid_argument ''Unable to open file''))"

text \<open>\<^verbatim>\<open>bind_address(ip)\<close>: the configuration it leaves, and the exception.  \<open>pton\<close> gives the bytes of an IPv4 or an IPv6
  address.\<close>

definition bind_address ::
    "(bool \<Rightarrow> string \<Rightarrow> 8 word list option) \<Rightarrow> string \<Rightarrow> 'h webserver_config \<Rightarrow> 'h webserver_config \<times> exn option" where
  "bind_address pton ip c =
     (let block = (case cfg_bind_address_storage c of None \<Rightarrow> 0 | Some (n, bytes) \<Rightarrow> Suc n) in
      case pton False (c_str ip) of
        Some addr \<Rightarrow>
          (c\<lparr>cfg_bind_address_storage := Some (block, Inet4 addr (cfg_port c)), cfg_bind_address := Into_Storage block\<rparr>, None)
      | None \<Rightarrow>
          (case pton True (c_str ip) of
             Some addr \<Rightarrow>
               (c\<lparr>cfg_bind_address_storage := Some (block, Inet6 addr (cfg_port c)), cfg_bind_address := Into_Storage block,
                  cfg_use_ipv6 := True\<rparr>, None)
           | None \<Rightarrow>
               (c\<lparr>cfg_bind_address_storage := Some (block, Zeroed)\<rparr>,
                Some (invalid_argument (''bind_address: invalid IP address: '' @ ip)))))"

datatype 'h setter =
    Port "16 word" | Port_Int int | Start_Method start_method_T | Max_Threads int | Max_Connections int |
    Memory_Limit int | Content_Size_Limit nat | Connection_Timeout int | Per_IP_Connection_Limit int | Log_Access
    "'h option" | Log_Error "'h option" | Validator "'h option" | Unescaper "(string \<Rightarrow> string) option" |
    Bind_Address "nat option" | Bind_Ip string | Bind_Socket int | Max_Thread_Stack_Size int | Max_Args_Count nat |
    Max_Args_Bytes nat | Use_Ssl bool | Use_Ipv6 bool | Use_Dual_Stack bool | Debug bool | Pedantic bool |
    Expose_Exception_Messages bool | Expose_Credentials_In_Logs bool | Https_Mem_Key string | Https_Mem_Cert string
    | Https_Mem_Trust string | Raw_Https_Mem_Key string | Raw_Https_Mem_Cert string | Raw_Https_Mem_Trust string |
    Https_Priorities string | Cred_Type cred_type_T | Psk_Cred_Handler "'h option" | Digest_Auth_Random string |
    Nonce_Nc_Size int | Default_Policy policy_T | Basic_Auth bool | Digest_Auth bool | Deferred bool |
    Regex_Checking bool | Ip_Access_Control bool | Post_Process bool | Put_Processed_Data_To_Content bool |
    File_Upload_Target file_upload_target_T | File_Upload_Dir string | Generate_Random_Filename_On_Upload bool |
    Single_Resource bool | Tcp_Nodelay bool

datatype 'h tuning_setter =
    Not_Found_Handler "'h option" | Method_Not_Allowed_Handler "'h option" | Internal_Error_Handler "'h option" |
    File_Cleanup_Callback "file_cleanup_callback option" | Auth_Handler "'h option" | Auth_Skip_Paths "string list"
    | Sni_Callback "'h option" | Listen_Socket bool | Thread_Safety bool | Alpn bool | Turbo bool |
    Suppress_Date_Header bool | Listen_Backlog int | Address_Reuse int | Connection_Memory_Increment nat |
    Tcp_Fastopen_Queue_Size int | Sigpipe_Handled_By_App bool | Https_Mem_Dhparams string | Https_Key_Password
    string | Https_Priorities_Append string | Client_Discipline_Level int

text \<open>What the setters read: the file system and \<^verbatim>\<open>inet_pton\<close>.\<close>

fun call_setter ::
    "(string \<Rightarrow> string option) \<Rightarrow> (bool \<Rightarrow> string \<Rightarrow> 8 word list option) \<Rightarrow> 'h setter \<Rightarrow> 'h webserver_config
      \<Rightarrow> 'h webserver_config \<times> exn option" where
  "call_setter fs pton (Port v) c = (c\<lparr>cfg_port := v\<rparr>, None)"
| "call_setter fs pton (Port_Int v) c = (if v < 0 \<or> v > 65535 then (c, Some (invalid_range ''port'' v ''[0, 65535]''))
      else (c\<lparr>cfg_port := of_int v\<rparr>, None))"
| "call_setter fs pton (Start_Method v) c = (c\<lparr>cfg_start_method := v\<rparr>, None)"
| "call_setter fs pton (Max_Threads v) c = checked (check_non_negative ''max_threads'' v) c (c\<lparr>cfg_max_threads := v\<rparr>)"
| "call_setter fs pton (Max_Connections v) c = checked (check_non_negative ''max_connections'' v) c (c\<lparr>cfg_max_connections := v\<rparr>)"
| "call_setter fs pton (Memory_Limit v) c = checked (check_non_negative ''memory_limit'' v) c (c\<lparr>cfg_memory_limit := v\<rparr>)"
| "call_setter fs pton (Content_Size_Limit v) c = (c\<lparr>cfg_content_size_limit := v\<rparr>, None)"
| "call_setter fs pton (Connection_Timeout v) c = checked (check_non_negative ''connection_timeout'' v) c (c\<lparr>cfg_connection_timeout := v\<rparr>)"
| "call_setter fs pton (Per_IP_Connection_Limit v) c = checked (check_non_negative ''per_IP_connection_limit'' v) c (c\<lparr>cfg_per_IP_connection_limit := v\<rparr>)"
| "call_setter fs pton (Log_Access v) c = (c\<lparr>log_access := v\<rparr>, None)"
| "call_setter fs pton (Log_Error v) c = (c\<lparr>log_error := v\<rparr>, None)"
| "call_setter fs pton (Validator v) c = (c\<lparr>cfg_validator := v\<rparr>, None)"
| "call_setter fs pton (Unescaper v) c = (c\<lparr>cfg_unescaper := v\<rparr>, None)"
| "call_setter fs pton (Bind_Address v) c = (c\<lparr>cfg_bind_address := (case v of None \<Rightarrow> Null_Address | Some a \<Rightarrow> Caller_Address a)\<rparr>, None)"
| "call_setter fs pton (Bind_Ip v) c = bind_address pton v c"
| "call_setter fs pton (Bind_Socket v) c = (c\<lparr>cfg_bind_socket := v\<rparr>, None)"
| "call_setter fs pton (Max_Thread_Stack_Size v) c = checked (check_non_negative ''max_thread_stack_size'' v) c (c\<lparr>cfg_max_thread_stack_size := v\<rparr>)"
| "call_setter fs pton (Max_Args_Count v) c = (c\<lparr>cfg_max_args_count := v\<rparr>, None)"
| "call_setter fs pton (Max_Args_Bytes v) c = (c\<lparr>cfg_max_args_bytes := v\<rparr>, None)"
| "call_setter fs pton (Use_Ssl v) c = (c\<lparr>cfg_use_ssl := v\<rparr>, None)"
| "call_setter fs pton (Use_Ipv6 v) c = (c\<lparr>cfg_use_ipv6 := v\<rparr>, None)"
| "call_setter fs pton (Use_Dual_Stack v) c = (c\<lparr>cfg_use_dual_stack := v\<rparr>, None)"
| "call_setter fs pton (Debug v) c = (c\<lparr>cfg_debug := v\<rparr>, None)"
| "call_setter fs pton (Pedantic v) c = (c\<lparr>cfg_pedantic := v\<rparr>, None)"
| "call_setter fs pton (Expose_Exception_Messages v) c = (c\<lparr>expose_exception_messages := v\<rparr>, None)"
| "call_setter fs pton (Expose_Credentials_In_Logs v) c = (c\<lparr>cfg_expose_credentials := v\<rparr>, None)"
| "call_setter fs pton (Https_Mem_Key v) c = (case load_file fs v of Inl x \<Rightarrow> (c, Some x) | Inr content \<Rightarrow> (c\<lparr>cfg_https_mem_key := content\<rparr>, None))"
| "call_setter fs pton (Https_Mem_Cert v) c = (case load_file fs v of Inl x \<Rightarrow> (c, Some x) | Inr content \<Rightarrow> (c\<lparr>cfg_https_mem_cert := content\<rparr>, None))"
| "call_setter fs pton (Https_Mem_Trust v) c = (case load_file fs v of Inl x \<Rightarrow> (c, Some x) | Inr content \<Rightarrow> (c\<lparr>cfg_https_mem_trust := content\<rparr>, None))"
| "call_setter fs pton (Raw_Https_Mem_Key v) c = (c\<lparr>cfg_https_mem_key := v\<rparr>, None)"
| "call_setter fs pton (Raw_Https_Mem_Cert v) c = (c\<lparr>cfg_https_mem_cert := v\<rparr>, None)"
| "call_setter fs pton (Raw_Https_Mem_Trust v) c = (c\<lparr>cfg_https_mem_trust := v\<rparr>, None)"
| "call_setter fs pton (Https_Priorities v) c = (c\<lparr>cfg_https_priorities := v\<rparr>, None)"
| "call_setter fs pton (Cred_Type v) c = (c\<lparr>cfg_cred_type := v\<rparr>, None)"
| "call_setter fs pton (Psk_Cred_Handler v) c = (c\<lparr>cfg_psk_cred_handler := v\<rparr>, None)"
| "call_setter fs pton (Digest_Auth_Random v) c = (c\<lparr>cfg_digest_auth_random := v\<rparr>, None)"
| "call_setter fs pton (Nonce_Nc_Size v) c = checked (check_non_negative ''nonce_nc_size'' v) c (c\<lparr>cfg_nonce_nc_size := v\<rparr>)"
| "call_setter fs pton (Default_Policy v) c = (c\<lparr>cfg_default_policy := v\<rparr>, None)"
| "call_setter fs pton (Basic_Auth v) c = (c\<lparr>cfg_basic_auth_enabled := v\<rparr>, None)"
| "call_setter fs pton (Digest_Auth v) c = (c\<lparr>cfg_digest_auth_enabled := v\<rparr>, None)"
| "call_setter fs pton (Deferred v) c = (c\<lparr>cfg_deferred_enabled := v\<rparr>, None)"
| "call_setter fs pton (Regex_Checking v) c = (c\<lparr>cfg_regex_checking := v\<rparr>, None)"
| "call_setter fs pton (Ip_Access_Control v) c = (c\<lparr>cfg_ip_access_control_enabled := v\<rparr>, None)"
| "call_setter fs pton (Post_Process v) c = (c\<lparr>post_process_enabled := v\<rparr>, None)"
| "call_setter fs pton (Put_Processed_Data_To_Content v) c = (c\<lparr>put_processed_data_to_content := v\<rparr>, None)"
| "call_setter fs pton (File_Upload_Target v) c = (c\<lparr>file_upload_target := v\<rparr>, None)"
| "call_setter fs pton (File_Upload_Dir v) c = (if v = [] then (c, Some (invalid_argument ''file_upload_dir: must not be empty''))
      else (c\<lparr>file_upload_dir := v\<rparr>, None))"
| "call_setter fs pton (Generate_Random_Filename_On_Upload v) c = (c\<lparr>generate_random_filename_on_upload := v\<rparr>, None)"
| "call_setter fs pton (Single_Resource v) c = (c\<lparr>cfg_single_resource := v\<rparr>, None)"
| "call_setter fs pton (Tcp_Nodelay v) c = (c\<lparr>cfg_tcp_nodelay := v\<rparr>, None)"

fun call_tuning_setter :: "'h tuning_setter \<Rightarrow> 'h webserver_config \<Rightarrow> 'h webserver_config \<times> exn option" where
  "call_tuning_setter (Not_Found_Handler v) c = (c\<lparr>not_found_handler := v\<rparr>, None)"
| "call_tuning_setter (Method_Not_Allowed_Handler v) c = (c\<lparr>method_not_allowed_handler := v\<rparr>, None)"
| "call_tuning_setter (Internal_Error_Handler v) c = (c\<lparr>internal_error_handler := v\<rparr>, None)"
| "call_tuning_setter (File_Cleanup_Callback v) c = (c\<lparr>cfg_file_cleanup := v\<rparr>, None)"
| "call_tuning_setter (Auth_Handler v) c = (c\<lparr>auth_handler := v\<rparr>, None)"
| "call_tuning_setter (Auth_Skip_Paths v) c = (c\<lparr>cfg_auth_skip_paths := v\<rparr>, None)"
| "call_tuning_setter (Sni_Callback v) c = (c\<lparr>cfg_sni_callback := v\<rparr>, None)"
| "call_tuning_setter (Listen_Socket v) c = (c\<lparr>cfg_no_listen_socket := \<not> v\<rparr>, None)"
| "call_tuning_setter (Thread_Safety v) c = (c\<lparr>cfg_no_thread_safety := \<not> v\<rparr>, None)"
| "call_tuning_setter (Alpn v) c = (c\<lparr>cfg_no_alpn := \<not> v\<rparr>, None)"
| "call_tuning_setter (Turbo v) c = (c\<lparr>cfg_turbo := v\<rparr>, None)"
| "call_tuning_setter (Suppress_Date_Header v) c = (c\<lparr>cfg_suppress_date_header := v\<rparr>, None)"
| "call_tuning_setter (Listen_Backlog v) c = checked (check_non_negative ''listen_backlog'' v) c (c\<lparr>cfg_listen_backlog := v\<rparr>)"
| "call_tuning_setter (Address_Reuse v) c = checked (check_non_negative ''address_reuse'' v) c (c\<lparr>cfg_address_reuse := v\<rparr>)"
| "call_tuning_setter (Connection_Memory_Increment v) c = (c\<lparr>cfg_connection_memory_increment := v\<rparr>, None)"
| "call_tuning_setter (Tcp_Fastopen_Queue_Size v) c = checked (check_non_negative ''tcp_fastopen_queue_size'' v) c (c\<lparr>cfg_tcp_fastopen_queue_size := v\<rparr>)"
| "call_tuning_setter (Sigpipe_Handled_By_App v) c = (c\<lparr>cfg_sigpipe_handled_by_app := v\<rparr>, None)"
| "call_tuning_setter (Https_Mem_Dhparams v) c = (c\<lparr>cfg_https_mem_dhparams := v\<rparr>, None)"
| "call_tuning_setter (Https_Key_Password v) c = (c\<lparr>cfg_https_key_password := v\<rparr>, None)"
| "call_tuning_setter (Https_Priorities_Append v) c = (c\<lparr>cfg_https_priorities_append := v\<rparr>, None)"
| "call_tuning_setter (Client_Discipline_Level v) c = (if v < - 1 then (c, Some (invalid_range ''client_discipline_level'' v ''>= -1''))
      else (c\<lparr>cfg_client_discipline_level := v\<rparr>, None))"

text \<open>A chain of calls stops at the first exception.\<close>

datatype 'h builder_call = Set "'h setter" | Tune "'h tuning_setter"

fun build_call ::
    "(string \<Rightarrow> string option) \<Rightarrow> (bool \<Rightarrow> string \<Rightarrow> 8 word list option) \<Rightarrow> 'h builder_call \<Rightarrow> 'h webserver_config
      \<Rightarrow> 'h webserver_config \<times> exn option" where
  "build_call fs pton (Set s) c = call_setter fs pton s c"
| "build_call fs pton (Tune s) c = call_tuning_setter s c"

fun build_chain ::
    "(string \<Rightarrow> string option) \<Rightarrow> (bool \<Rightarrow> string \<Rightarrow> 8 word list option) \<Rightarrow> 'h builder_call list \<Rightarrow> 'h webserver_config
      \<Rightarrow> 'h webserver_config \<times> exn option" where
  "build_chain fs pton [] c = (c, None)"
| "build_chain fs pton (k # ks) c =
     (case build_call fs pton k c of (c', Some x) \<Rightarrow> (c', Some x) | (c', None) \<Rightarrow> build_chain fs pton ks c')"

section \<open>What the builder promises\<close>

text \<open>The bounds the setters check.\<close>

definition config_ok :: "'h webserver_config \<Rightarrow> bool" where
  "config_ok c \<longleftrightarrow>
     list_all (\<lambda>v. 0 \<le> v)
       [cfg_max_threads c, cfg_max_connections c, cfg_memory_limit c, cfg_connection_timeout c,
        cfg_per_IP_connection_limit c, cfg_max_thread_stack_size c, cfg_nonce_nc_size c, cfg_listen_backlog c,
        cfg_address_reuse c, cfg_tcp_fastopen_queue_size c] \<and>
     file_upload_dir c \<noteq> [] \<and> - 1 \<le> cfg_client_discipline_level c"

lemma default_config_ok: "config_ok (default_config build)"
  by (simp add: config_ok_def default_config_def DEFAULT_WS_TIMEOUT_def)

lemma bind_address_ok: "config_ok c \<Longrightarrow> config_ok (fst (bind_address pton ip c))"
  by (simp add: config_ok_def bind_address_def Let_def split: option.splits)

lemma call_setter_ok: "config_ok c \<Longrightarrow> config_ok (fst (call_setter fs pton k c))"
proof (cases k)
  case (Bind_Ip ip)
  assume "config_ok c"
  then show ?thesis using bind_address_ok [of c pton ip] Bind_Ip by simp
qed (simp_all add: config_ok_def checked_def check_non_negative_def split: sum.splits)

lemma call_tuning_setter_ok: "config_ok c \<Longrightarrow> config_ok (fst (call_tuning_setter k c))"
  by (cases k) (simp_all add: config_ok_def checked_def check_non_negative_def)

lemma build_call_ok: "config_ok c \<Longrightarrow> config_ok (fst (build_call fs pton k c))"
  by (cases k) (simp_all add: call_setter_ok call_tuning_setter_ok)

lemma build_chain_ok: "config_ok c \<Longrightarrow> config_ok (fst (build_chain fs pton ks c))"
proof (induction ks arbitrary: c)
  case (Cons k ks)
  obtain c' x where k: "build_call fs pton k c = (c', x)" by fastforce
  with build_call_ok [OF Cons.prems, of fs pton k] have "config_ok c'" by simp
  with k Cons.IH show ?case by (cases x) simp_all
qed simp

lemma call_setter_throws:
  "call_setter fs pton k c = (c', Some x) \<Longrightarrow> c' = c \<or> (\<exists>ip. k = Bind_Ip ip)"
  by (cases k) (auto simp: checked_def split: sum.splits option.splits if_splits)

lemma call_tuning_setter_throws: "call_tuning_setter k c = (c', Some x) \<Longrightarrow> c' = c"
  by (cases k) (auto simp: checked_def split: option.splits if_splits)

section \<open>Properties\<close>

text \<open>A configuration that the builder makes is within its bounds, whatever setters were called in whatever
  order and however many of them threw: no limit, timeout or queue length is negative, the discipline
  level is at least -1 and the upload directory is not empty.\<close>

theorem built_configs_valid:
  "config_ok (fold (\<lambda>ks c. fst (build_chain fs pton ks c)) attempts (default_config build))"
proof -
  have "config_ok c \<Longrightarrow> config_ok (fold (\<lambda>ks c. fst (build_chain fs pton ks c)) attempts c)" for c
    by (induction attempts arbitrary: c) (simp_all add: build_chain_ok)
  then show ?thesis using default_config_ok by blast
qed

text \<open>A setter that throws leaves the configuration as it was, unless it is the one that parses an address.\<close>

theorem failed_setter_changes_nothing:
  assumes "build_call fs pton k c = (c', Some x)"
  shows "c' = c \<or> (\<exists>ip. k = Set (Bind_Ip ip) \<and> pton False (c_str ip) = None \<and> pton True (c_str ip) = None)"
proof (cases k)
  case (Set s)
  then have s: "call_setter fs pton s c = (c', Some x)" using assms by simp
  from call_setter_throws [OF s] show ?thesis
  proof
    assume "\<exists>ip. s = Bind_Ip ip"
    then show ?thesis using s Set by (auto simp: bind_address_def Let_def split: option.splits)
  qed simp
next
  case (Tune s)
  then show ?thesis using assms call_tuning_setter_throws by auto
qed

text \<open>Where the pointer to the address leads: to a block that was replaced, and so freed, it dangles.\<close>

definition bind_dangles :: "'h webserver_config \<Rightarrow> bool" where
  "bind_dangles c =
     (case cfg_bind_address c of
        Into_Storage n \<Rightarrow> (case cfg_bind_address_storage c of None \<Rightarrow> True | Some (m, bytes) \<Rightarrow> m \<noteq> n)
      | _ \<Rightarrow> False)"

definition bound_port :: "'h webserver_config \<Rightarrow> 16 word option" where
  "bound_port c =
     (case (cfg_bind_address c, cfg_bind_address_storage c) of
        (Into_Storage n, Some (m, Inet4 addr p)) \<Rightarrow> if m = n then Some p else None
      | (Into_Storage n, Some (m, Inet6 addr p)) \<Rightarrow> if m = n then Some p else None
      | _ \<Rightarrow> None)"


definition loopback_pton :: "bool \<Rightarrow> string \<Rightarrow> 8 word list option" where
  "loopback_pton v6 s = (if \<not> v6 \<and> s = ''127.0.0.1'' then Some [127, 0, 0, 1] else None)"

definition some_build :: build_flags where
  "some_build = \<lparr>have_bauth = True, have_dauth = True, have_gnutls = False, have_websocket = True, have_cert_callback = False,
     use_fastopen = False\<rparr>"


end
