(* ===== verification/Dispatch_State.thy ===== *)
theory Dispatch_State
  imports Hook_Bus Http_Response Webserver_Routes Path_Normalize Webserver_Config
begin

text \<open>
  The state of one request on its way through the server: \<^verbatim>\<open>src/src/httpserver/detail/connection_context.hpp\<close>,
  the contexts of \<^verbatim>\<open>src/src/httpserver/hook_context.hpp\<close>, the error pages of
  \<^verbatim>\<open>src/src/detail/error_pages.cpp\<close> and the alias hooks of \<^verbatim>\<open>src/src/webserver.cpp\<close> that seat the configured
  callbacks (authentication, 404, 405, 500, access log) among the hooks.

  User code is a set of named callables that the record \<open>externals\<close> runs: a callable gets everything user
  code can reach (the registries, the routes, the request and the response) and gives an outcome
  and what it makes of that.  The rest of the connection's context and the calls to libmicrohttpd,
  which user code cannot reach, are kept apart.  The clock and libmicrohttpd are arguments too.
\<close>

section \<open>What user code reaches\<close>

text \<open>The callables a resource runs: the \<^verbatim>\<open>render\<close> of the base class, the answer of a shim without a slot for
  the method, or user code.\<close>

datatype 'h callable = Base_Render | Empty_Slot | User_Handler 'h

record ('re, 'h, 'w) reach =
  rc_server :: "('re, unit, 'h callable) server"
  rc_request :: "http_request option"
  rc_response :: "http_response option"
  rc_world :: 'w

text \<open>The callables at the hook phases: the aliases the server installs and the hooks of users.\<close>

datatype 'u hook_fn =
    Auth_Alias | Method_Not_Allowed_Alias | Not_Found_Alias | Internal_Error_Alias | Log_Access_Alias
  | User_Hook 'u

type_synonym ('re, 'u, 'h, 'w) denv = "('u hook_fn, ('re, 'h, 'w) reach) hook_env"

record route_descriptor =
  rd_path_template :: string
  rd_methods :: method_set
  rd_is_prefix :: bool

text \<open>A context has pointers to the request and the response, which a callable follows in the
  environment; the first field says whether the pointer to the request is set.\<close>

datatype hook_ctx =
    Request_Received_Ctx bool int
  | Body_Chunk_Ctx bool string "64 word" bool
  | Route_Resolved_Ctx bool "route_descriptor option" "nat option"
  | Before_Handler_Ctx bool "route_descriptor option" http_method "nat option"
  | Handler_Exception_Ctx bool exn string
  | After_Handler_Ctx bool
  | Response_Sent_Ctx bool int "64 word" int
  | Request_Completed_Ctx bool bool bool int

record ('re, 'u, 'h, 'w) externals =
  ex_hook :: "'u \<Rightarrow> hook_ctx \<Rightarrow> ('re, 'u, 'h, 'w) denv
    \<Rightarrow> http_response hook_action result \<times> hook_ctx \<times> ('re, 'u, 'h, 'w) denv"
  ex_handler :: "'h \<Rightarrow> ('re, 'u, 'h, 'w) denv \<Rightarrow> http_response result \<times> ('re, 'u, 'h, 'w) denv"
  ex_auth :: "'h \<Rightarrow> ('re, 'u, 'h, 'w) denv \<Rightarrow> http_response option result \<times> ('re, 'u, 'h, 'w) denv"
  ex_internal_error :: "'h \<Rightarrow> string \<Rightarrow> ('re, 'u, 'h, 'w) denv \<Rightarrow> http_response result \<times> ('re, 'u, 'h, 'w) denv"
  ex_log_access :: "'h \<Rightarrow> string \<Rightarrow> ('re, 'u, 'h, 'w) denv \<Rightarrow> unit result \<times> ('re, 'u, 'h, 'w) denv"
  ex_regex :: "'re regex_engine"
  ex_container :: container
  ex_creates :: "raw_response \<Rightarrow> bool"
  ex_queues :: "int \<Rightarrow> raw_response \<Rightarrow> bool"
  ex_materialize_throws :: "response_body \<Rightarrow> exn option"
  ex_now :: "('re, 'u, 'h, 'w) denv \<Rightarrow> int"

text \<open>\<open>ex_creates\<close> and \<open>ex_queues\<close> are the outcomes of libmicrohttpd's functions; \<open>ex_materialize_throws\<close> is what
  the virtual call that delivers a body throws, if anything.\<close>

section \<open>The configuration\<close>

text \<open>The members of a server that are computed from the configuration when it is made: the normalised skip list
  and the random opaque value of digest challenges.\<close>

record 'h webserver = "'h webserver_config" +
  auth_skip_paths_normalized :: "string list"
  digest_opaque :: string

section \<open>The context of a connection\<close>

record connection_context =
  cc_pp :: bool
  cc_complete_uri :: string
  cc_standardized_url :: string
  cc_ws :: bool
  cc_callback :: "http_method option"
  cc_method_enum :: http_method
  cc_has_body :: bool
  cc_skip_handler :: bool
  cc_body_bytes_seen :: "64 word"
  cc_matched_path_template :: string
  cc_matched_is_prefix :: bool
  cc_upload_key :: string
  cc_upload_filename :: string
  cc_upload_ostrm :: "(string \<times> bool) option"
  cc_start_time :: "int option"
  cc_resource_weak :: "nat option"
  cc_route_has_hook_table :: bool

definition fresh_context :: connection_context where
  "fresh_context =
     \<lparr>cc_pp = False, cc_complete_uri = [], cc_standardized_url = [], cc_ws = False, cc_callback = None,
      cc_method_enum = count_sentinel, cc_has_body = False, cc_skip_handler = False, cc_body_bytes_seen = 0,
      cc_matched_path_template = [], cc_matched_is_prefix = False, cc_upload_key = [], cc_upload_filename = [],
      cc_upload_ostrm = None, cc_start_time = None, cc_resource_weak = None, cc_route_has_hook_table = False\<rparr>"

text \<open>The calls that leave the library, in order: a handler of a resource, libmicrohttpd, the file descriptors,
  files and streams.\<close>

datatype event =
    Handler_Called nat http_method
  | Mhd_Add_Header string string
  | Mhd_Add_Footer string string
  | Mhd_Queue int raw_response
  | Mhd_Queue_Auth string string "string option" bool bool digest_algorithm bool bool raw_response
  | Mhd_Queue_Upgrade string
  | Mhd_Destroy_Response
  | Mhd_Create_Post_Processor
  | Mhd_Destroy_Post_Processor
  | Descriptor fd_event
  | Set_Tcp_Nodelay int
  | Create_File string
  | Unlink_File string
  | Open_Stream string
  | Write_Stream string string
  | Close_Stream string

record ('re, 'u, 'h, 'w) dispatch =
  d_env :: "('re, 'u, 'h, 'w) denv"
  d_conn :: connection_context
  d_trace :: "event list"

definition emit :: "event list \<Rightarrow> ('re, 'u, 'h, 'w) dispatch \<Rightarrow> ('re, 'u, 'h, 'w) dispatch" where
  "emit evs d = d\<lparr>d_trace := d_trace d @ evs\<rparr>"

definition on_env ::
    "(('re, 'u, 'h, 'w) denv \<Rightarrow> ('re, 'u, 'h, 'w) denv) \<Rightarrow> ('re, 'u, 'h, 'w) dispatch \<Rightarrow> ('re, 'u, 'h, 'w) dispatch" where
  "on_env f d = d\<lparr>d_env := f (d_env d)\<rparr>"

definition on_conn ::
    "(connection_context \<Rightarrow> connection_context) \<Rightarrow> ('re, 'u, 'h, 'w) dispatch \<Rightarrow> ('re, 'u, 'h, 'w) dispatch" where
  "on_conn f d = d\<lparr>d_conn := f (d_conn d)\<rparr>"

definition on_reach ::
    "(('re, 'h, 'w) reach \<Rightarrow> ('re, 'h, 'w) reach) \<Rightarrow> ('re, 'u, 'h, 'w) denv \<Rightarrow> ('re, 'u, 'h, 'w) denv" where
  "on_reach f e = e\<lparr>env_world := f (env_world e)\<rparr>"

text \<open>Running user code from the dispatcher.\<close>

definition call ::
    "(('re, 'u, 'h, 'w) denv \<Rightarrow> 'a \<times> ('re, 'u, 'h, 'w) denv) \<Rightarrow> ('re, 'u, 'h, 'w) dispatch
      \<Rightarrow> 'a \<times> ('re, 'u, 'h, 'w) dispatch" where
  "call f d = (let (a, e) = f (d_env d) in (a, d\<lparr>d_env := e\<rparr>))"

abbreviation request_of :: "('re, 'u, 'h, 'w) denv \<Rightarrow> http_request option" where
  "request_of e \<equiv> rc_request (env_world e)"

abbreviation response_of :: "('re, 'u, 'h, 'w) denv \<Rightarrow> http_response option" where
  "response_of e \<equiv> rc_response (env_world e)"

text \<open>The object a shared pointer points at; the store never loses an object.\<close>

definition resource_at :: "nat \<Rightarrow> ('re, 'u, 'h, 'w) denv \<Rightarrow> (unit, 'h callable) http_resource" where
  "resource_at rid e =
     (case map_of (srv_resources (rc_server (env_world e))) rid of Some r \<Rightarrow> r | None \<Rightarrow> make_lambda_resource)"

definition put_resource ::
    "nat \<Rightarrow> (unit, 'h callable) http_resource \<Rightarrow> ('re, 'u, 'h, 'w) denv \<Rightarrow> ('re, 'u, 'h, 'w) denv" where
  "put_resource rid r e =
     on_reach (\<lambda>w. w\<lparr>rc_server := (rc_server w)\<lparr>srv_resources :=
       map (\<lambda>(i, x). (i, if i = rid then r else x)) (srv_resources (rc_server w))\<rparr>\<rparr>) e"

text \<open>\<^verbatim>\<open>conn->response.emplace(std::move(r))\<close>: the old value is destroyed, the new one is move constructed and
  what it was moved from is destroyed.\<close>

definition emplace_response :: "http_response \<Rightarrow> ('re, 'u, 'h, 'w) dispatch \<Rightarrow> ('re, 'u, 'h, 'w) dispatch" where
  "emplace_response r d =
     (let old = (case response_of (d_env d) of None \<Rightarrow> [] | Some o' \<Rightarrow> snd (destroy_body o'));
          (r', left, ev) = response_move_construct r
      in emit (map Descriptor (old @ ev @ snd (destroy_body left)))
           (on_env (on_reach (\<lambda>w. w\<lparr>rc_response := Some r'\<rparr>)) d))"

section \<open>Error pages\<close>

definition NOT_FOUND_ERROR :: string where "NOT_FOUND_ERROR = ''Not Found''"
definition METHOD_ERROR :: string where "METHOD_ERROR = ''Method not Allowed''"
definition INTERNAL_SERVER_ERROR :: string where "INTERNAL_SERVER_ERROR = ''Internal Server Error''"

definition text_page :: "string \<Rightarrow> int \<Rightarrow> http_response result" where
  "text_page text status = bind_result (response_string text ''text/plain'') (with_status status)"

definition not_found_page ::
    "'h webserver \<Rightarrow> ('re, 'u, 'h, 'w) externals \<Rightarrow> ('re, 'u, 'h, 'w) denv
      \<Rightarrow> http_response result \<times> ('re, 'u, 'h, 'w) denv" where
  "not_found_page cfg ex e =
     (case not_found_handler cfg of
        Some h \<Rightarrow> ex_handler ex h e
      | None \<Rightarrow> (text_page NOT_FOUND_ERROR 404, e))"

definition method_not_allowed_page ::
    "'h webserver \<Rightarrow> ('re, 'u, 'h, 'w) externals \<Rightarrow> ('re, 'u, 'h, 'w) denv
      \<Rightarrow> http_response result \<times> ('re, 'u, 'h, 'w) denv" where
  "method_not_allowed_page cfg ex e =
     (case method_not_allowed_handler cfg of
        Some h \<Rightarrow> ex_handler ex h e
      | None \<Rightarrow> (text_page METHOD_ERROR 405, e))"

definition internal_error_page ::
    "'h webserver \<Rightarrow> ('re, 'u, 'h, 'w) externals \<Rightarrow> string \<Rightarrow> bool \<Rightarrow> ('re, 'u, 'h, 'w) denv
      \<Rightarrow> http_response result \<times> ('re, 'u, 'h, 'w) denv" where
  "internal_error_page cfg ex msg force_our e =
     (if force_our then (bind_result (response_empty 0) (with_status 500), e)
      else
        (case internal_error_handler cfg of
           Some h \<Rightarrow> ex_internal_error ex h msg e
         | None \<Rightarrow> (text_page (if expose_exception_messages cfg then msg else INTERNAL_SERVER_ERROR) 500, e)))"

definition run_internal_error_handler_safely ::
    "'h webserver \<Rightarrow> ('re, 'u, 'h, 'w) externals \<Rightarrow> string \<Rightarrow> ('re, 'u, 'h, 'w) denv
      \<Rightarrow> http_response result \<times> ('re, 'u, 'h, 'w) denv" where
  "run_internal_error_handler_safely cfg ex msg e =
     (case internal_error_page cfg ex msg False e of
        (Inr r, e') \<Rightarrow> (Inr r, e')
      | (Inl x, e') \<Rightarrow>
          internal_error_page cfg ex [] True
            (log_dispatch_error ''internal_error_handler threw; sending hardcoded empty-body 500'' e'))"

section \<open>The alias hooks\<close>

text \<open>An empty \<^verbatim>\<open>std::function\<close> throws when it is called.\<close>

definition bad_function_call :: exn where
  "bad_function_call = runtime_error ''bad_function_call''"

abbreviation null_request :: "'a result" where
  "null_request \<equiv> Inl (undefined_behaviour ''null request'')"

definition auth_alias ::
    "'h webserver \<Rightarrow> ('re, 'u, 'h, 'w) externals \<Rightarrow> bool \<Rightarrow> ('re, 'u, 'h, 'w) denv
      \<Rightarrow> http_response hook_action result \<times> ('re, 'u, 'h, 'w) denv" where
  "auth_alias cfg ex has_request e =
     (if \<not> has_request then (Inr pass, e)
      else
        (case request_of e of
           None \<Rightarrow> (null_request, e)
         | Some r \<Rightarrow>
             if auth_skip_paths_normalized cfg \<noteq> [] \<and> should_skip_auth (auth_skip_paths_normalized cfg) (req_path r)
             then (Inr pass, e)
             else
               (case (case auth_handler cfg of Some h \<Rightarrow> ex_auth ex h e | None \<Rightarrow> (Inl bad_function_call, e)) of
                  (Inl x, e') \<Rightarrow>
                    (map_sum id respond_with (bind_result (response_empty 0) (with_status 500)),
                     log_dispatch_error
                       (case what_of x of
                          Some w \<Rightarrow> ''auth_handler threw: '' @ w @ ''; failing closed with 500''
                        | None \<Rightarrow> ''auth_handler threw unknown exception; failing closed with 500'') e')
                | (Inr None, e') \<Rightarrow> (Inr pass, e')
                | (Inr (Some rejection), e') \<Rightarrow> (Inr (respond_with rejection), e'))))"

definition method_not_allowed_alias ::
    "'h webserver \<Rightarrow> ('re, 'u, 'h, 'w) externals \<Rightarrow> route_descriptor option \<Rightarrow> http_method \<Rightarrow> nat option
      \<Rightarrow> ('re, 'u, 'h, 'w) denv \<Rightarrow> http_response hook_action result \<times> ('re, 'u, 'h, 'w) denv" where
  "method_not_allowed_alias cfg ex matched m resource e =
     (case resource of
        None \<Rightarrow> (Inr pass, e)
      | Some rid \<Rightarrow>
          if is_allowed (resource_at rid e) m then (Inr pass, e)
          else
            (case (case method_not_allowed_handler cfg of
                     Some h \<Rightarrow> ex_handler ex h e | None \<Rightarrow> (Inl bad_function_call, e)) of
               (Inl x, e') \<Rightarrow> (Inl x, e')
             | (Inr resp, e') \<Rightarrow>
                 (map_sum id respond_with
                   (case matched of
                      None \<Rightarrow> Inr resp
                    | Some d \<Rightarrow>
                        (let allow_value = format_allow_header (rd_methods d) in
                         if allow_value \<noteq> [] then with_header ''Allow'' allow_value resp else Inr resp)), e')))"

definition internal_error_alias ::
    "'h webserver \<Rightarrow> ('re, 'u, 'h, 'w) externals \<Rightarrow> bool \<Rightarrow> string \<Rightarrow> ('re, 'u, 'h, 'w) denv
      \<Rightarrow> http_response hook_action result \<times> ('re, 'u, 'h, 'w) denv" where
  "internal_error_alias cfg ex has_request msg e =
     (if \<not> has_request then (Inr pass, e)
      else
        (case (case internal_error_handler cfg of
                 Some h \<Rightarrow> ex_internal_error ex h msg e | None \<Rightarrow> (Inl bad_function_call, e)) of
           (res, e') \<Rightarrow> (map_sum id respond_with res, e')))"

definition sanitized :: "string \<Rightarrow> string" where
  "sanitized sv = map (\<lambda>c. if (of_char c :: nat) < 0x20 \<or> (of_char c :: nat) = 0x7F then CHR ''-'' else c) sv"

definition log_access_alias_body ::
    "'h webserver \<Rightarrow> ('re, 'u, 'h, 'w) externals \<Rightarrow> bool \<Rightarrow> ('re, 'u, 'h, 'w) denv
      \<Rightarrow> http_response hook_action result \<times> ('re, 'u, 'h, 'w) denv" where
  "log_access_alias_body cfg ex has_request e =
     (if \<not> has_request then (Inr pass, e)
      else
        (case request_of e of
           None \<Rightarrow> (null_request, e)
         | Some r \<Rightarrow>
             (let line = sanitized (req_path r) @ '' METHOD: '' @ sanitized (req_method r) in
              case (case log_access cfg of
                      Some h \<Rightarrow> ex_log_access ex h line e | None \<Rightarrow> (Inl bad_function_call, e)) of
                (res, e') \<Rightarrow> (map_sum id (\<lambda>u. pass) res, e'))))"

text \<open>Running any hook: an alias has the signature of its phase, so it is only run on a context of it.\<close>

definition run_fn ::
    "'h webserver \<Rightarrow> ('re, 'u, 'h, 'w) externals
      \<Rightarrow> ('u hook_fn, hook_ctx, http_response, ('re, 'h, 'w) reach) hook_runner" where
  "run_fn cfg ex f c e =
     (case (f, c) of
        (User_Hook u, _) \<Rightarrow> ex_hook ex u c e
      | (Auth_Alias, Before_Handler_Ctx rq d m res) \<Rightarrow> (case auth_alias cfg ex rq e of (a, e') \<Rightarrow> (a, c, e'))
      | (Method_Not_Allowed_Alias, Before_Handler_Ctx rq d m res) \<Rightarrow>
          (case method_not_allowed_alias cfg ex d m res e of (a, e') \<Rightarrow> (a, c, e'))
      | (Internal_Error_Alias, Handler_Exception_Ctx rq x msg) \<Rightarrow>
          (case internal_error_alias cfg ex rq msg e of (a, e') \<Rightarrow> (a, c, e'))
      | (Log_Access_Alias, Response_Sent_Ctx rq st b t) \<Rightarrow>
          (case log_access_alias_body cfg ex rq e of (a, e') \<Rightarrow> (a, c, e'))
      | _ \<Rightarrow> (Inr pass, c, e))"

section \<open>Installing the aliases\<close>

text \<open>The temporary handle is detached, so its destructor removes nothing.\<close>

definition add_detached ::
    "hook_signature \<Rightarrow> hook_phase \<Rightarrow> 'u hook_fn \<Rightarrow> ('re, 'u, 'h, 'w) denv \<Rightarrow> ('re, 'u, 'h, 'w) denv result" where
  "add_detached g p f e =
     bind_result (webserver_add_hook g p (Some f) e) (\<lambda>(h, e').
       let (d, source) = handle_detach h in Inr (handle_destroy d (handle_destroy source e')))"

definition install_auth_alias ::
    "'h webserver \<Rightarrow> ('re, 'u, 'h, 'w) denv \<Rightarrow> ('re, 'u, 'h, 'w) denv result" where
  "install_auth_alias cfg e =
     (if auth_handler cfg = None then Inr e else add_detached before_handler_sig before_handler Auth_Alias e)"

definition install_method_not_allowed_alias ::
    "'h webserver \<Rightarrow> ('re, 'u, 'h, 'w) denv \<Rightarrow> ('re, 'u, 'h, 'w) denv result" where
  "install_method_not_allowed_alias cfg e =
     (if method_not_allowed_handler cfg = None then Inr e
      else add_detached before_handler_sig before_handler Method_Not_Allowed_Alias e)"

definition install_not_found_alias ::
    "'h webserver \<Rightarrow> ('re, 'u, 'h, 'w) denv \<Rightarrow> ('re, 'u, 'h, 'w) denv result" where
  "install_not_found_alias cfg e =
     (if not_found_handler cfg = None then Inr e
      else add_detached route_resolved_sig route_resolved Not_Found_Alias e)"

definition install_internal_error_alias ::
    "'h webserver \<Rightarrow> ('re, 'u, 'h, 'w) denv \<Rightarrow> ('re, 'u, 'h, 'w) denv" where
  "install_internal_error_alias cfg e =
     (if internal_error_handler cfg = None then e
      else e\<lparr>env_bus := set_handler_exception_alias Internal_Error_Alias (env_bus e)\<rparr>)"

definition install_log_access_alias ::
    "'h webserver \<Rightarrow> ('re, 'u, 'h, 'w) denv \<Rightarrow> ('re, 'u, 'h, 'w) denv" where
  "install_log_access_alias cfg e =
     (if log_access cfg = None then e
      else e\<lparr>env_bus := set_log_access_alias Log_Access_Alias (env_bus e)\<rparr>)"

definition install_default_alias_hooks ::
    "'h webserver \<Rightarrow> ('re, 'u, 'h, 'w) denv \<Rightarrow> ('re, 'u, 'h, 'w) denv result" where
  "install_default_alias_hooks cfg e =
     bind_result (install_auth_alias cfg e) (\<lambda>e1.
     bind_result (install_method_not_allowed_alias cfg e1) (\<lambda>e2.
     bind_result (install_not_found_alias cfg e2) (\<lambda>e3.
       Inr (install_log_access_alias cfg (install_internal_error_alias cfg e3)))))"

end
