(* ===== verification/Hook_Dispatcher.thy ===== *)
theory Hook_Dispatcher
  imports Dispatch_State
begin

text \<open>
  \<^verbatim>\<open>src/src/detail/hook_dispatcher.cpp\<close>: the firing of the phases of one request, server-wide chain first and the
  chain of the matched resource after it, each behind its gate.  A gate is read once, before anything
  fires; a table is read when its chain starts.
\<close>

section \<open>Per-route tables\<close>

definition table_at :: "nat \<Rightarrow> ('re, 'u, 'h, 'w) denv \<Rightarrow> 'u hook_fn hook_table" where
  "table_at a e = (case env_tables e a of Some t \<Rightarrow> t | None \<Rightarrow> empty_table)"

definition route_gate :: "nat option \<Rightarrow> hook_phase \<Rightarrow> ('re, 'u, 'h, 'w) denv \<Rightarrow> bool" where
  "route_gate rtable p e = (case rtable of None \<Rightarrow> False | Some a \<Rightarrow> table_any_hooks (table_at a e) p)"

definition resource_table :: "nat option \<Rightarrow> ('re, 'u, 'h, 'w) denv \<Rightarrow> nat option" where
  "resource_table resource e = (case resource of None \<Rightarrow> None | Some rid \<Rightarrow> hook_table (resource_at rid e))"

definition route_chain ::
    "('u hook_fn, hook_ctx, http_response, ('re, 'h, 'w) reach) hook_runner \<Rightarrow> hook_phase \<Rightarrow> nat option \<Rightarrow> hook_ctx
      \<Rightarrow> ('re, 'u, 'h, 'w) denv \<Rightarrow> http_response option \<times> hook_ctx \<times> ('re, 'u, 'h, 'w) denv" where
  "route_chain run p rtable c e =
     (case rtable of None \<Rightarrow> (None, c, e) | Some a \<Rightarrow> table_fire_short_circuit run p (table_at a e) c e)"

definition route_observe ::
    "('u hook_fn, hook_ctx, http_response, ('re, 'h, 'w) reach) hook_runner \<Rightarrow> hook_phase \<Rightarrow> nat option \<Rightarrow> hook_ctx
      \<Rightarrow> ('re, 'u, 'h, 'w) denv \<Rightarrow> ('re, 'u, 'h, 'w) denv" where
  "route_observe run p rtable c e =
     (case rtable of None \<Rightarrow> e | Some a \<Rightarrow> table_fire_void run p (table_at a e) c e)"

section \<open>Before the handler\<close>

definition descriptor_of :: "nat \<Rightarrow> ('re, 'u, 'h, 'w) dispatch \<Rightarrow> route_descriptor option" where
  "descriptor_of rid d =
     (if cc_matched_path_template (d_conn d) \<noteq> [] then
        Some \<lparr>rd_path_template = cc_matched_path_template (d_conn d),
              rd_methods = methods_allowed (resource_at rid (d_env d)),
              rd_is_prefix = cc_matched_is_prefix (d_conn d)\<rparr>
      else None)"

definition fire_before_handler_gated ::
    "'h webserver \<Rightarrow> ('re, 'u, 'h, 'w) externals \<Rightarrow> nat \<Rightarrow> ('re, 'u, 'h, 'w) dispatch
      \<Rightarrow> bool \<times> ('re, 'u, 'h, 'w) dispatch" where
  "fire_before_handler_gated cfg ex rid d =
     (let e = d_env d;
          run = run_fn cfg ex;
          server_gate = has_hooks_for before_handler (env_bus e);
          rtable = hook_table (resource_at rid e);
          per_route_gate = route_gate rtable before_handler e;
          ctx = Before_Handler_Ctx (request_of e \<noteq> None) (descriptor_of rid d) (cc_method_enum (d_conn d)) (Some rid)
      in if \<not> server_gate \<and> \<not> per_route_gate then (False, d)
         else
           (case (if server_gate then fire_short_circuit_hooks_for_phase run before_handler ctx e else (None, ctx, e)) of
              (Some sc, ctx1, e1) \<Rightarrow> (True, emplace_response sc (d\<lparr>d_env := e1\<rparr>))
            | (None, ctx1, e1) \<Rightarrow>
                (case (if per_route_gate then route_chain run before_handler rtable ctx1 e1 else (None, ctx1, e1)) of
                   (Some sc, ctx2, e2) \<Rightarrow> (True, emplace_response sc (d\<lparr>d_env := e2\<rparr>))
                 | (None, ctx2, e2) \<Rightarrow> (False, d\<lparr>d_env := e2\<rparr>))))"

section \<open>After the handler\<close>

definition fire_after_handler_gated ::
    "'h webserver \<Rightarrow> ('re, 'u, 'h, 'w) externals \<Rightarrow> nat option \<Rightarrow> ('re, 'u, 'h, 'w) dispatch
      \<Rightarrow> ('re, 'u, 'h, 'w) dispatch" where
  "fire_after_handler_gated cfg ex resource d =
     (let e = d_env d;
          run = run_fn cfg ex;
          server_gate = has_hooks_for after_handler (env_bus e);
          rtable = resource_table resource e;
          rgate = route_gate rtable after_handler e
      in if \<not> server_gate \<and> \<not> rgate then d
         else if response_of e = None then d
         else
           (let ctx = After_Handler_Ctx (request_of e \<noteq> None);
                (sc, ctx1, e1) =
                  (if server_gate then fire_short_circuit_hooks_for_phase run after_handler ctx e else (None, ctx, e));
                d1 = (case sc of Some r \<Rightarrow> emplace_response r (d\<lparr>d_env := e1\<rparr>) | None \<Rightarrow> d\<lparr>d_env := e1\<rparr>)
            in if rgate then
                 (case route_chain run after_handler rtable ctx1 (d_env d1) of
                    (Some r, ctx2, e2) \<Rightarrow> emplace_response r (d1\<lparr>d_env := e2\<rparr>)
                  | (None, ctx2, e2) \<Rightarrow> d1\<lparr>d_env := e2\<rparr>)
               else d1))"

section \<open>Response sent\<close>

definition bytes_queued :: "http_response \<Rightarrow> 64 word" where
  "bytes_queued r = (case resp_body r of Some b \<Rightarrow> body_size b | None \<Rightarrow> 0)"

definition fire_response_sent_gated ::
    "'h webserver \<Rightarrow> ('re, 'u, 'h, 'w) externals \<Rightarrow> nat option \<Rightarrow> ('re, 'u, 'h, 'w) dispatch
      \<Rightarrow> ('re, 'u, 'h, 'w) dispatch" where
  "fire_response_sent_gated cfg ex resource d =
     (let e = d_env d;
          run = run_fn cfg ex;
          server_gate = has_hooks_for response_sent (env_bus e);
          rtable = resource_table resource e;
          rgate = route_gate rtable response_sent e;
          user_gate = (server_gate \<or> rgate)
      in if \<not> user_gate \<and> log_access_alias (env_bus e) = None then d
         else
           (case response_of e of
              None \<Rightarrow> d
            | Some r \<Rightarrow>
                (let elapsed = (if user_gate then ex_now ex e - (case cc_start_time (d_conn d) of Some t \<Rightarrow> t | None \<Rightarrow> 0) else 0);
                     ctx = Response_Sent_Ctx (request_of e \<noteq> None) (status_code r) (bytes_queued r) elapsed;
                     e1 = fire_response_sent run ctx e
                 in d\<lparr>d_env := if rgate then route_observe run response_sent rtable ctx e1 else e1\<rparr>)))"

section \<open>Request completed\<close>

text \<open>\<open>alive\<close> says whether the resource the weak pointer was taken from still exists.  A start time that was
  never set is the epoch of the clock.\<close>

definition fire_request_completed_gated ::
    "'h webserver \<Rightarrow> ('re, 'u, 'h, 'w) externals \<Rightarrow> (nat \<Rightarrow> bool) \<Rightarrow> bool \<Rightarrow> ('re, 'u, 'h, 'w) dispatch
      \<Rightarrow> ('re, 'u, 'h, 'w) dispatch" where
  "fire_request_completed_gated cfg ex alive completed_ok d =
     (let e = d_env d;
          run = run_fn cfg ex;
          server_gate = has_hooks_for request_completed (env_bus e);
          res = (case cc_resource_weak (d_conn d) of
                   Some rid \<Rightarrow> if alive rid then Some rid else None
                 | None \<Rightarrow> None);
          rtable = (if server_gate \<or> cc_route_has_hook_table (d_conn d) then resource_table res e else None);
          per_route_present = route_gate rtable request_completed e
      in if \<not> server_gate \<and> \<not> per_route_present then d
         else
           (let duration = (case cc_start_time (d_conn d) of None \<Rightarrow> - 1 | Some t \<Rightarrow> ex_now ex e - t);
                ctx = Request_Completed_Ctx (request_of e \<noteq> None) (response_of e \<noteq> None) completed_ok duration;
                e1 = (if server_gate then fire_hooks_for_phase run request_completed ctx e else e)
            in d\<lparr>d_env := if per_route_present then route_observe run request_completed rtable ctx e1 else e1\<rparr>))"

section \<open>What firing leaves alone\<close>

lemma emplace_response_fields:
  "d_conn (emplace_response r d) = d_conn d"
  "\<exists>evs. d_trace (emplace_response r d) = d_trace d @ map Descriptor evs"
  by (auto simp: emplace_response_def emit_def on_env_def Let_def simp del: map_append split: prod.splits)

lemma fire_before_handler_conn: "d_conn (snd (fire_before_handler_gated cfg ex rid d)) = d_conn d"
  by (simp add: fire_before_handler_gated_def Let_def emplace_response_fields split: prod.splits option.splits)

lemma fire_after_handler_conn: "d_conn (fire_after_handler_gated cfg ex res d) = d_conn d"
  by (simp add: fire_after_handler_gated_def Let_def emplace_response_fields split: prod.splits option.splits)

lemma fire_response_sent_fields:
  "d_conn (fire_response_sent_gated cfg ex res d) = d_conn d"
  "d_trace (fire_response_sent_gated cfg ex res d) = d_trace d"
  by (simp_all add: fire_response_sent_gated_def Let_def split: prod.splits option.splits)

end
