(* ===== verification/Websocket.thy ===== *)
theory Websocket
  imports Dispatch_State
begin

text \<open>
  \<^verbatim>\<open>src/src/detail/ws_registry.cpp\<close>, \<^verbatim>\<open>src/src/detail/websocket_upgrader.cpp\<close> and \<^verbatim>\<open>src/src/websocket_handler.cpp\<close> in
  the build with websockets: the registry of handlers, the handshake, the session with its frames,
  and the loop that reads from the upgraded socket.  The codec of libmicrohttpd, the socket and the
  handler classes of users are arguments; the sequence of results of \<^verbatim>\<open>recv\<close> is a list.
\<close>

section \<open>The registry\<close>

type_synonym 'k ws_registry = "(string \<times> 'k) list"

definition try_register :: "string \<Rightarrow> 'k \<Rightarrow> 'k ws_registry \<Rightarrow> bool \<times> 'k ws_registry" where
  "try_register url_key handler reg =
     (case map_of reg url_key of
        Some k \<Rightarrow> (False, reg)
      | None \<Rightarrow> (True, (url_key, handler) # reg))"

definition ws_unregister :: "string \<Rightarrow> 'k ws_registry \<Rightarrow> 'k ws_registry" where
  "ws_unregister url_key reg = AList.delete url_key reg"

definition ws_find :: "string \<Rightarrow> 'k ws_registry \<Rightarrow> 'k option" where
  "ws_find url reg = map_of reg url"

text \<open>The members of the server: a null handler and a taken path are refused.\<close>

definition register_ws_resource :: "string \<Rightarrow> 'k option \<Rightarrow> 'k ws_registry \<Rightarrow> 'k ws_registry \<times> exn option" where
  "register_ws_resource resource handler reg =
     (case handler of
        None \<Rightarrow> (reg, Some (invalid_argument ''The websocket_handler pointer cannot be null''))
      | Some k \<Rightarrow>
          (case try_register (standardize_url resource) k reg of
             (True, reg') \<Rightarrow> (reg', None)
           | (False, reg') \<Rightarrow>
               (reg', Some (invalid_argument ''A websocket_handler is already registered at this path''))))"

definition unregister_ws_resource :: "string \<Rightarrow> 'k ws_registry \<Rightarrow> 'k ws_registry" where
  "unregister_ws_resource resource reg = ws_unregister (standardize_url resource) reg"

section \<open>The handshake\<close>

definition strcasecmp_eq :: "string \<Rightarrow> string \<Rightarrow> bool" where
  "strcasecmp_eq a b \<longleftrightarrow> map c_tolower a = map c_tolower b"

definition strcasestr :: "string \<Rightarrow> string \<Rightarrow> bool" where
  "strcasestr haystack needle \<longleftrightarrow> sublist (map c_tolower needle) (map c_tolower haystack)"

definition validate_websocket_handshake :: "mhd_connection \<Rightarrow> string option" where
  "validate_websocket_handshake c =
     (let connection_header = conn_lookup c MHD_HEADER_KIND ''Connection'';
          ws_version = conn_lookup c MHD_HEADER_KIND ''Sec-WebSocket-Version'';
          ws_key = conn_lookup c MHD_HEADER_KIND ''Sec-WebSocket-Key''
      in case connection_header of
           None \<Rightarrow> None
         | Some h \<Rightarrow>
             if \<not> strcasestr h ''Upgrade'' then None
             else if ws_version \<noteq> Some ''13'' then None
             else
               (case ws_key of
                  None \<Rightarrow> None
                | Some k \<Rightarrow> if k = [] then None else Some k))"

text \<open>What libmicrohttpd answers during an upgrade: whether it makes the response, the accept key it computes
  (none on failure), and whether it queues a response of a status.\<close>

record ws_mhd =
  wm_creates :: bool
  wm_accept :: "string \<Rightarrow> string option"
  wm_queues :: "int \<Rightarrow> bool"

definition complete_websocket_upgrade ::
    "ws_mhd \<Rightarrow> 'k ws_registry \<Rightarrow> string \<Rightarrow> string \<Rightarrow> bool option \<times> event list" where
  "complete_websocket_upgrade wm reg url ws_key =
     (case ws_find url reg of
        None \<Rightarrow> (None, [])
      | Some handler \<Rightarrow>
          if \<not> wm_creates wm then (None, [])
          else
            (case wm_accept wm ws_key of
               None \<Rightarrow> (None, [Mhd_Add_Header ''Upgrade'' ''websocket'', Mhd_Destroy_Response])
             | Some accept \<Rightarrow>
                 (Some (wm_queues wm 101),
                  [Mhd_Add_Header ''Upgrade'' ''websocket'', Mhd_Add_Header ''Sec-WebSocket-Accept'' accept,
                   Mhd_Queue_Upgrade url, Mhd_Destroy_Response])))"

definition try_handle :: "ws_mhd \<Rightarrow> 'k ws_registry \<Rightarrow> mhd_connection \<Rightarrow> string \<Rightarrow> bool option \<times> event list" where
  "try_handle wm reg c url =
     (case conn_lookup c MHD_HEADER_KIND ''Upgrade'' of
        None \<Rightarrow> (None, [])
      | Some upgrade_header \<Rightarrow>
          if \<not> strcasecmp_eq upgrade_header ''websocket'' then (None, [])
          else
            (case validate_websocket_handshake c of
               None \<Rightarrow> (Some (wm_queues wm 400), [Mhd_Queue 400 (Raw_Buffer []), Mhd_Destroy_Response])
             | Some ws_key \<Rightarrow> complete_websocket_upgrade wm reg url ws_key))"

section \<open>Sessions\<close>

datatype ws_frame = Text_Out string | Binary_Out string | Ping_Out string | Pong_Out string | Close_Out "16 word" string

text \<open>The stream of the codec, the validity flag, the bytes given to \<^verbatim>\<open>send\<close> and the rest of the world.\<close>

record ('st, 'w) ws_session =
  ws_stream :: 'st
  ws_valid :: bool
  ws_sent :: string
  ws_world :: 'w

text \<open>\<open>io_encode\<close> is the encoder of libmicrohttpd, \<open>io_send\<close> what \<^verbatim>\<open>send\<close> returns for the bytes it is offered
  after what was sent before.\<close>

record 'st ws_io =
  io_encode :: "ws_frame \<Rightarrow> 'st \<Rightarrow> string option"
  io_send :: "string \<Rightarrow> string \<Rightarrow> int"

partial_function (option) send_all :: "'st ws_io \<Rightarrow> string \<Rightarrow> string \<Rightarrow> (bool \<times> string) option" where
  "send_all io before data =
     (if data = [] then Some (True, before)
      else
        (let ret = io_send io before data in
         if ret \<le> 0 then Some (False, before)
         else send_all io (before @ take (nat ret) data) (drop (nat ret) data)))"

text \<open>\<^verbatim>\<open>send_text\<close>, \<^verbatim>\<open>send_binary\<close> ignore an encoder that fails, \<^verbatim>\<open>send_ping\<close> and \<^verbatim>\<open>send_pong\<close> give the session up.\<close>

definition is_control :: "ws_frame \<Rightarrow> bool" where
  "is_control f = (case f of Ping_Out p \<Rightarrow> True | Pong_Out p \<Rightarrow> True | _ \<Rightarrow> False)"

definition send_frame ::
    "'st ws_io \<Rightarrow> ws_frame \<Rightarrow> ('st, 'w) ws_session \<Rightarrow> ('st, 'w) ws_session option" where
  "send_frame io f s =
     (if \<not> ws_valid s then Some s
      else
        (case io_encode io f (ws_stream s) of
           None \<Rightarrow> Some (if is_control f then s\<lparr>ws_valid := False\<rparr> else s)
         | Some frame \<Rightarrow>
             map_option (\<lambda>(ok, sent). s\<lparr>ws_sent := sent, ws_valid := ok\<rparr>) (send_all io (ws_sent s) frame)))"

definition session_close ::
    "'st ws_io \<Rightarrow> 16 word \<Rightarrow> string \<Rightarrow> ('st, 'w) ws_session \<Rightarrow> ('st, 'w) ws_session option" where
  "session_close io code reason s =
     (if \<not> ws_valid s then Some s
      else
        (let s' = s\<lparr>ws_valid := False\<rparr> in
         case io_encode io (Close_Out code reason) (ws_stream s) of
           None \<Rightarrow> Some s'
         | Some frame \<Rightarrow> map_option (\<lambda>(ok, sent). s'\<lparr>ws_sent := sent\<rparr>) (send_all io (ws_sent s) frame)))"

section \<open>Frames\<close>

datatype ws_status =
    MHD_WEBSOCKET_STATUS_TEXT_FRAME
  | MHD_WEBSOCKET_STATUS_BINARY_FRAME
  | MHD_WEBSOCKET_STATUS_PING_FRAME
  | MHD_WEBSOCKET_STATUS_CLOSE_FRAME
  | MHD_WEBSOCKET_STATUS_OK
  | MHD_WEBSOCKET_STATUS_other

text \<open>The members of a handler class; the class itself keeps the defaults for those it does not override.\<close>

record ('st, 'w) websocket_handler =
  on_open :: "('st, 'w) ws_session \<Rightarrow> ('st, 'w) ws_session option"
  on_message :: "string \<Rightarrow> ('st, 'w) ws_session \<Rightarrow> ('st, 'w) ws_session option"
  on_binary :: "string \<Rightarrow> ('st, 'w) ws_session \<Rightarrow> ('st, 'w) ws_session option"
  on_ping :: "string \<Rightarrow> ('st, 'w) ws_session \<Rightarrow> ('st, 'w) ws_session option"
  on_close :: "16 word \<Rightarrow> string \<Rightarrow> ('st, 'w) ws_session \<Rightarrow> ('st, 'w) ws_session option"

definition default_on_ping ::
    "'st ws_io \<Rightarrow> string \<Rightarrow> ('st, 'w) ws_session \<Rightarrow> ('st, 'w) ws_session option" where
  "default_on_ping io payload s = send_frame io (Pong_Out payload) s"

definition close_payload :: "string \<Rightarrow> 16 word \<times> string" where
  "close_payload frame =
     (if length frame \<ge> 2 then
        (or (push_bit 8 (of_nat (of_char (frame ! 0)))) (of_nat (of_char (frame ! 1))),
         if length frame > 2 then drop 2 frame else [])
      else (1000, []))"

definition handle_close_frame ::
    "'st ws_io \<Rightarrow> ('st, 'w) websocket_handler \<Rightarrow> string \<Rightarrow> ('st, 'w) ws_session \<Rightarrow> ('st, 'w) ws_session option" where
  "handle_close_frame io h frame s =
     (let (code, reason) = close_payload frame in
      Option.bind (on_close h code reason s) (session_close io code reason))"

definition dispatch_websocket_frame ::
    "'st ws_io \<Rightarrow> ('st, 'w) websocket_handler \<Rightarrow> ws_status \<Rightarrow> string \<Rightarrow> ('st, 'w) ws_session
      \<Rightarrow> ('st, 'w) ws_session option" where
  "dispatch_websocket_frame io h status frame s =
     (case status of
        MHD_WEBSOCKET_STATUS_TEXT_FRAME \<Rightarrow> on_message h frame s
      | MHD_WEBSOCKET_STATUS_BINARY_FRAME \<Rightarrow> on_binary h frame s
      | MHD_WEBSOCKET_STATUS_PING_FRAME \<Rightarrow> on_ping h frame s
      | MHD_WEBSOCKET_STATUS_CLOSE_FRAME \<Rightarrow> handle_close_frame io h frame s
      | MHD_WEBSOCKET_STATUS_OK \<Rightarrow> Some s
      | MHD_WEBSOCKET_STATUS_other \<Rightarrow> session_close io 1002 ''Protocol error'' s)"

text \<open>\<open>dec\<close> is \<^verbatim>\<open>MHD_websocket_decode\<close>: the status, the bytes consumed, the payload and the new stream.\<close>

type_synonym 'st ws_decoder = "'st \<Rightarrow> string \<Rightarrow> ws_status \<times> nat \<times> string \<times> 'st"

partial_function (option) decode_websocket_buffer ::
    "'st ws_decoder \<Rightarrow> 'st ws_io \<Rightarrow> ('st, 'w) websocket_handler \<Rightarrow> string \<Rightarrow> nat \<Rightarrow> ('st, 'w) ws_session
      \<Rightarrow> ('st, 'w) ws_session option" where
  "decode_websocket_buffer dec io h buf offset s =
     (if offset < length buf \<and> ws_valid s then
        (let (status, step, frame, stream) = dec (ws_stream s) (drop offset buf) in
         Option.bind (dispatch_websocket_frame io h status frame (s\<lparr>ws_stream := stream\<rparr>)) (\<lambda>s'.
           if step = 0 then Some s' else decode_websocket_buffer dec io h buf (offset + step) s'))
      else Some s)"

text \<open>The loop on the socket: each element of the list is what one \<^verbatim>\<open>recv\<close> returned, the end of the list or an
  empty element a result of at most zero.\<close>

fun receive_loop ::
    "'st ws_decoder \<Rightarrow> 'st ws_io \<Rightarrow> ('st, 'w) websocket_handler \<Rightarrow> string list \<Rightarrow> ('st, 'w) ws_session
      \<Rightarrow> ('st, 'w) ws_session option" where
  "receive_loop dec io h [] s = Some s"
| "receive_loop dec io h (chunk # chunks) s =
     (if \<not> ws_valid s \<or> chunk = [] then Some s
      else Option.bind (decode_websocket_buffer dec io h chunk 0 s) (receive_loop dec io h chunks))"

definition upgrade_handler ::
    "'st ws_decoder \<Rightarrow> 'st ws_io \<Rightarrow> ('st, 'w) websocket_handler \<Rightarrow> 'st option \<Rightarrow> 'w \<Rightarrow> string \<Rightarrow> string list
      \<Rightarrow> ('st, 'w) ws_session option option" where
  "upgrade_handler dec io h init w extra chunks =
     (case init of
        None \<Rightarrow> None
      | Some st \<Rightarrow>
          Some (Option.bind (on_open h \<lparr>ws_stream = st, ws_valid = True, ws_sent = [], ws_world = w\<rparr>) (\<lambda>s.
                Option.bind (if extra \<noteq> [] then decode_websocket_buffer dec io h extra 0 s else Some s)
                  (receive_loop dec io h chunks))))"

section \<open>Every loop ends\<close>

lemma send_all_ends: "\<exists>ok sent. send_all io before data = Some (ok, sent)"
proof (induction "length data" arbitrary: before data rule: less_induct)
  case less
  show ?case
  proof (cases "data = [] \<or> io_send io before data \<le> 0")
    case True
    then show ?thesis by (subst send_all.simps) (auto simp: Let_def)
  next
    case False
    then have "length (drop (nat (io_send io before data)) data) < length data" by auto
    from less [OF this] False show ?thesis by (subst send_all.simps) (auto simp: Let_def)
  qed
qed

lemma send_all_prefix: "send_all io before data = Some (ok, sent) \<Longrightarrow> prefix before sent \<and> prefix sent (before @ data)"
proof (induction "length data" arbitrary: before data rule: less_induct)
  case less
  define n where "n = nat (io_send io before data)"
  show ?case
  proof (cases "data = [] \<or> io_send io before data \<le> 0")
    case True
    then show ?thesis using less.prems by (subst (asm) send_all.simps) (auto simp: Let_def split: if_splits)
  next
    case False
    then have "length (drop n data) < length data" by (auto simp: n_def)
    moreover have "send_all io (before @ take n data) (drop n data) = Some (ok, sent)"
      using less.prems False by (subst (asm) send_all.simps) (auto simp: Let_def n_def)
    ultimately have "prefix (before @ take n data) sent \<and> prefix sent ((before @ take n data) @ drop n data)"
      using less.hyps by blast
    then show ?thesis by (auto dest: append_prefixD)
  qed
qed

lemma send_all_complete: "send_all io before data = Some (True, sent) \<Longrightarrow> sent = before @ data"
proof (induction "length data" arbitrary: before data rule: less_induct)
  case less
  define n where "n = nat (io_send io before data)"
  show ?case
  proof (cases "data = [] \<or> io_send io before data \<le> 0")
    case True
    then show ?thesis using less.prems by (subst (asm) send_all.simps) (auto simp: Let_def split: if_splits)
  next
    case False
    then have "length (drop n data) < length data" by (auto simp: n_def)
    moreover have "send_all io (before @ take n data) (drop n data) = Some (True, sent)"
      using less.prems False by (subst (asm) send_all.simps) (auto simp: Let_def n_def)
    ultimately show ?thesis using less.hyps by fastforce
  qed
qed

lemma session_close_ends: "\<exists>s'. session_close io code reason s = Some s' \<and> \<not> ws_valid s'"
proof (cases "io_encode io (Close_Out code reason) (ws_stream s)")
  case (Some frame)
  obtain ok sent where "send_all io (ws_sent s) frame = Some (ok, sent)" using send_all_ends by metis
  with Some show ?thesis by (auto simp: session_close_def Let_def)
qed (auto simp: session_close_def Let_def)

text \<open>A handler whose members return.\<close>

definition handler_returns :: "('st, 'w) websocket_handler \<Rightarrow> bool" where
  "handler_returns h \<longleftrightarrow>
     (\<forall>s. on_open h s \<noteq> None) \<and> (\<forall>t s. on_message h t s \<noteq> None) \<and> (\<forall>t s. on_binary h t s \<noteq> None)
     \<and> (\<forall>t s. on_ping h t s \<noteq> None) \<and> (\<forall>c t s. on_close h c t s \<noteq> None)"

lemma dispatch_frame_ends: "handler_returns h \<Longrightarrow> dispatch_websocket_frame io h status frame s \<noteq> None"
proof (cases status)
  case MHD_WEBSOCKET_STATUS_CLOSE_FRAME
  assume "handler_returns h"
  obtain code reason where p: "close_payload frame = (code, reason)" by fastforce
  obtain s' where "on_close h code reason s = Some s'" using \<open>handler_returns h\<close> unfolding handler_returns_def not_None_eq by blast
  moreover obtain s'' where "session_close io code reason s' = Some s''" using session_close_ends by blast
  ultimately show ?thesis
    using MHD_WEBSOCKET_STATUS_CLOSE_FRAME p by (simp add: dispatch_websocket_frame_def handle_close_frame_def)
next
  case MHD_WEBSOCKET_STATUS_other
  then show ?thesis using session_close_ends [of io 1002 "''Protocol error''" s] by (auto simp: dispatch_websocket_frame_def)
qed (auto simp: dispatch_websocket_frame_def handler_returns_def)

lemma decode_websocket_buffer_ends: "handler_returns h \<Longrightarrow> decode_websocket_buffer dec io h buf offset s \<noteq> None"
proof (induction "length buf - offset" arbitrary: offset s rule: less_induct)
  case less
  obtain status step frame stream where d: "dec (ws_stream s) (drop offset buf) = (status, step, frame, stream)"
    using prod_cases4 by blast
  obtain s' where s': "dispatch_websocket_frame io h status frame (s\<lparr>ws_stream := stream\<rparr>) = Some s'"
    using dispatch_frame_ends [OF less.prems] by blast
  show ?case
  proof (cases "offset < length buf \<and> ws_valid s \<and> step \<noteq> 0")
    case True
    then have "length buf - (offset + step) < length buf - offset" by auto
    from less.hyps [OF this less.prems, of s'] show ?thesis
      using True d s' by (subst decode_websocket_buffer.simps) (auto simp: Let_def)
  next
    case False
    then show ?thesis using d s' by (subst decode_websocket_buffer.simps) (auto simp: Let_def)
  qed
qed

lemma receive_loop_ends: "handler_returns h \<Longrightarrow> receive_loop dec io h chunks s \<noteq> None"
proof (induction chunks arbitrary: s)
  case (Cons chunk chunks)
  then show ?case using decode_websocket_buffer_ends [OF Cons.prems, of dec io chunk 0 s] by auto
qed simp

section \<open>Properties\<close>

text \<open>C13: A websocket session ends with its input: whatever bytes arrive in whatever pieces, and however little the
  socket takes of each write, the callback of an upgraded connection returns when the members of the
  handler return.\<close>

theorem websocket_session_terminates:
  assumes "handler_returns h"
  shows "upgrade_handler dec io h (Some st) w extra chunks \<noteq> Some None"
proof -
  define s0 where "s0 = \<lparr>ws_stream = st, ws_valid = True, ws_sent = [], ws_world = w\<rparr>"
  obtain s1 where s1: "on_open h s0 = Some s1" using assms unfolding handler_returns_def not_None_eq by blast
  obtain s2 where s2: "(if extra \<noteq> [] then decode_websocket_buffer dec io h extra 0 s1 else Some s1) = Some s2"
    using decode_websocket_buffer_ends [OF assms, of dec io extra 0 s1] by fastforce
  show ?thesis
    using s1 s2 receive_loop_ends [OF assms, of dec io chunks s2] by (simp add: upgrade_handler_def s0_def)
qed

definition quiet_handler :: "(unit, unit) websocket_handler" where
  "quiet_handler =
     \<lparr>on_open = Some, on_message = (\<lambda>t s. Some s), on_binary = (\<lambda>t s. Some s), on_ping = (\<lambda>t s. Some s),
      on_close = (\<lambda>c t s. Some s)\<rparr>"

lemma websocket_session_terminates_witness:
  "upgrade_handler (\<lambda>st b. (MHD_WEBSOCKET_STATUS_other, 1, [], ()))
     \<lparr>io_encode = (\<lambda>f st. Some ''bye''), io_send = (\<lambda>b d. 1)\<rparr> quiet_handler (Some ()) () ''xy'' [''z''] \<noteq> Some None"
  using websocket_session_terminates [of quiet_handler] by (simp add: handler_returns_def quiet_handler_def)

text \<open>C14: A websocket upgrade happens only on a full handshake to a registered path: the connection switches
  protocols only if the \<^verbatim>\<open>Upgrade\<close> and \<^verbatim>\<open>Connection\<close> headers ask for it, the version is 13, a key is there, and the
  path has a handler; a request that names the protocol and lacks any of the headers is answered with 400.\<close>

theorem upgrade_needs_handshake:
  "(\<forall>url'. Mhd_Queue_Upgrade url' \<in> set (snd (try_handle wm reg c url)) \<longrightarrow>
      url' = url \<and> url \<in> fst ` set reg \<and>
      (\<exists>u. conn_lookup c MHD_HEADER_KIND ''Upgrade'' = Some u \<and> map c_tolower u = ''websocket'') \<and>
      (\<exists>h. conn_lookup c MHD_HEADER_KIND ''Connection'' = Some h \<and> sublist ''upgrade'' (map c_tolower h)) \<and>
      conn_lookup c MHD_HEADER_KIND ''Sec-WebSocket-Version'' = Some ''13'' \<and>
      (\<exists>k. conn_lookup c MHD_HEADER_KIND ''Sec-WebSocket-Key'' = Some k \<and> k \<noteq> []) \<and>
      fst (try_handle wm reg c url) = Some (wm_queues wm 101)) \<and>
   (conn_lookup c MHD_HEADER_KIND ''Upgrade'' = Some ''websocket'' \<and> validate_websocket_handshake c = None \<longrightarrow>
      try_handle wm reg c url = (Some (wm_queues wm 400), [Mhd_Queue 400 (Raw_Buffer []), Mhd_Destroy_Response]))"
proof -
  have low: "map c_tolower ''websocket'' = ''websocket''" "map c_tolower ''Upgrade'' = ''upgrade''" by code_simp+
  show ?thesis
    by (auto simp: try_handle_def complete_websocket_upgrade_def validate_websocket_handshake_def Let_def
        strcasecmp_eq_def strcasestr_def low ws_find_def simp del: list.map split: option.splits if_splits
        dest: map_of_SomeD intro: rev_image_eqI)
qed

definition asking_connection :: mhd_connection where
  "asking_connection =
     (silent_connection None [])\<lparr>conn_lookup := \<lambda>kind key. if kind = MHD_HEADER_KIND then
        map_of [(''Upgrade'', ''WebSocket''), (''Connection'', ''keep-alive, Upgrade''), (''Sec-WebSocket-Version'', ''13''),
                (''Sec-WebSocket-Key'', ''dGhl'')] key else None\<rparr>"

lemma upgrade_needs_handshake_witness:
  "Mhd_Queue_Upgrade ''/chat'' \<in>
     set (snd (try_handle \<lparr>wm_creates = True, wm_accept = Some, wm_queues = \<lambda>st. True\<rparr> [(''/chat'', ())] asking_connection ''/chat'')) \<and>
   conn_lookup asking_connection MHD_HEADER_KIND ''Sec-WebSocket-Version'' = Some ''13''"
proof -
  have *: "Mhd_Queue_Upgrade ''/chat'' \<in>
     set (snd (try_handle \<lparr>wm_creates = True, wm_accept = Some, wm_queues = \<lambda>st. True\<rparr> [(''/chat'', ())] asking_connection ''/chat''))"
    by code_simp
  with upgrade_needs_handshake [of "\<lparr>wm_creates = True, wm_accept = Some, wm_queues = \<lambda>st. True\<rparr>" "[(''/chat'', ())]"
      asking_connection "''/chat''"]
  show ?thesis by blast
qed

end
