(* ===== verification/Request_Dispatcher.thy ===== *)
theory Request_Dispatcher
  imports Hook_Dispatcher Websocket
begin

text \<open>
  \<^verbatim>\<open>src/src/detail/request_dispatcher.cpp\<close> and \<^verbatim>\<open>src/src/detail/response_materializer.cpp\<close>: from a complete request
  to the response libmicrohttpd is given.  The steps are those of \<^verbatim>\<open>finalize_answer\<close>: the websocket upgrade,
  the response staged by an earlier hook, the route lookup with its captured segments, the
  \<^verbatim>\<open>route_resolved\<close> and \<^verbatim>\<open>before_handler\<close> phases, the handler or an error page, the \<^verbatim>\<open>after_handler\<close> phase, and the
  delivery with its fallbacks.  What may leave \<^verbatim>\<open>finalize_answer\<close> as an exception is part of the result.
\<close>

section \<open>Materialising a response\<close>

definition put_response :: "http_response \<Rightarrow> ('re, 'u, 'h, 'w) dispatch \<Rightarrow> ('re, 'u, 'h, 'w) dispatch" where
  "put_response r d = on_env (on_reach (\<lambda>w. w\<lparr>rc_response := Some r\<rparr>)) d"

definition materialize_response ::
    "('re, 'u, 'h, 'w) externals \<Rightarrow> ('re, 'u, 'h, 'w) dispatch \<Rightarrow> raw_response option result \<times> ('re, 'u, 'h, 'w) dispatch" where
  "materialize_response ex d =
     (case response_of (d_env d) of
        None \<Rightarrow> (Inr None, d)
      | Some r \<Rightarrow>
          (case resp_body r of
             None \<Rightarrow> (Inr None, d)
           | Some b \<Rightarrow>
               (case ex_materialize_throws ex b of
                  Some x \<Rightarrow> (Inl x, d)
                | None \<Rightarrow>
                    (let (raw, b', ev) = body_materialize (ex_creates ex) b in
                     (Inr raw, emit (map Descriptor ev) (put_response (r\<lparr>resp_body := Some b'\<rparr>) d))))))"

definition emplace_page ::
    "http_response result \<times> ('re, 'u, 'h, 'w) dispatch \<Rightarrow> unit result \<times> ('re, 'u, 'h, 'w) dispatch" where
  "emplace_page p = (case p of (Inl x, d) \<Rightarrow> (Inl x, d) | (Inr r, d) \<Rightarrow> (Inr (), emplace_response r d))"

definition emplace_and_materialize ::
    "('re, 'u, 'h, 'w) externals \<Rightarrow> http_response result \<times> ('re, 'u, 'h, 'w) dispatch
      \<Rightarrow> raw_response option result \<times> ('re, 'u, 'h, 'w) dispatch" where
  "emplace_and_materialize ex p =
     (case emplace_page p of (Inl x, d) \<Rightarrow> (Inl x, d) | (Inr u, d) \<Rightarrow> materialize_response ex d)"

text \<open>\<^verbatim>\<open>catch(...) { return nullptr; }\<close>\<close>

definition or_null ::
    "raw_response option result \<times> ('re, 'u, 'h, 'w) dispatch \<Rightarrow> raw_response option \<times> ('re, 'u, 'h, 'w) dispatch" where
  "or_null p = (case p of (Inl x, d) \<Rightarrow> (None, d) | (Inr raw, d) \<Rightarrow> (raw, d))"

text \<open>The three catch clauses around the first attempt.\<close>

definition materialize_threw ::
    "'h webserver \<Rightarrow> ('re, 'u, 'h, 'w) externals \<Rightarrow> exn \<Rightarrow> ('re, 'u, 'h, 'w) dispatch
      \<Rightarrow> raw_response option \<times> ('re, 'u, 'h, 'w) dispatch" where
  "materialize_threw cfg ex x d =
     (case x of
        invalid_argument s \<Rightarrow> or_null (emplace_and_materialize ex (call (not_found_page cfg ex) d))
      | _ \<Rightarrow>
          (case what_of x of
             Some w \<Rightarrow>
               or_null (emplace_and_materialize ex
                 (call (run_internal_error_handler_safely cfg ex w)
                   (on_env (log_dispatch_error (''materialize threw: '' @ w)) d)))
           | None \<Rightarrow>
               or_null (emplace_and_materialize ex
                 (call (run_internal_error_handler_safely cfg ex ''unknown exception'')
                   (on_env (log_dispatch_error ''materialize threw unknown exception'') d)))))"

definition get_raw_response_with_fallback ::
    "'h webserver \<Rightarrow> ('re, 'u, 'h, 'w) externals \<Rightarrow> ('re, 'u, 'h, 'w) dispatch
      \<Rightarrow> raw_response option \<times> ('re, 'u, 'h, 'w) dispatch" where
  "get_raw_response_with_fallback cfg ex d =
     (case materialize_response ex d of
        (Inl x, d1) \<Rightarrow> materialize_threw cfg ex x d1
      | (Inr (Some raw), d1) \<Rightarrow> (Some raw, d1)
      | (Inr None, d1) \<Rightarrow>
          (case emplace_and_materialize ex
                  (call (run_internal_error_handler_safely cfg ex ''materialize_response returned null'') d1) of
             (Inl x, d2) \<Rightarrow> materialize_threw cfg ex x d2
           | (Inr raw, d2) \<Rightarrow> (raw, d2)))"

section \<open>Decorating and queueing\<close>

fun add_cookies :: "cookie list \<Rightarrow> ('re, 'u, 'h, 'w) dispatch \<Rightarrow> unit result \<times> ('re, 'u, 'h, 'w) dispatch" where
  "add_cookies [] d = (Inr (), d)"
| "add_cookies (c # cs) d =
     (case to_set_cookie_header c of
        Inl x \<Rightarrow> (Inl x, d)
      | Inr cookie_hdr \<Rightarrow> add_cookies cs (emit [Mhd_Add_Header ''Set-Cookie'' (c_str cookie_hdr)] d))"

definition decorate_mhd_response ::
    "http_response \<Rightarrow> ('re, 'u, 'h, 'w) dispatch \<Rightarrow> unit result \<times> ('re, 'u, 'h, 'w) dispatch" where
  "decorate_mhd_response r d =
     add_cookies (structured_cookies r)
       (emit (map (\<lambda>(k, v). Mhd_Add_Header (c_str k) (c_str v)) (resp_headers r) @
              map (\<lambda>(k, v). Mhd_Add_Footer (c_str k) (c_str v)) (resp_footers r)) d)"

definition opaque_for :: "'h webserver \<Rightarrow> digest_params \<Rightarrow> string" where
  "opaque_for cfg p = (if dp_opaque p = [] then c_str (digest_opaque cfg) else c_str (dp_opaque p))"

definition domain_for :: "digest_params \<Rightarrow> string option" where
  "domain_for p = (if dp_domain p = [] then None else Some (c_str (dp_domain p)))"

definition queue_response_dispatching_kind ::
    "'h webserver \<Rightarrow> ('re, 'u, 'h, 'w) externals \<Rightarrow> http_response \<Rightarrow> raw_response \<Rightarrow> ('re, 'u, 'h, 'w) dispatch
      \<Rightarrow> bool result \<times> ('re, 'u, 'h, 'w) dispatch" where
  "queue_response_dispatching_kind cfg ex r raw d =
     (if resp_kind r = kind_digest_challenge then
        (case resp_body r of
           None \<Rightarrow> (Inr (ex_queues ex (status_code r) raw), emit [Mhd_Queue (status_code r) raw] d)
         | Some (Digest_Body (Some p)) \<Rightarrow>
             (Inr (ex_queues ex 401 raw),
              emit [Mhd_Queue_Auth (c_str (dp_realm p)) (opaque_for cfg p) (domain_for p) (dp_signal_stale p)
                      (dp_qop_auth p) (dp_algorithm p) (dp_userhash_support p) (dp_prefer_utf8 p) raw] d)
         | _ \<Rightarrow> (Inl (undefined_behaviour ''digest challenge without parameters''), d))
      else (Inr (ex_queues ex (status_code r) raw), emit [Mhd_Queue (status_code r) raw] d))"

text \<open>The tail of \<^verbatim>\<open>materialize_and_queue_response\<close>, once there is something to queue.\<close>

definition decorate_and_queue ::
    "'h webserver \<Rightarrow> ('re, 'u, 'h, 'w) externals \<Rightarrow> nat option \<Rightarrow> raw_response \<Rightarrow> ('re, 'u, 'h, 'w) dispatch
      \<Rightarrow> bool result \<times> ('re, 'u, 'h, 'w) dispatch" where
  "decorate_and_queue cfg ex resource raw d =
     (case response_of (d_env d) of
        None \<Rightarrow> (Inl (undefined_behaviour ''empty optional''), d)
      | Some r \<Rightarrow>
          (case decorate_mhd_response r d of
             (Inl x, d1) \<Rightarrow> (Inl x, d1)
           | (Inr u, d1) \<Rightarrow>
               (case queue_response_dispatching_kind cfg ex r raw d1 of
                  (Inl x, d2) \<Rightarrow> (Inl x, d2)
                | (Inr to_ret, d2) \<Rightarrow>
                    (Inr to_ret, emit [Mhd_Destroy_Response] (fire_response_sent_gated cfg ex resource d2)))))"

definition materialize_and_queue_response ::
    "'h webserver \<Rightarrow> ('re, 'u, 'h, 'w) externals \<Rightarrow> nat option \<Rightarrow> ('re, 'u, 'h, 'w) dispatch
      \<Rightarrow> bool result \<times> ('re, 'u, 'h, 'w) dispatch" where
  "materialize_and_queue_response cfg ex resource d =
     (case get_raw_response_with_fallback cfg ex d of
        (Some raw, d1) \<Rightarrow> decorate_and_queue cfg ex resource raw d1
      | (None, d1) \<Rightarrow>
          (case emplace_and_materialize ex
                  (call (internal_error_page cfg ex [] True)
                    (on_env (log_dispatch_error
                      (''materialize_and_queue_response: get_raw_response_with_fallback returned null; ''
                       @ ''forcing hardcoded empty-body 500'')) d1)) of
             (Inl x, d2) \<Rightarrow> (Inl x, d2)
           | (Inr None, d2) \<Rightarrow> (Inr False, d2)
           | (Inr (Some raw), d2) \<Rightarrow> decorate_and_queue cfg ex resource raw d2))"

section \<open>Resolving the route\<close>

definition store_captures :: "captures \<Rightarrow> ('re, 'u, 'h, 'w) denv \<Rightarrow> ('re, 'u, 'h, 'w) denv" where
  "store_captures caps e =
     on_reach (\<lambda>w. w\<lparr>rc_request := map_option (fold (\<lambda>(name, v). set_arg name v) caps) (rc_request w)\<rparr>) e"

definition resolve_resource_for_request ::
    "('re, 'u, 'h, 'w) externals \<Rightarrow> ('re, 'u, 'h, 'w) dispatch \<Rightarrow> nat option \<times> ('re, 'u, 'h, 'w) dispatch" where
  "resolve_resource_for_request ex d =
     (let e = d_env d;
          conn = d_conn d;
          need_path_template =
            (has_hooks_for route_resolved (env_bus e) \<or> has_hooks_for before_handler (env_bus e));
          (res, tbl) = lookup_v2 (ex_regex ex) (ex_container ex) (cc_method_enum conn) (cc_standardized_url conn)
                         (srv_routes (rc_server (env_world e)));
          e1 = on_reach (\<lambda>w. w\<lparr>rc_server := (rc_server w)\<lparr>srv_routes := tbl\<rparr>\<rparr>) e
      in if \<not> lr_found res then (None, d\<lparr>d_env := e1\<rparr>)
         else
           (case re_handler (lr_entry res) of
              None \<Rightarrow> (None, d\<lparr>d_env := e1\<rparr>)
            | Some rid \<Rightarrow>
                (Some rid,
                 d\<lparr>d_env := store_captures (lr_captures res) e1,
                   d_conn :=
                     if need_path_template
                     then conn\<lparr>cc_matched_path_template := cc_standardized_url conn,
                               cc_matched_is_prefix := re_is_prefix (lr_entry res)\<rparr>
                     else conn\<rparr>)))"

definition fire_route_resolved_gated ::
    "'h webserver \<Rightarrow> ('re, 'u, 'h, 'w) externals \<Rightarrow> nat option \<Rightarrow> ('re, 'u, 'h, 'w) dispatch
      \<Rightarrow> ('re, 'u, 'h, 'w) dispatch" where
  "fire_route_resolved_gated cfg ex hrm d =
     (if \<not> has_hooks_for route_resolved (env_bus (d_env d)) then d
      else
        (let desc =
           (case hrm of
              None \<Rightarrow> None
            | Some rid \<Rightarrow>
                Some \<lparr>rd_path_template = cc_matched_path_template (d_conn d),
                      rd_methods = methods_allowed (resource_at rid (d_env d)),
                      rd_is_prefix = cc_matched_is_prefix (d_conn d)\<rparr>)
         in on_env (fire_hooks_for_phase (run_fn cfg ex) route_resolved
              (Route_Resolved_Ctx (request_of (d_env d) \<noteq> None) desc hrm)) d))"

section \<open>Running the handler\<close>

definition run_callable ::
    "('re, 'u, 'h, 'w) externals \<Rightarrow> nat \<Rightarrow> http_method \<Rightarrow> ('re, 'u, 'h, 'w) denv
      \<Rightarrow> http_response result \<times> ('re, 'u, 'h, 'w) denv" where
  "run_callable ex rid m e =
     (case render_method Base_Render Empty_Slot m (resource_at rid e) () of
        Inl x \<Rightarrow> (Inl x, e)
      | Inr Base_Render \<Rightarrow> (Inr default_response, e)
      | Inr Empty_Slot \<Rightarrow> (text_page ''Internal Server Error: unregistered method slot invoked'' 500, e)
      | Inr (User_Handler h) \<Rightarrow> ex_handler ex h e)"

definition add_allow_header ::
    "nat \<Rightarrow> ('re, 'u, 'h, 'w) dispatch \<Rightarrow> unit result \<times> ('re, 'u, 'h, 'w) dispatch" where
  "add_allow_header rid d =
     (let (header_value, res') = get_allow_header (resource_at rid (d_env d));
          d1 = on_env (put_resource rid res') d
      in if header_value = [] then (Inr (), d1)
         else
           (case response_of (d_env d1) of
              None \<Rightarrow> (Inl (undefined_behaviour ''empty optional''), d1)
            | Some r \<Rightarrow>
                (case with_header ''Allow'' header_value r of
                   Inl x \<Rightarrow> (Inl x, d1)
                 | Inr r' \<Rightarrow> (Inr (), put_response r' d1))))"

text \<open>The body of the \<^verbatim>\<open>try\<close> block of \<^verbatim>\<open>dispatch_resource_handler\<close>.\<close>

definition dispatch_body ::
    "'h webserver \<Rightarrow> ('re, 'u, 'h, 'w) externals \<Rightarrow> nat \<Rightarrow> ('re, 'u, 'h, 'w) dispatch
      \<Rightarrow> unit result \<times> ('re, 'u, 'h, 'w) dispatch" where
  "dispatch_body cfg ex rid d =
     (let d1 = (if cc_pp (d_conn d) then emit [Mhd_Destroy_Post_Processor] (on_conn (\<lambda>c. c\<lparr>cc_pp := False\<rparr>) d) else d)
      in if is_allowed (resource_at rid (d_env d1)) (cc_method_enum (d_conn d1)) then
           (case cc_callback (d_conn d1) of
              None \<Rightarrow> (Inl (undefined_behaviour ''null member pointer''), d1)
            | Some m \<Rightarrow>
                (case call (run_callable ex rid m) (emit [Handler_Called rid m] d1) of
                   (Inl x, d2) \<Rightarrow> (Inl x, d2)
                 | (Inr r, d2) \<Rightarrow>
                     (let d3 = emplace_response r d2 in
                      if status_code r = - 1
                      then emplace_page (call (run_internal_error_handler_safely cfg ex ''handler returned null response'') d3)
                      else (Inr (), d3))))
         else
           (case emplace_page (call (method_not_allowed_page cfg ex) d1) of
              (Inl x, d2) \<Rightarrow> (Inl x, d2)
            | (Inr u, d2) \<Rightarrow> add_allow_header rid d2))"

text \<open>The weak pointer is locked while the caller still holds the resource, so it finds it.\<close>

definition handle_dispatch_exception ::
    "'h webserver \<Rightarrow> ('re, 'u, 'h, 'w) externals \<Rightarrow> exn \<Rightarrow> string \<Rightarrow> ('re, 'u, 'h, 'w) dispatch
      \<Rightarrow> unit result \<times> ('re, 'u, 'h, 'w) dispatch" where
  "handle_dispatch_exception cfg ex x message d =
     (let e = d_env d;
          run = run_fn cfg ex;
          rtable = resource_table (cc_resource_weak (d_conn d)) e;
          per_route = route_gate rtable handler_exception e;
          server_chain =
            (has_hooks_for handler_exception (env_bus e) \<or> handler_exception_alias (env_bus e) \<noteq> None);
          ctx = Handler_Exception_Ctx (request_of e \<noteq> None) x message
      in if server_chain \<or> per_route then
           (case (if server_chain then fire_handler_exception run ctx e else (None, e)) of
              (Some sc, e1) \<Rightarrow> (Inr (), emplace_response sc (d\<lparr>d_env := e1\<rparr>))
            | (None, e1) \<Rightarrow>
                (case (if per_route then route_chain (const_ctx run) handler_exception rtable ctx e1 else (None, ctx, e1)) of
                   (Some sc, c2, e2) \<Rightarrow> (Inr (), emplace_response sc (d\<lparr>d_env := e2\<rparr>))
                 | (None, c2, e2) \<Rightarrow> emplace_page (call (internal_error_page cfg ex [] True) (d\<lparr>d_env := e2\<rparr>))))
         else emplace_page (call (run_internal_error_handler_safely cfg ex message) d))"

definition dispatch_resource_handler ::
    "'h webserver \<Rightarrow> ('re, 'u, 'h, 'w) externals \<Rightarrow> nat \<Rightarrow> ('re, 'u, 'h, 'w) dispatch
      \<Rightarrow> unit result \<times> ('re, 'u, 'h, 'w) dispatch" where
  "dispatch_resource_handler cfg ex rid d =
     (case dispatch_body cfg ex rid d of
        (Inr u, d1) \<Rightarrow> (Inr (), d1)
      | (Inl x, d1) \<Rightarrow>
          (case what_of x of
             Some w \<Rightarrow>
               handle_dispatch_exception cfg ex x w
                 (on_env (log_dispatch_error (''dispatch: handler threw std::exception: '' @ w)) d1)
           | None \<Rightarrow>
               handle_dispatch_exception cfg ex x ''unknown exception''
                 (on_env (log_dispatch_error ''dispatch: handler threw unknown exception'') d1)))"

section \<open>finalize_answer\<close>

definition stamp_resource :: "nat option \<Rightarrow> ('re, 'u, 'h, 'w) dispatch \<Rightarrow> ('re, 'u, 'h, 'w) dispatch" where
  "stamp_resource hrm d =
     (case hrm of
        None \<Rightarrow> d
      | Some rid \<Rightarrow>
          (let has_table = (hook_table (resource_at rid (d_env d)) \<noteq> None);
               d1 = on_conn (\<lambda>c. c\<lparr>cc_route_has_hook_table := has_table\<rparr>) d
           in if has_table \<or> has_hooks_for request_completed (env_bus (d_env d))
              then on_conn (\<lambda>c. c\<lparr>cc_resource_weak := Some rid\<rparr>) d1 else d1))"

definition finish_answer ::
    "'h webserver \<Rightarrow> ('re, 'u, 'h, 'w) externals \<Rightarrow> nat option
      \<Rightarrow> unit result \<times> ('re, 'u, 'h, 'w) dispatch \<Rightarrow> bool result \<times> ('re, 'u, 'h, 'w) dispatch" where
  "finish_answer cfg ex hrm p =
     (case p of
        (Inl x, d) \<Rightarrow> (Inl x, d)
      | (Inr u, d) \<Rightarrow> materialize_and_queue_response cfg ex hrm (fire_after_handler_gated cfg ex hrm d))"

definition route_answer ::
    "'h webserver \<Rightarrow> ('re, 'u, 'h, 'w) externals \<Rightarrow> ('re, 'u, 'h, 'w) dispatch
      \<Rightarrow> bool result \<times> ('re, 'u, 'h, 'w) dispatch" where
  "route_answer cfg ex d =
     (let (hrm, d1) = resolve_resource_for_request ex d;
          d2 = fire_route_resolved_gated cfg ex hrm (stamp_resource hrm d1)
      in case hrm of
           Some rid \<Rightarrow>
             (case fire_before_handler_gated cfg ex rid d2 of
                (True, d3) \<Rightarrow> materialize_and_queue_response cfg ex hrm d3
              | (False, d3) \<Rightarrow> finish_answer cfg ex hrm (dispatch_resource_handler cfg ex rid d3))
         | None \<Rightarrow>
             finish_answer cfg ex None
               (if response_of (d_env d2) = None then emplace_page (call (not_found_page cfg ex) d2) else (Inr (), d2)))"

definition finalize_answer ::
    "'h webserver \<Rightarrow> ('re, 'u, 'h, 'w) externals \<Rightarrow> ws_mhd \<Rightarrow> 'k ws_registry \<Rightarrow> mhd_connection
      \<Rightarrow> ('re, 'u, 'h, 'w) dispatch \<Rightarrow> bool result \<times> ('re, 'u, 'h, 'w) dispatch" where
  "finalize_answer cfg ex wm reg c d =
     (case try_handle wm reg c (cc_standardized_url (d_conn d)) of
        (Some ws_result, evs) \<Rightarrow> (Inr ws_result, emit evs d)
      | (None, evs) \<Rightarrow>
          (let d' = emit evs d in
           if cc_skip_handler (d_conn d') then materialize_and_queue_response cfg ex None d'
           else route_answer cfg ex d'))"

section \<open>Pages that cannot fail\<close>

lemma empty_500: "\<exists>r. bind_result (response_empty 0) (with_status 500) = Inr r"
  by (simp add: response_empty_def emplace_body_def default_response_def with_status_def)

lemma forced_page: "\<exists>r. internal_error_page cfg ex msg True e = (Inr r, e)"
  using empty_500 by (auto simp: internal_error_page_def)

lemma run_safely: "\<exists>r e'. run_internal_error_handler_safely cfg ex msg e = (Inr r, e')"
proof -
  obtain p e' where p: "internal_error_page cfg ex msg False e = (p, e')" by fastforce
  show ?thesis
  proof (cases p)
    case (Inl x)
    define f where "f = log_dispatch_error ''internal_error_handler threw; sending hardcoded empty-body 500'' e'"
    obtain r where "internal_error_page cfg ex [] True f = (Inr r, f)" using forced_page by blast
    with Inl p show ?thesis by (simp add: run_internal_error_handler_safely_def f_def)
  qed (simp add: run_internal_error_handler_safely_def p)
qed

lemma safe_page: "\<exists>d'. emplace_page (call (run_internal_error_handler_safely cfg ex msg) d) = (Inr (), d')"
  using run_safely [of cfg ex msg "d_env d"] by (auto simp: emplace_page_def call_def Let_def)

lemma forced_safe_page: "\<exists>d'. emplace_page (call (internal_error_page cfg ex msg True) d) = (Inr (), d')"
  using forced_page [of cfg ex msg "d_env d"] by (auto simp: emplace_page_def call_def Let_def)

lemma handle_dispatch_exception_returns: "fst (handle_dispatch_exception cfg ex x msg d) = Inr ()"
  using safe_page [of cfg ex msg d] forced_safe_page [of cfg ex "[]"]
  by (auto simp: handle_dispatch_exception_def Let_def split: prod.splits option.splits) (metis fst_conv)+

lemma dispatch_resource_handler_returns: "fst (dispatch_resource_handler cfg ex rid d) = Inr ()"
  by (auto simp: dispatch_resource_handler_def handle_dispatch_exception_returns split: prod.splits sum.splits option.splits)

section \<open>What each step adds to the trace\<close>

definition is_queue :: "event \<Rightarrow> bool" where
  "is_queue ev =
     (case ev of Mhd_Queue st raw \<Rightarrow> True | Mhd_Queue_Auth rlm opq dmn sta q alg uh utf raw \<Rightarrow> True
      | Mhd_Queue_Upgrade url \<Rightarrow> True | _ \<Rightarrow> False)"

definition is_call :: "event \<Rightarrow> bool" where
  "is_call ev = (case ev of Handler_Called rid m \<Rightarrow> True | _ \<Rightarrow> False)"

text \<open>The numbers of responses queued and of handlers called between two states.\<close>

definition grows :: "nat \<Rightarrow> nat \<Rightarrow> ('re, 'u, 'h, 'w) dispatch \<Rightarrow> ('re, 'u, 'h, 'w) dispatch \<Rightarrow> bool" where
  "grows q k d d' \<longleftrightarrow>
     (\<exists>evs. d_trace d' = d_trace d @ evs \<and> length (filter is_queue evs) = q \<and> length (filter is_call evs) = k)"

lemma grows_refl [simp]: "grows 0 0 d d"
  by (simp add: grows_def)

lemma grows_trans: "grows q k d d' \<Longrightarrow> grows q' k' d' d'' \<Longrightarrow> grows (q + q') (k + k') d d''"
  by (force simp: grows_def)

lemma grows_quiet_left: "grows 0 0 d d' \<Longrightarrow> grows q k d' d'' \<Longrightarrow> grows q k d d''"
  using grows_trans by fastforce

lemma grows_quiet_right: "grows q k d d' \<Longrightarrow> grows 0 0 d' d'' \<Longrightarrow> grows q k d d''"
  using grows_trans by fastforce

lemma grows_same_trace: "d_trace d' = d_trace d \<Longrightarrow> grows 0 0 d d'"
  by (simp add: grows_def)

lemma filter_descriptors [simp]:
  "filter is_queue (map Descriptor evs) = []" "filter is_call (map Descriptor evs) = []"
  by (induction evs) (auto simp: is_queue_def is_call_def)

lemma grows_emit: "length (filter is_queue evs) = q \<Longrightarrow> length (filter is_call evs) = k \<Longrightarrow> grows q k d (emit evs d)"
  by (simp add: grows_def emit_def)

lemma grows_emplace: "grows 0 0 d (emplace_response r d)"
proof -
  obtain evs where "d_trace (emplace_response r d) = d_trace d @ map Descriptor evs"
    using emplace_response_fields(2) by blast
  then show ?thesis by (auto simp: grows_def)
qed

lemma grows_env [simp]: "grows q k d (d'\<lparr>d_env := e\<rparr>) = grows q k d d'" "grows q k (d\<lparr>d_env := e\<rparr>) d' = grows q k d d'"
  by (simp_all add: grows_def)

lemma grows_on [simp]:
  "grows q k d (on_env f d') = grows q k d d'" "grows q k (on_env f d) d' = grows q k d d'"
  "grows q k d (on_conn g d') = grows q k d d'" "grows q k (on_conn g d) d' = grows q k d d'"
  "grows q k d (put_response r d') = grows q k d d'"
  by (simp_all add: grows_def on_env_def on_conn_def put_response_def)

lemma grows_call: "call f d = (a, d') \<Longrightarrow> grows 0 0 d d'"
  by (auto simp: call_def Let_def split: prod.splits intro: grows_same_trace)

lemma grows_emplace_page: "emplace_page (call f d) = (a, d') \<Longrightarrow> grows 0 0 d d'"
  by (auto simp: emplace_page_def split: prod.splits sum.splits dest!: grows_call intro: grows_quiet_right grows_emplace)

lemma grows_materialize: "materialize_response ex d = (a, d') \<Longrightarrow> grows 0 0 d d'"
  by (auto simp: materialize_response_def Let_def split: option.splits prod.splits
      intro!: grows_quiet_right [OF _ grows_emit])

lemma grows_emplace_and_materialize: "emplace_and_materialize ex (call f d) = (a, d') \<Longrightarrow> grows 0 0 d d'"
  by (auto simp: emplace_and_materialize_def split: prod.splits sum.splits
      dest: grows_emplace_page grows_materialize intro: grows_quiet_right)

lemma grows_or_null: "or_null (emplace_and_materialize ex (call f d)) = (a, d') \<Longrightarrow> grows 0 0 d d'"
  by (auto simp: or_null_def split: prod.splits sum.splits dest: grows_emplace_and_materialize)

lemma grows_materialize_threw: "materialize_threw cfg ex x d = (a, d') \<Longrightarrow> grows 0 0 d d'"
  by (auto simp: materialize_threw_def split: exn.splits option.splits dest!: grows_or_null)

lemma grows_get_raw: "get_raw_response_with_fallback cfg ex d = (a, d') \<Longrightarrow> grows 0 0 d d'"
  by (auto simp: get_raw_response_with_fallback_def split: prod.splits sum.splits option.splits
      dest!: grows_materialize grows_emplace_and_materialize grows_materialize_threw intro: grows_quiet_right)

lemma grows_add_cookies: "add_cookies cs d = (a, d') \<Longrightarrow> grows 0 0 d d'"
proof (induction cs arbitrary: d)
  case (Cons c cs)
  show ?case
  proof (cases "to_set_cookie_header c")
    case (Inr l)
    have "grows 0 0 d (emit [Mhd_Add_Header ''Set-Cookie'' (c_str l)] d)"
      by (rule grows_emit) (simp_all add: is_queue_def is_call_def)
    with Cons Inr show ?thesis by (auto intro: grows_quiet_left)
  qed (use Cons.prems in simp)
qed simp

lemma grows_decorate: "decorate_mhd_response r d = (a, d') \<Longrightarrow> grows 0 0 d d'"
proof -
  define evs where "evs = map (\<lambda>(k, v). Mhd_Add_Header (c_str k) (c_str v)) (resp_headers r) @
    map (\<lambda>(k, v). Mhd_Add_Footer (c_str k) (c_str v)) (resp_footers r)"
  have "filter is_queue evs = []" "filter is_call evs = []"
    by (auto simp: evs_def filter_empty_conv is_queue_def is_call_def)
  then have "grows 0 0 d (emit evs d)" by (simp add: grows_emit)
  then show "decorate_mhd_response r d = (a, d') \<Longrightarrow> grows 0 0 d d'"
    unfolding decorate_mhd_response_def evs_def [symmetric] by (blast intro: grows_quiet_left dest: grows_add_cookies)
qed

lemma grows_queue: "queue_response_dispatching_kind cfg ex r raw d = (Inr b, d') \<Longrightarrow> grows 1 0 d d'"
  by (auto simp: queue_response_dispatching_kind_def is_queue_def is_call_def
      split: if_splits option.splits response_body.splits intro!: grows_emit)

lemma grows_response_sent: "grows 0 0 d (fire_response_sent_gated cfg ex res d)"
  by (rule grows_same_trace) (simp add: fire_response_sent_fields)

lemma grows_decorate_and_queue: "decorate_and_queue cfg ex res raw d = (Inr b, d') \<Longrightarrow> grows 1 0 d d'"
proof -
  assume run: "decorate_and_queue cfg ex res raw d = (Inr b, d')"
  obtain r where r: "response_of (d_env d) = Some r"
    using run by (auto simp: decorate_and_queue_def split: option.splits)
  obtain d1 where d1: "decorate_mhd_response r d = (Inr (), d1)"
    using run r by (cases "decorate_mhd_response r d") (auto simp: decorate_and_queue_def split: sum.splits)
  obtain d2 where d2: "queue_response_dispatching_kind cfg ex r raw d1 = (Inr b, d2)"
      "d' = emit [Mhd_Destroy_Response] (fire_response_sent_gated cfg ex res d2)"
    using run r d1 by (auto simp: decorate_and_queue_def split: sum.splits prod.splits)
  have "grows 0 0 d2 d'"
    unfolding d2(2) by (rule grows_quiet_left [OF grows_response_sent grows_emit]) (simp_all add: is_queue_def is_call_def)
  then show ?thesis
    by (rule grows_quiet_right [OF grows_quiet_left [OF grows_decorate [OF d1] grows_queue [OF d2(1)]]])
qed

text \<open>An empty page can be made whenever libmicrohttpd makes an empty response.\<close>

lemma forced_page_materializes:
  assumes "emplace_and_materialize ex (call (internal_error_page cfg ex msg True) d) = (Inr None, d')"
  shows "\<not> ex_creates ex (Raw_Empty 0)"
proof -
  define r where "r = default_response\<lparr>status_code := 500, resp_body := Some (Empty_Body 0), body_inline := True, resp_kind := kind_empty\<rparr>"
  have page: "internal_error_page cfg ex msg True e = (Inr r, e)" for e :: "('a, 'b, 'c, 'd) denv"
    by (simp add: internal_error_page_def response_empty_def emplace_body_def default_response_def with_status_def r_def)
  have "\<exists>r'. response_of (d_env (emplace_response r d)) = Some r' \<and> resp_body r' = Some (Empty_Body 0)"
    by (simp add: emplace_response_def emit_def on_env_def on_reach_def response_move_construct_def adopt_body_eq
        take_members_def leave_members_def r_def default_response_def)
  with assms show ?thesis
    by (auto simp: emplace_and_materialize_def emplace_page_def call_def page materialize_response_def body_materialize_def
        create_response_def split: option.splits if_splits)
qed

lemma grows_materialize_and_queue:
  assumes "materialize_and_queue_response cfg ex res d = (Inr b, d')"
  shows "grows 1 0 d d' \<or> (\<not> b \<and> grows 0 0 d d' \<and> \<not> ex_creates ex (Raw_Empty 0))"
proof -
  obtain raw d1 where raw: "get_raw_response_with_fallback cfg ex d = (raw, d1)" by fastforce
  note g1 = grows_get_raw [OF raw]
  show ?thesis
  proof (cases raw)
    case (Some r)
    then show ?thesis
      using assms raw grows_quiet_left [OF g1 grows_decorate_and_queue] by (simp add: materialize_and_queue_response_def)
  next
    case None
    let ?d = "on_env (log_dispatch_error (''materialize_and_queue_response: get_raw_response_with_fallback returned null; ''
      @ ''forcing hardcoded empty-body 500'')) d1"
    obtain p d2 where p: "emplace_and_materialize ex (call (internal_error_page cfg ex [] True) ?d) = (p, d2)" by fastforce
    have g2: "grows 0 0 d1 d2" using grows_emplace_and_materialize [OF p] by simp
    show ?thesis
    proof (cases p)
      case (Inl x)
      then show ?thesis using assms raw None p by (simp add: materialize_and_queue_response_def)
    next
      case (Inr q)
      show ?thesis
      proof (cases q)
        case (Some r)
        then have "decorate_and_queue cfg ex res r d2 = (Inr b, d')"
          using assms raw None p Inr by (simp add: materialize_and_queue_response_def)
        from grows_quiet_left [OF grows_quiet_left [OF g1 g2] grows_decorate_and_queue [OF this]] show ?thesis ..
      next
        case n: None
        then have "\<not> b" "d' = d2" using assms raw None p Inr by (simp_all add: materialize_and_queue_response_def)
        with forced_page_materializes p Inr n grows_quiet_left [OF g1 g2] show ?thesis by blast
      qed
    qed
  qed
qed

lemma grows_before_handler: "fire_before_handler_gated cfg ex rid d = (a, d') \<Longrightarrow> grows 0 0 d d'"
  by (auto simp: fire_before_handler_gated_def Let_def split: if_splits prod.splits option.splits
      intro!: grows_quiet_left [OF _ grows_emplace])

lemma grows_after_handler: "grows 0 0 d (fire_after_handler_gated cfg ex res d)"
  by (auto simp: fire_after_handler_gated_def Let_def split: prod.splits option.splits
      intro!: grows_quiet_left [OF _ grows_emplace])

lemma grows_handle_exception: "handle_dispatch_exception cfg ex x msg d = (a, d') \<Longrightarrow> grows 0 0 d d'"
  by (auto simp: handle_dispatch_exception_def Let_def split: if_splits prod.splits option.splits
      dest!: grows_emplace_page intro!: grows_quiet_left [OF _ grows_emplace])

lemma grows_allow_header: "add_allow_header rid d = (a, d') \<Longrightarrow> grows 0 0 d d'"
  by (auto simp: add_allow_header_def Let_def split: if_splits prod.splits option.splits sum.splits)

lemma grows_dispatch_body:
  assumes "dispatch_body cfg ex rid d = (a, d')"
  shows "\<exists>k \<le> 1. grows 0 k d d'"
proof -
  define d1 where "d1 = (if cc_pp (d_conn d) then emit [Mhd_Destroy_Post_Processor] (on_conn (\<lambda>c. c\<lparr>cc_pp := False\<rparr>) d) else d)"
  have g1: "grows 0 0 d d1"
    by (simp add: d1_def) (auto simp: grows_def emit_def on_conn_def is_queue_def is_call_def)
  note run = assms [unfolded dispatch_body_def, folded d1_def]
  show ?thesis
  proof (cases "is_allowed (resource_at rid (d_env d1)) (cc_method_enum (d_conn d1))")
    case False
    then have "grows 0 0 d1 d'"
      using run by (auto simp: Let_def split: prod.splits sum.splits
          dest!: grows_emplace_page grows_allow_header intro: grows_quiet_left)
    with g1 show ?thesis using grows_quiet_left by blast
  next
    case allowed: True
    show ?thesis
    proof (cases "cc_callback (d_conn d1)")
      case None
      with allowed run g1 show ?thesis by (auto simp: Let_def)
    next
      case (Some m)
      obtain p d2 where p: "call (run_callable ex rid m) (emit [Handler_Called rid m] d1) = (p, d2)" by fastforce
      have "grows 0 1 d1 (emit [Handler_Called rid m] d1)"
        by (rule grows_emit) (simp_all add: is_queue_def is_call_def)
      then have g2: "grows 0 1 d1 d2" using grows_call [OF p] by (rule grows_quiet_right)
      have "grows 0 0 d2 d'"
        using run allowed Some p
        by (auto simp: Let_def split: sum.splits if_splits dest!: grows_emplace_page
            intro: grows_emplace grows_quiet_left [OF grows_emplace])
      with g1 g2 have "grows 0 1 d d'" using grows_quiet_left grows_quiet_right by blast
      then show ?thesis by blast
    qed
  qed
qed

lemma grows_dispatch_handler:
  assumes "dispatch_resource_handler cfg ex rid d = (a, d')"
  shows "\<exists>k \<le> 1. grows 0 k d d'"
proof -
  obtain p d1 where p: "dispatch_body cfg ex rid d = (p, d1)" by fastforce
  obtain k where k: "k \<le> 1" "grows 0 k d d1" using grows_dispatch_body [OF p] by blast
  have "grows 0 0 d1 d'"
    using assms p
    by (auto simp: dispatch_resource_handler_def split: sum.splits option.splits dest!: grows_handle_exception)
  then show ?thesis using k grows_quiet_right by blast
qed

lemma resolve_trace: "d_trace (snd (resolve_resource_for_request ex d)) = d_trace d"
  by (simp add: resolve_resource_for_request_def Let_def split: prod.splits option.splits)

lemma route_resolved_trace: "d_trace (fire_route_resolved_gated cfg ex hrm (stamp_resource hrm d)) = d_trace d"
  by (simp add: fire_route_resolved_gated_def stamp_resource_def Let_def on_env_def on_conn_def split: option.splits)

lemma grows_finish:
  assumes "finish_answer cfg ex hrm (Inr (), d) = (Inr b, d')"
  shows "grows 1 0 d d' \<or> (\<not> b \<and> grows 0 0 d d' \<and> \<not> ex_creates ex (Raw_Empty 0))"
proof -
  have "materialize_and_queue_response cfg ex hrm (fire_after_handler_gated cfg ex hrm d) = (Inr b, d')"
    using assms by (simp add: finish_answer_def)
  from grows_materialize_and_queue [OF this] show ?thesis
    using grows_quiet_left [OF grows_after_handler [of d cfg ex hrm]] by blast
qed

definition answered :: "('re, 'u, 'h, 'w) externals \<Rightarrow> bool \<Rightarrow> ('re, 'u, 'h, 'w) dispatch \<Rightarrow> ('re, 'u, 'h, 'w) dispatch \<Rightarrow> bool" where
  "answered ex b d d' \<longleftrightarrow>
     (\<exists>k \<le> 1. grows 1 k d d' \<or> (\<not> b \<and> grows 0 k d d' \<and> \<not> ex_creates ex (Raw_Empty 0)))"

lemma answered_left: "grows 0 0 d d1 \<Longrightarrow> answered ex b d1 d' \<Longrightarrow> answered ex b d d'"
  unfolding answered_def using grows_quiet_left by blast

lemma answered_materialize: "materialize_and_queue_response cfg ex res d = (Inr b, d') \<Longrightarrow> answered ex b d d'"
  using grows_materialize_and_queue unfolding answered_def by blast

lemma answered_finish:
  assumes "finish_answer cfg ex hrm p = (Inr b, d')" "p = (Inr (), d1)" "k \<le> 1" "grows 0 k d d1"
  shows "answered ex b d d'"
proof -
  have "grows 1 0 d1 d' \<or> (\<not> b \<and> grows 0 0 d1 d' \<and> \<not> ex_creates ex (Raw_Empty 0))"
    using grows_finish assms(1,2) by blast
  then show ?thesis
    using grows_trans [OF assms(4)] assms(3) unfolding answered_def by fastforce
qed

lemma answered_route:
  assumes "route_answer cfg ex d = (Inr b, d')"
  shows "answered ex b d d'"
proof -
  obtain hrm d1 where r: "resolve_resource_for_request ex d = (hrm, d1)" by fastforce
  define d2 where "d2 = fire_route_resolved_gated cfg ex hrm (stamp_resource hrm d1)"
  have g2: "grows 0 0 d d2"
    by (rule grows_same_trace) (use resolve_trace [of ex d] r in \<open>simp add: d2_def route_resolved_trace\<close>)
  show ?thesis
  proof (cases hrm)
    case None
    define p where "p = (if response_of (d_env d2) = None then emplace_page (call (not_found_page cfg ex) d2) else (Inr (), d2))"
    have run: "finish_answer cfg ex None p = (Inr b, d')"
      using assms r None unfolding route_answer_def p_def d2_def by (simp add: Let_def cong: if_cong split del: if_split)
    obtain d3 where d3: "p = (Inr (), d3)"
      using run by (cases p) (auto simp: finish_answer_def split: sum.splits)
    have "grows 0 0 d2 d3"
      using d3 by (auto simp: p_def split: if_splits dest: grows_emplace_page)
    then have "answered ex b d2 d'" using answered_finish [OF run d3, of 0] by simp
    then show ?thesis by (rule answered_left [OF g2])
  next
    case (Some rid)
    obtain sc d3 where sc: "fire_before_handler_gated cfg ex rid d2 = (sc, d3)" by fastforce
    have g3: "grows 0 0 d d3" using grows_quiet_right [OF g2 grows_before_handler [OF sc]] .
    show ?thesis
    proof (cases sc)
      case True
      then have "materialize_and_queue_response cfg ex hrm d3 = (Inr b, d')"
        using assms r Some sc by (simp add: route_answer_def d2_def)
      then show ?thesis using answered_left [OF g3] answered_materialize by blast
    next
      case False
      then have run: "finish_answer cfg ex hrm (dispatch_resource_handler cfg ex rid d3) = (Inr b, d')"
        using assms r Some sc by (simp add: route_answer_def d2_def)
      obtain d4 where d4: "dispatch_resource_handler cfg ex rid d3 = (Inr (), d4)"
        using dispatch_resource_handler_returns [of cfg ex rid d3] by (cases "dispatch_resource_handler cfg ex rid d3") auto
      obtain k where "k \<le> 1" "grows 0 k d3 d4" using grows_dispatch_handler [OF d4] by blast
      then show ?thesis using answered_left [OF g3] answered_finish [OF run d4] by blast
    qed
  qed
qed

lemma try_handle_events:
  "try_handle wm reg c url = (Some b, evs) \<Longrightarrow> length (filter is_queue evs) = 1 \<and> filter is_call evs = []"
  "try_handle wm reg c url = (None, evs) \<Longrightarrow> filter is_queue evs = [] \<and> filter is_call evs = []"
  by (auto simp: try_handle_def complete_websocket_upgrade_def is_queue_def is_call_def
      split: option.splits if_splits)

lemma queue_calls_nothing: "queue_response_dispatching_kind cfg ex r raw d = (a, d') \<Longrightarrow> \<exists>q. grows q 0 d d'"
proof (cases a)
  case (Inl x)
  assume "queue_response_dispatching_kind cfg ex r raw d = (a, d')"
  then have "d' = d"
    using Inl by (auto simp: queue_response_dispatching_kind_def split: if_splits option.splits response_body.splits)
  then show ?thesis using grows_refl by blast
next
  case (Inr b)
  then show "queue_response_dispatching_kind cfg ex r raw d = (a, d') \<Longrightarrow> ?thesis" using grows_queue by blast
qed

lemma decorate_queue_calls_nothing: "decorate_and_queue cfg ex res raw d = (a, d') \<Longrightarrow> \<exists>q. grows q 0 d d'"
proof (cases a)
  case (Inr b)
  then show "decorate_and_queue cfg ex res raw d = (a, d') \<Longrightarrow> ?thesis" using grows_decorate_and_queue by blast
next
  case (Inl x)
  assume run: "decorate_and_queue cfg ex res raw d = (a, d')"
  show ?thesis
  proof (cases "response_of (d_env d)")
    case None
    then show ?thesis using run by (auto simp: decorate_and_queue_def intro: grows_refl)
  next
    case (Some r)
    obtain p d1 where p: "decorate_mhd_response r d = (p, d1)" by fastforce
    obtain u d2 where u: "queue_response_dispatching_kind cfg ex r raw d1 = (u, d2)" by fastforce
    obtain q where q: "grows q 0 d1 d2" using queue_calls_nothing [OF u] by blast
    have "d' = d1 \<or> d' = d2"
      using run Some p u Inl by (auto simp: decorate_and_queue_def split: sum.splits)
    then show ?thesis using grows_decorate [OF p] grows_quiet_left [OF grows_decorate [OF p] q] by blast
  qed
qed

lemma materialize_calls_nothing:
  assumes "materialize_and_queue_response cfg ex res d = (a, d')"
  shows "\<exists>q. grows q 0 d d'"
proof -
  obtain raw d1 where raw: "get_raw_response_with_fallback cfg ex d = (raw, d1)" by fastforce
  note g1 = grows_get_raw [OF raw]
  show ?thesis
  proof (cases raw)
    case (Some r)
    then have "decorate_and_queue cfg ex res r d1 = (a, d')"
      using assms raw by (simp add: materialize_and_queue_response_def)
    then obtain q where "grows q 0 d1 d'" using decorate_queue_calls_nothing by blast
    then show ?thesis using grows_quiet_left [OF g1] by blast
  next
    case None
    let ?d = "on_env (log_dispatch_error (''materialize_and_queue_response: get_raw_response_with_fallback returned null; ''
      @ ''forcing hardcoded empty-body 500'')) d1"
    obtain p d2 where p: "emplace_and_materialize ex (call (internal_error_page cfg ex [] True) ?d) = (p, d2)" by fastforce
    have g2: "grows 0 0 d d2" using grows_quiet_left [OF g1] grows_emplace_and_materialize [OF p] by simp
    have "d' = d2 \<or> (\<exists>r. decorate_and_queue cfg ex res r d2 = (a, d'))"
      using assms raw None p by (auto simp: materialize_and_queue_response_def split: sum.splits option.splits)
    then show ?thesis using g2 decorate_queue_calls_nothing grows_quiet_left [OF g2] by metis
  qed
qed

section \<open>The authentication seat\<close>

text \<open>The callable of the configured \<^verbatim>\<open>auth_handler\<close> is the first of its phase, and the gate of the phase is open.\<close>

definition auth_first :: "('re, 'u, 'h, 'w) denv \<Rightarrow> bool" where
  "auth_first e \<longleftrightarrow>
     (\<exists>i hs. hooks (env_bus e) before_handler = (i, Auth_Alias) # hs) \<and> any_hooks (env_bus e) before_handler"

definition path_of :: "('re, 'u, 'h, 'w) denv \<Rightarrow> string option" where
  "path_of e = map_option req_path (request_of e)"

text \<open>Hooks of users neither unseat the callable, whose handle was detached, nor change the path of the request,
  whose setter is private.\<close>

definition hooks_polite :: "('re, 'u, 'h, 'w) externals \<Rightarrow> bool" where
  "hooks_polite ex \<longleftrightarrow>
     (\<forall>u c e. auth_first e \<longrightarrow>
        auth_first (snd (snd (ex_hook ex u c e))) \<and> path_of (snd (snd (ex_hook ex u c e))) = path_of e)"

text \<open>The environment the callback sees, after the route lookup and the observers of its result.\<close>

definition auth_env ::
    "'h webserver \<Rightarrow> ('re, 'u, 'h, 'w) externals \<Rightarrow> ('re, 'u, 'h, 'w) dispatch \<Rightarrow> ('re, 'u, 'h, 'w) denv" where
  "auth_env cfg ex d =
     (let (hrm, d1) = resolve_resource_for_request ex d
      in d_env (fire_route_resolved_gated cfg ex hrm (stamp_resource hrm d1)))"

text \<open>The path is on the skip list, or the callback let the request pass.\<close>

definition admitted ::
    "'h webserver \<Rightarrow> ('re, 'u, 'h, 'w) externals \<Rightarrow> string \<Rightarrow> ('re, 'u, 'h, 'w) denv \<Rightarrow> bool" where
  "admitted cfg ex path e \<longleftrightarrow>
     should_skip_auth (auth_skip_paths_normalized cfg) path \<or>
     (case auth_handler cfg of None \<Rightarrow> False | Some h \<Rightarrow> fst (ex_auth ex h e) = Inr None)"

lemma log_frame [simp]:
  "env_bus (log_dispatch_error m e) = env_bus e" "env_world (log_dispatch_error m e) = env_world e"
  "env_tables (log_dispatch_error m e) = env_tables e"
  by (simp_all add: log_dispatch_error_def)

lemma auth_alias_answers:
  assumes "path_of e = Some path" "\<not> admitted cfg ex path e"
  shows "\<exists>r e'. auth_alias cfg ex True e = (Inr (respond_with r), e')"
proof -
  obtain q where q: "request_of e = Some q" "req_path q = path" using assms(1) by (auto simp: path_of_def)
  have noskip: "\<not> should_skip_auth (auth_skip_paths_normalized cfg) path" using assms(2) by (simp add: admitted_def)
  obtain r where r: "bind_result (response_empty 0) (with_status 500) = Inr r" using empty_500 by blast
  obtain a e' where a: "(case auth_handler cfg of Some h \<Rightarrow> ex_auth ex h e | None \<Rightarrow> (Inl bad_function_call, e)) = (a, e')"
    by fastforce
  have "a \<noteq> Inr None"
    using a assms by (auto simp: admitted_def split: option.splits)
  then show ?thesis
    using q noskip r a by (cases a) (auto simp: auth_alias_def split: option.splits)
qed

lemma auth_first_answers:
  assumes "auth_first e" "path_of e = Some path" "\<not> admitted cfg ex path e"
  shows "\<exists>r c' e'. fire_short_circuit_hooks_for_phase (run_fn cfg ex) before_handler
    (Before_Handler_Ctx True desc m res) e = (Some r, c', e')"
proof -
  obtain i hs where "hooks (env_bus e) before_handler = (i, Auth_Alias) # hs" using assms(1) by (auto simp: auth_first_def)
  moreover obtain r e' where "auth_alias cfg ex True e = (Inr (respond_with r), e')"
    using auth_alias_answers [OF assms(2,3)] by blast
  ultimately show ?thesis by (simp add: fire_short_circuit_hooks_for_phase_def run_fn_def)
qed

lemma before_handler_stops:
  assumes "auth_first (d_env d)" "path_of (d_env d) = Some path" "\<not> admitted cfg ex path (d_env d)"
  shows "fst (fire_before_handler_gated cfg ex rid d)"
proof -
  have req: "request_of (d_env d) \<noteq> None" using assms(2) by (auto simp: path_of_def)
  have "has_hooks_for before_handler (env_bus (d_env d))"
    using assms(1) by (simp add: auth_first_def has_hooks_for_def)
  with req auth_first_answers [OF assms, of "descriptor_of rid d" "cc_method_enum (d_conn d)" "Some rid"]
  show ?thesis by (auto simp: fire_before_handler_gated_def Let_def)
qed

lemma observe_loop_keeps:
  assumes "\<And>f e. P e \<Longrightarrow> P (snd (snd (run f c e)))" "\<And>m e. P e \<Longrightarrow> P (log_dispatch_error m e)" "P e"
  shows "P (observe_loop run line hs c e)"
  using assms(3)
proof (induction hs arbitrary: e)
  case (Cons h hs)
  obtain a c' e' where r: "run (snd h) c e = (a, c', e')" using prod_cases3 by blast
  have "P e'" using assms(1) [OF Cons.prems, of "snd h"] r by simp
  with r Cons.IH assms(2) show ?case by (cases a) auto
qed simp

lemma route_resolved_polite:
  assumes "hooks_polite ex" "auth_first e"
  shows "auth_first (fire_hooks_for_phase (run_fn cfg ex) route_resolved (Route_Resolved_Ctx a b c) e) \<and>
    path_of (fire_hooks_for_phase (run_fn cfg ex) route_resolved (Route_Resolved_Ctx a b c) e) = path_of e"
proof -
  let ?P = "\<lambda>e'. auth_first e' \<and> path_of e' = path_of e"
  let ?c = "Route_Resolved_Ctx a b c"
  have "?P (snd (snd (run_fn cfg ex f ?c e')))" if "?P e'" for f e'
    using assms(1) that by (cases f) (auto simp: run_fn_def hooks_polite_def)
  moreover have "?P (log_dispatch_error m e')" if "?P e'" for m e'
    using that by (simp add: auth_first_def path_of_def)
  ultimately have "?P (observe_loop (run_fn cfg ex) line hs ?c e)" for line hs
    using observe_loop_keeps [of ?P "run_fn cfg ex" ?c e line hs] assms(2) by blast
  then show ?thesis using assms(2) by (simp add: fire_hooks_for_phase_def Let_def)
qed

lemma set_arg_path: "req_path (set_arg k v r) = req_path r"
  by (simp add: set_arg_def on_impl_def)

lemma fold_set_arg_path: "req_path (fold (\<lambda>(k, v). set_arg k v) caps r) = req_path r"
  by (induction caps arbitrary: r) (auto simp: set_arg_path)

lemma resolve_polite:
  assumes "resolve_resource_for_request ex d = (hrm, d1)"
  shows "env_bus (d_env d1) = env_bus (d_env d)" "path_of (d_env d1) = path_of (d_env d)"
  using assms
  by (auto simp: resolve_resource_for_request_def Let_def on_reach_def store_captures_def path_of_def fold_set_arg_path
      option.map_comp comp_def split: prod.splits option.splits if_splits)

lemma stamp_env: "d_env (stamp_resource hrm d) = d_env d"
  by (simp add: stamp_resource_def on_conn_def Let_def split: option.splits)

lemma route_resolved_keeps:
  assumes "hooks_polite ex" "auth_first (d_env d)"
  shows "auth_first (d_env (fire_route_resolved_gated cfg ex hrm d))"
    "path_of (d_env (fire_route_resolved_gated cfg ex hrm d)) = path_of (d_env d)"
  using route_resolved_polite [OF assms] assms(2)
  by (simp_all add: fire_route_resolved_gated_def on_env_def Let_def)

lemma finish_calls_nothing:
  assumes "finish_answer cfg ex hrm (a, d) = (res, d')"
  shows "\<exists>q. grows q 0 d d'"
proof (cases a)
  case (Inl x)
  then show ?thesis using assms by (auto simp: finish_answer_def intro: grows_refl)
next
  case (Inr u)
  then have "materialize_and_queue_response cfg ex hrm (fire_after_handler_gated cfg ex hrm d) = (res, d')"
    using assms by (simp add: finish_answer_def)
  then show ?thesis using materialize_calls_nothing grows_quiet_left [OF grows_after_handler] by metis
qed

lemma route_calls_nothing:
  assumes "hooks_polite ex" "auth_first (d_env d)" "path_of (d_env d) = Some path"
    "\<not> admitted cfg ex path (auth_env cfg ex d)" "route_answer cfg ex d = (res, d')"
  shows "\<exists>q. grows q 0 d d'"
proof -
  obtain hrm d1 where r: "resolve_resource_for_request ex d = (hrm, d1)" by fastforce
  define d2 where "d2 = fire_route_resolved_gated cfg ex hrm (stamp_resource hrm d1)"
  have g2: "grows 0 0 d d2"
    by (rule grows_same_trace) (use resolve_trace [of ex d] r in \<open>simp add: d2_def route_resolved_trace\<close>)
  have first1: "auth_first (d_env (stamp_resource hrm d1))"
    using assms(2) resolve_polite [OF r] by (simp add: stamp_env auth_first_def)
  have first: "auth_first (d_env d2)" "path_of (d_env d2) = Some path"
    using route_resolved_keeps [OF assms(1) first1] resolve_polite [OF r] assms(3) by (simp_all add: d2_def stamp_env)
  have not_ok: "\<not> admitted cfg ex path (d_env d2)" using assms(4) r by (simp add: auth_env_def d2_def)
  show ?thesis
  proof (cases hrm)
    case None
    define p where "p = (if response_of (d_env d2) = None then emplace_page (call (not_found_page cfg ex) d2) else (Inr (), d2))"
    have run: "finish_answer cfg ex None p = (res, d')"
      using assms(5) r None unfolding route_answer_def p_def d2_def by (simp add: Let_def cong: if_cong split del: if_split)
    obtain a d3 where d3: "p = (a, d3)" by fastforce
    have "grows 0 0 d2 d3" using d3 by (auto simp: p_def split: if_splits dest: grows_emplace_page)
    then have g3: "grows 0 0 d d3" using grows_quiet_right [OF g2] by blast
    obtain q where "grows q 0 d3 d'" using finish_calls_nothing run d3 by blast
    then show ?thesis using grows_quiet_left [OF g3] by blast
  next
    case (Some rid)
    obtain d3 where sc: "fire_before_handler_gated cfg ex rid d2 = (True, d3)"
      using before_handler_stops [OF first not_ok, of rid] by (cases "fire_before_handler_gated cfg ex rid d2") auto
    have g3: "grows 0 0 d d3" using grows_quiet_right [OF g2 grows_before_handler [OF sc]] .
    have "materialize_and_queue_response cfg ex hrm d3 = (res, d')"
      using assms(5) r Some sc by (simp add: route_answer_def d2_def)
    then obtain q where "grows q 0 d3 d'" using materialize_calls_nothing by blast
    then show ?thesis using grows_quiet_left [OF g3] by blast
  qed
qed

lemma resolve_emit:
  "resolve_resource_for_request ex (emit evs d) =
     (let (hrm, d1) = resolve_resource_for_request ex d in (hrm, emit evs d1))"
  by (simp add: resolve_resource_for_request_def emit_def Let_def split: prod.splits option.splits)

lemma emit_fields [simp]: "d_env (emit evs d) = d_env d" "d_conn (emit evs d) = d_conn d"
  by (simp_all add: emit_def)

lemma stamp_emit: "stamp_resource hrm (emit evs d) = emit evs (stamp_resource hrm d)"
  by (cases hrm) (simp_all add: stamp_resource_def on_conn_def emit_def Let_def)

lemma route_resolved_emit:
  "fire_route_resolved_gated cfg ex hrm (emit evs d) = emit evs (fire_route_resolved_gated cfg ex hrm d)"
  by (simp add: fire_route_resolved_gated_def on_env_def emit_def Let_def cong: option.case_cong)

lemma auth_env_emit: "auth_env cfg ex (emit evs d) = auth_env cfg ex d"
proof -
  obtain hrm d1 where "resolve_resource_for_request ex d = (hrm, d1)" by fastforce
  then show ?thesis by (simp add: auth_env_def resolve_emit stamp_emit route_resolved_emit)
qed

lemma finalize_calls_nothing:
  assumes "hooks_polite ex" "auth_first (d_env d)" "path_of (d_env d) = Some path"
    "\<not> admitted cfg ex path (auth_env cfg ex d)" "finalize_answer cfg ex wm reg c d = (res, d')"
  shows "\<exists>q. grows q 0 d d'"
proof -
  obtain w evs where w: "try_handle wm reg c (cc_standardized_url (d_conn d)) = (w, evs)" by fastforce
  have quiet: "filter is_call evs = []" using try_handle_events w by (cases w) blast+
  show ?thesis
  proof (cases w)
    case (Some ws)
    then have "d' = emit evs d" using assms(5) w by (simp add: finalize_answer_def)
    then show ?thesis using grows_emit [of evs _ 0 d] quiet by auto
  next
    case None
    have "filter is_queue evs = []" using try_handle_events(2) w None by blast
    then have g: "grows 0 0 d (emit evs d)" using quiet by (intro grows_emit) simp_all
    have "\<exists>q. grows q 0 (emit evs d) d'"
    proof (cases "cc_skip_handler (d_conn d)")
      case True
      then have "materialize_and_queue_response cfg ex None (emit evs d) = (res, d')"
        using assms(5) w None by (simp add: finalize_answer_def)
      then show ?thesis by (rule materialize_calls_nothing)
    next
      case False
      then have "route_answer cfg ex (emit evs d) = (res, d')" using assms(5) w None by (simp add: finalize_answer_def)
      then show ?thesis using assms(1-4) by (intro route_calls_nothing) (simp_all add: auth_env_emit)
    qed
    then show ?thesis using grows_quiet_left [OF g] by blast
  qed
qed

section \<open>Seating the aliases\<close>

lemma add_detached_eq:
  assumes "p = signature_phase g"
  shows "add_detached g p f e = Inr (e\<lparr>env_bus := snd (bus_attach p f (env_bus e))\<rparr>)"
  using assms
  by (simp add: add_detached_def webserver_add_hook_def bus_add_def add_impl_attach handle_detach_def disarm_def
      handle_destroy_def bus_attach_simps)

lemma alias_setters_keep:
  "hooks (set_handler_exception_alias f b) = hooks b" "hooks (set_log_access_alias f b) = hooks b"
  "next_slot_id (set_handler_exception_alias f b) = next_slot_id b" "next_slot_id (set_log_access_alias f b) = next_slot_id b"
  by (simp_all add: set_handler_exception_alias_def set_log_access_alias_def)

lemma log_alias_inv: "bus_inv b \<Longrightarrow> bus_inv (set_log_access_alias f b)"
  by (simp add: bus_inv_def set_log_access_alias_def alias_still_wired_def) blast

lemma exception_alias_inv:
  assumes "bus_inv b"
  shows "bus_inv (set_handler_exception_alias f b)"
proof -
  have "entries_ok (next_slot_id b) (hooks b p)" "hooks b p \<noteq> [] \<Longrightarrow> any_hooks b p"
    "any_hooks b p \<Longrightarrow> hooks b p \<noteq> [] \<or> alias_still_wired p b" "hooks b phase_count = []" for p
    using assms by (simp_all add: bus_inv_def)
  then show ?thesis
    by (simp add: bus_inv_def set_handler_exception_alias_def alias_still_wired_def) blast
qed

lemma attach_again:
  assumes "bus_inv b" "hooks b before_handler = (i, f) # es" "unat (next_slot_id b) \<le> n" "p \<noteq> phase_count" "n < 100"
  shows "bus_inv (snd (bus_attach p g b))" "\<exists>es'. hooks (snd (bus_attach p g b)) before_handler = (i, f) # es'"
    "unat (next_slot_id (snd (bus_attach p g b))) \<le> Suc n"
proof -
  have room: "next_slot_id b \<noteq> - 1" using assms(3,5) by (auto simp: unsigned_minus_1_eq_mask mask_eq_exp_minus_1)
  show "bus_inv (snd (bus_attach p g b))" using bus.attach_inv [OF assms(1,4) room] .
  show "\<exists>es'. hooks (snd (bus_attach p g b)) before_handler = (i, f) # es'" using assms(2) by (simp add: bus.attach_entries)
  have "unat (next_slot_id b + 1) \<le> Suc (unat (next_slot_id b))" by (simp add: unat_word_ariths)
  then show "unat (next_slot_id (snd (bus_attach p g b))) \<le> Suc n" using assms(3) unfolding bus.attach_next by linarith
qed

definition seated :: "nat \<Rightarrow> ('re, 'u, 'h, 'w) denv \<Rightarrow> bool" where
  "seated n e \<longleftrightarrow> bus_inv (env_bus e) \<and> (\<exists>es. hooks (env_bus e) before_handler = (1, Auth_Alias) # es) \<and>
     unat (next_slot_id (env_bus e)) \<le> n"

lemma seated_add:
  assumes "seated n e" "p = signature_phase g" "p \<noteq> phase_count" "n < 100" "add_detached g p f e = Inr e'"
  shows "seated (Suc n) e'"
  using assms attach_again [of "env_bus e" 1 Auth_Alias _ n p f] by (auto simp: seated_def add_detached_eq)

lemma seated_mono: "seated n e \<Longrightarrow> n \<le> k \<Longrightarrow> seated k e"
  by (auto simp: seated_def)

lemma install_seats_auth:
  assumes "env_bus e = empty_bus" "auth_handler cfg \<noteq> None" "install_default_alias_hooks cfg e = Inr e'"
  shows "seated 4 e'"
proof -
  obtain e1 where e1: "install_auth_alias cfg e = Inr e1"
    using assms(3) by (auto simp: install_default_alias_hooks_def bind_result_Inr_iff)
  obtain e2 where e2: "install_method_not_allowed_alias cfg e1 = Inr e2"
    using assms(3) e1 by (auto simp: install_default_alias_hooks_def bind_result_Inr_iff)
  obtain e3 where e3: "install_not_found_alias cfg e2 = Inr e3"
    using assms(3) e1 e2 by (auto simp: install_default_alias_hooks_def bind_result_Inr_iff)
  have "env_bus e1 = snd (bus_attach before_handler Auth_Alias empty_bus)"
    using e1 assms(1,2) by (auto simp: install_auth_alias_def add_detached_eq signature_phase_def)
  then have s1: "seated 2 e1"
    using bus.attach_inv [of empty_bus before_handler Auth_Alias]
    by (simp add: seated_def bus_attach_simps empty_bus_def bus_inv_empty [unfolded empty_bus_def])
  have s2: "seated 3 e2"
    using e2 s1 seated_add [OF s1, of before_handler before_handler_sig] seated_mono [OF s1, of 3]
    by (auto simp: install_method_not_allowed_alias_def signature_phase_def split: if_splits)
  have s3: "seated 4 e3"
    using e3 s2 seated_add [OF s2, of route_resolved route_resolved_sig] seated_mono [OF s2, of 4]
    by (auto simp: install_not_found_alias_def signature_phase_def split: if_splits)
  show ?thesis
    using assms(3) e1 e2 e3 s3
    by (auto simp: install_default_alias_hooks_def install_log_access_alias_def install_internal_error_alias_def
        seated_def alias_setters_keep log_alias_inv exception_alias_inv)
qed

end
