(* ===== verification/Dispatch_Properties.thy ===== *)
theory Dispatch_Properties
  imports Request_Dispatcher
begin

text \<open>
  What the dispatch of a request promises: one response for every request, no handler before the
  authentication callback, and the outcome of each branch of \<^verbatim>\<open>finalize_answer\<close>.  The example at the start is a
  server with one route, an authentication callback and a request for the route.
\<close>

section \<open>An example\<close>

definition example_config :: "unit webserver" where
  "example_config =
     webserver_config.extend ((default_config some_build)\<lparr>auth_handler := Some ()\<rparr>) (webserver.fields [] ''o'')"

lemma example_config_simps:
  "auth_handler example_config = Some ()" "not_found_handler example_config = None"
  "method_not_allowed_handler example_config = None" "internal_error_handler example_config = None"
  "log_access example_config = None" "auth_skip_paths_normalized example_config = []"
  "expose_exception_messages example_config = False"
  by (simp_all add: example_config_def webserver_config.extend_def webserver.fields_def default_config_def)

definition hello :: http_response where
  "hello = (case text_page ''hello'' 200 of Inr r \<Rightarrow> r | Inl x \<Rightarrow> default_response)"

definition example_externals :: "(string, unit, unit, unit) externals" where
  "example_externals =
     \<lparr>ex_hook = \<lambda>u c e. (Inr pass, c, e), ex_handler = \<lambda>h e. (Inr hello, e), ex_auth = \<lambda>h e. (Inr None, e),
      ex_internal_error = \<lambda>h msg e. (Inl (runtime_error msg), e), ex_log_access = \<lambda>h line e. (Inr (), e),
      ex_regex = \<lparr>rx_compile = Some, rx_match = (=)\<rparr>,
      ex_container = \<lparr>ct_hash = \<lambda>s. 0, ct_bucket = \<lambda>k. 0, ct_count = 1\<rparr>,
      ex_creates = \<lambda>raw. True, ex_queues = \<lambda>st raw. True, ex_materialize_throws = \<lambda>b. None, ex_now = \<lambda>e. 0\<rparr>"

definition example_server :: "(string, unit, unit callable) server" where
  "example_server =
     fst (on_method (ex_regex example_externals) get ''/a'' (Some (\<lambda>q. Inr (User_Handler ()))) (make_server False False))"

definition example_start :: "(string, unit, unit, unit) denv" where
  "example_start =
     \<lparr>env_bus = empty_bus, env_tables = \<lambda>a. None, env_logging = False, env_log = [],
      env_world = \<lparr>rc_server = example_server,
        rc_request = Some ((make_request (Some (silent_connection None [])) None)\<lparr>req_path := ''/a'', req_method := ''GET''\<rparr>),
        rc_response = None, rc_world = ()\<rparr>\<rparr>"

definition example_env1 :: "(string, unit, unit, unit) denv" where
  "example_env1 = (case install_default_alias_hooks example_config example_start of Inr e \<Rightarrow> e | Inl x \<Rightarrow> example_start)"

definition example_dispatch :: "(string, unit, unit, unit) dispatch" where
  "example_dispatch =
     \<lparr>d_env = example_env1,
      d_conn = fresh_context\<lparr>cc_standardized_url := ''/a'', cc_callback := Some get, cc_method_enum := get\<rparr>,
      d_trace = []\<rparr>"

definition example_upgrade :: ws_mhd where
  "example_upgrade = \<lparr>wm_creates = True, wm_accept = \<lambda>k. Some k, wm_queues = \<lambda>st. True\<rparr>"

definition example_run where
  "example_run = finalize_answer example_config example_externals example_upgrade ([] :: unit ws_registry)
     (silent_connection None []) example_dispatch"



section \<open>Reaching a handler\<close>

lemma grows_mem: "grows q k d d' \<Longrightarrow> ev \<in> set (drop n (d_trace d)) \<Longrightarrow> ev \<in> set (drop n (d_trace d'))"
  by (auto simp: grows_def)

lemma handler_reached:
  assumes "is_allowed (resource_at rid (d_env d)) (cc_method_enum (d_conn d))" "cc_callback (d_conn d) = Some m"
    "dispatch_body cfg ex rid d = (a, d')"
  shows "Handler_Called rid m \<in> set (drop (length (d_trace d)) (d_trace d'))"
proof -
  define d1 where "d1 = (if cc_pp (d_conn d) then emit [Mhd_Destroy_Post_Processor] (on_conn (\<lambda>c. c\<lparr>cc_pp := False\<rparr>) d) else d)"
  have fields: "d_env d1 = d_env d" "cc_method_enum (d_conn d1) = cc_method_enum (d_conn d)"
    "cc_callback (d_conn d1) = cc_callback (d_conn d)" "\<exists>evs. d_trace d1 = d_trace d @ evs"
    by (auto simp: d1_def emit_def on_conn_def)
  obtain b d2 where b: "call (run_callable ex rid m) (emit [Handler_Called rid m] d1) = (b, d2)" by fastforce
  have called: "Handler_Called rid m \<in> set (drop (length (d_trace d)) (d_trace d2))"
    using grows_mem [OF grows_call [OF b]] fields(4) by (auto simp: emit_def)
  have "grows 0 0 d2 d'"
  proof (cases b)
    case (Inl x)
    then have "d' = d2" using assms b fields by (simp add: dispatch_body_def d1_def [symmetric] Let_def)
    then show ?thesis by simp
  next
    case (Inr r)
    define p where "p = (if status_code r = - 1
      then emplace_page (call (run_internal_error_handler_safely cfg ex ''handler returned null response'') (emplace_response r d2))
      else (Inr (), emplace_response r d2))"
    have "p = (a, d')"
      using assms b fields Inr unfolding p_def by (simp add: dispatch_body_def d1_def [symmetric] Let_def)
    then have "grows 0 0 (emplace_response r d2) d'"
      unfolding p_def using grows_emplace_page by (cases "status_code r = - 1") auto
    then show ?thesis by (rule grows_quiet_left [OF grows_emplace])
  qed
  then show ?thesis using called grows_mem by blast
qed

lemma route_reaches_handler:
  assumes "resolve_resource_for_request ex d = (Some rid, d1)"
    "fire_before_handler_gated cfg ex rid (fire_route_resolved_gated cfg ex (Some rid) (stamp_resource (Some rid) d1)) = (False, d3)"
    "is_allowed (resource_at rid (d_env d3)) (cc_method_enum (d_conn d3))" "cc_callback (d_conn d3) = Some m"
    "route_answer cfg ex d = (res, d')"
  shows "Handler_Called rid m \<in> set (drop (length (d_trace d)) (d_trace d'))"
proof -
  let ?d2 = "fire_route_resolved_gated cfg ex (Some rid) (stamp_resource (Some rid) d1)"
  have g: "grows 0 0 d ?d2"
    by (rule grows_same_trace) (use resolve_trace [of ex d] assms(1) in \<open>simp add: route_resolved_trace\<close>)
  have len: "length (d_trace d) \<le> length (d_trace d3)"
    using grows_quiet_right [OF g grows_before_handler [OF assms(2)]] by (auto simp: grows_def)
  obtain p d4 where p: "dispatch_body cfg ex rid d3 = (p, d4)" by fastforce
  obtain u d5 where u: "dispatch_resource_handler cfg ex rid d3 = (u, d5)" by fastforce
  have "grows 0 0 d4 d5"
    using u p by (auto simp: dispatch_resource_handler_def split: sum.splits option.splits dest!: grows_handle_exception)
  moreover have "finish_answer cfg ex (Some rid) (u, d5) = (res, d')"
    using assms(1,2,5) u by (simp add: route_answer_def)
  then obtain q where "grows q 0 d5 d'" using finish_calls_nothing by blast
  ultimately have "grows q 0 d4 d'" by (rule grows_quiet_left)
  then have "Handler_Called rid m \<in> set (drop (length (d_trace d3)) (d_trace d'))"
    using handler_reached [OF assms(3,4) p] grows_mem by blast
  then show ?thesis by (rule subsetD [OF set_drop_subset_set_drop [OF len]])
qed

section \<open>The example runs\<close>

lemma example_install:
  "install_default_alias_hooks example_config example_start =
     Inr (example_start\<lparr>env_bus := snd (bus_attach before_handler Auth_Alias empty_bus)\<rparr>)"
  by (simp add: install_default_alias_hooks_def install_auth_alias_def add_detached_eq signature_phase_def
      install_method_not_allowed_alias_def install_not_found_alias_def install_log_access_alias_def
      install_internal_error_alias_def example_config_simps example_start_def)

lemma example_env1_eq:
  "example_env1 = example_start\<lparr>env_bus := snd (bus_attach before_handler Auth_Alias empty_bus)\<rparr>"
  by (simp add: example_env1_def example_install)

lemma example_lookup:
  obtains tbl where "lookup_v2 (ex_regex example_externals) (ex_container example_externals) get ''/a'' (srv_routes example_server) =
    (\<lparr>lr_found = True, lr_tier = Hit_exact,
      lr_entry = \<lparr>re_methods = \<lparr>bits = 0 OR 1\<rparr>, re_handler = Some 0, re_is_prefix = False\<rparr>, lr_captures = []\<rparr>, tbl)"
proof -
  have "fst (lookup_v2 (ex_regex example_externals) (ex_container example_externals) get ''/a'' (srv_routes example_server)) =
    \<lparr>lr_found = True, lr_tier = Hit_exact,
      lr_entry = \<lparr>re_methods = \<lparr>bits = 0 OR 1\<rparr>, re_handler = Some 0, re_is_prefix = False\<rparr>, lr_captures = []\<rparr>"
    by code_simp
  then show ?thesis using that by (metis prod.collapse)
qed

lemma example_resource:
  obtains r where "map_of (srv_resources example_server) 0 = Some r" "is_allowed r get" "hook_table r = None"
    "render_method Base_Render Empty_Slot get r () = Inr (User_Handler ())"
proof -
  have "case map_of (srv_resources example_server) 0 of None \<Rightarrow> False | Some r \<Rightarrow> is_allowed r get \<and> hook_table r = None \<and>
    render_method Base_Render Empty_Slot get r () = Inr (User_Handler ())"
    by code_simp
  then show ?thesis using that by (auto split: option.splits)
qed

lemma example_resolve:
  obtains tbl where "resolve_resource_for_request example_externals example_dispatch =
    (Some 0, example_dispatch\<lparr>d_env := on_reach (\<lambda>w. w\<lparr>rc_server := example_server\<lparr>srv_routes := tbl\<rparr>\<rparr>) example_env1,
      d_conn := (d_conn example_dispatch)\<lparr>cc_matched_path_template := ''/a'', cc_matched_is_prefix := False\<rparr>\<rparr>)"
proof -
  obtain tbl where l: "lookup_v2 (ex_regex example_externals) (ex_container example_externals) get ''/a'' (srv_routes example_server) =
    (\<lparr>lr_found = True, lr_tier = Hit_exact,
      lr_entry = \<lparr>re_methods = \<lparr>bits = 0 OR 1\<rparr>, re_handler = Some 0, re_is_prefix = False\<rparr>, lr_captures = []\<rparr>, tbl)"
    by (rule example_lookup)
  have "resolve_resource_for_request example_externals example_dispatch =
    (Some 0, example_dispatch\<lparr>d_env := on_reach (\<lambda>w. w\<lparr>rc_server := example_server\<lparr>srv_routes := tbl\<rparr>\<rparr>) example_env1,
      d_conn := (d_conn example_dispatch)\<lparr>cc_matched_path_template := ''/a'', cc_matched_is_prefix := False\<rparr>\<rparr>)"
    by (simp add: resolve_resource_for_request_def example_dispatch_def example_env1_eq example_start_def l on_reach_def
        has_hooks_for_def bus_attach_simps empty_bus_def store_captures_def fresh_context_def)
  then show ?thesis by (rule that)
qed

text \<open>The callback lets the request pass, the handler runs.\<close>

lemma example_calls_handler:
  assumes "finalize_answer example_config example_externals example_upgrade [] (silent_connection None []) example_dispatch = (res, d')"
  shows "Handler_Called 0 get \<in> set (d_trace d')"
proof -
  obtain tbl where r: "resolve_resource_for_request example_externals example_dispatch =
    (Some 0, example_dispatch\<lparr>d_env := on_reach (\<lambda>w. w\<lparr>rc_server := example_server\<lparr>srv_routes := tbl\<rparr>\<rparr>) example_env1,
      d_conn := (d_conn example_dispatch)\<lparr>cc_matched_path_template := ''/a'', cc_matched_is_prefix := False\<rparr>\<rparr>)"
    (is "_ = (_, ?d1)") by (rule example_resolve)
  obtain rs where rs: "map_of (srv_resources example_server) 0 = Some rs" "is_allowed rs get" "hook_table rs = None"
    by (rule example_resource)
  let ?d2 = "fire_route_resolved_gated example_config example_externals (Some 0) (stamp_resource (Some 0) ?d1)"
  have at: "resource_at 0 (d_env ?d1) = rs" using rs(1) by (simp add: resource_at_def on_reach_def)
  have d2: "?d2 = stamp_resource (Some 0) ?d1"
    by (simp add: fire_route_resolved_gated_def stamp_env has_hooks_for_def example_env1_eq on_reach_def bus_attach_simps
        empty_bus_def)
  have env2: "d_env ?d2 = d_env ?d1" unfolding d2 by (rule stamp_env)
  have before: "fire_before_handler_gated example_config example_externals 0 ?d2 = (False, ?d2)"
    using at env2 rs(3)
    by (simp add: fire_before_handler_gated_def Let_def route_gate_def fire_short_circuit_hooks_for_phase_def on_reach_def
        has_hooks_for_def example_env1_eq bus_attach_simps empty_bus_def run_fn_def auth_alias_def example_start_def
        example_config_simps example_externals_def should_skip_auth_def)
  have conn: "cc_method_enum (d_conn ?d2) = get" "cc_callback (d_conn ?d2) = Some get"
    unfolding d2 by (simp_all add: stamp_resource_def on_conn_def Let_def example_dispatch_def fresh_context_def)
  have run: "route_answer example_config example_externals example_dispatch = (res, d')"
    using assms by (simp add: finalize_answer_def try_handle_def silent_connection_def example_dispatch_def fresh_context_def emit_def)
  have "is_allowed (resource_at 0 (d_env ?d2)) (cc_method_enum (d_conn ?d2))" using env2 at rs(2) conn by simp
  from route_reaches_handler [OF r before this conn(2) run]
  show ?thesis by (simp add: example_dispatch_def)
qed

section \<open>Properties\<close>

text \<open>C8: Every request is answered exactly once: when \<^verbatim>\<open>finalize_answer\<close> returns, one response was queued and at
  most one handler was called, whatever hooks, handlers and callbacks did.  The one exception is a
  connection that is given up because libmicrohttpd cannot even make an empty response.\<close>

theorem one_response_per_request:
  assumes "finalize_answer cfg ex wm reg c d = (Inr b, d')"
  shows "\<exists>evs. d_trace d' = d_trace d @ evs \<and> length (filter is_call evs) \<le> 1 \<and>
    (length (filter is_queue evs) = 1 \<or> (\<not> b \<and> filter is_queue evs = [] \<and> \<not> ex_creates ex (Raw_Empty 0)))"
proof -
  obtain w evs where w: "try_handle wm reg c (cc_standardized_url (d_conn d)) = (w, evs)" by fastforce
  have "answered ex b d d'"
  proof (cases w)
    case (Some ws)
    then have "d' = emit evs d" using assms w by (simp add: finalize_answer_def)
    then have "grows 1 0 d d'" using try_handle_events(1) [of wm reg c _ ws evs] w Some by (auto intro: grows_emit)
    then show ?thesis by (auto simp: answered_def)
  next
    case None
    have "filter is_queue evs = []" "filter is_call evs = []" using try_handle_events(2) w None by blast+
    then have g: "grows 0 0 d (emit evs d)" by (simp add: grows_emit)
    show ?thesis
      using assms w None answered_left [OF g answered_materialize] answered_left [OF g answered_route]
      by (simp add: finalize_answer_def Let_def split: if_splits)
  qed
  then show ?thesis unfolding answered_def grows_def by force
qed

text \<open>C4: Authentication guards every handler.  On a server whose configuration has an \<^verbatim>\<open>auth_handler\<close>, after the
  constructor seated it and whatever hooks were added and removed since, a handler of a resource is called
  for a request only if its path is on the skip list or the callback, asked about this request, let it
  pass.  A callback that throws, or a rejection, never reaches the handler.\<close>

theorem auth_guards_handler:
  assumes "env_bus e0 = empty_bus" "auth_handler cfg \<noteq> None" "install_default_alias_hooks cfg e0 = Inr e1"
    and "list_all (\<lambda>op. \<not> detaches before_handler 1 op) ops" "list_all (attaches_within (\<lambda>p. p \<noteq> phase_count)) ops"
    and "length ops < 2 ^ 63" "env_bus (d_env d) = fold bus.apply_op ops (env_bus e1)"
    and "hooks_polite ex" "path_of (d_env d) = Some path"
    and "finalize_answer cfg ex wm reg c d = (res, d')"
    and "Handler_Called rid m \<in> set (drop (length (d_trace d)) (d_trace d'))"
  shows "admitted cfg ex path (auth_env cfg ex d)"
proof (rule ccontr)
  assume no: "\<not> ?thesis"
  have seat: "seated 4 e1" by (rule install_seats_auth [OF assms(1-3)])
  then obtain es where es: "hooks (env_bus e1) before_handler = (1, Auth_Alias) # es" by (auto simp: seated_def)
  have inv: "bus_inv (env_bus e1)" "unat (next_slot_id (env_bus e1)) + length ops < 2 ^ 64"
    using seat assms(6) by (auto simp: seated_def)
  note keep = bus.history_keeps_head [OF inv(1) es assms(4,5) inv(2)]
  have "auth_first (d_env d)"
    using keep bus_invD(3) assms(7) unfolding auth_first_def by force
  then obtain q where "grows q 0 d d'" using finalize_calls_nothing [OF assms(8) _ assms(9) no assms(10)] by blast
  then obtain evs where "d_trace d' = d_trace d @ evs" "filter is_call evs = []" by (auto simp: grows_def)
  then show False using assms(11) by (auto simp: filter_empty_conv is_call_def)
qed

theorem auth_guards_handler_witness:
  "admitted example_config example_externals ''/a'' (auth_env example_config example_externals example_dispatch)"
proof -
  obtain res d' where run: "finalize_answer example_config example_externals example_upgrade ([] :: unit ws_registry)
      (silent_connection None []) example_dispatch = (res, d')" by fastforce
  have ok: "install_default_alias_hooks example_config example_start = Inr example_env1"
    by (simp add: example_install example_env1_eq)
  show ?thesis
    using auth_guards_handler [of example_start example_config example_env1 "[]" example_dispatch example_externals "''/a''"
        example_upgrade "[]" "silent_connection None []" res d' 0 get] ok run example_calls_handler [OF run]
    by (simp add: example_start_def example_config_simps example_dispatch_def hooks_polite_def path_of_def
        example_externals_def example_env1_eq)
qed

end
