(* ===== verification/Plain_Server.thy ===== *)
theory Plain_Server
  imports Dispatch_Properties
begin

text \<open>
  A reference for \<^verbatim>\<open>finalize_answer\<close> on a server without hooks: find the route, run its handler or make the error
  page, and write the response out.  The dispatcher with all its gates, fallbacks and moves implements it.
\<close>

section \<open>The reference\<close>

definition error_text :: "exn \<Rightarrow> string" where
  "error_text x = (case what_of x of Some w \<Rightarrow> w | None \<Rightarrow> ''unknown exception'')"

definition error_log_line :: "exn \<Rightarrow> string" where
  "error_log_line x =
     (case what_of x of
        Some w \<Rightarrow> ''dispatch: handler threw std::exception: '' @ w
      | None \<Rightarrow> ''dispatch: handler threw unknown exception'')"

definition with_allow :: "method_set \<Rightarrow> http_response \<Rightarrow> http_response result" where
  "with_allow ms r = (if format_allow_header ms = [] then Inr r else with_header ''Allow'' (format_allow_header ms) r)"

text \<open>What the matched resource answers: its handler for an allowed method, the 405 page with the allowed
  methods otherwise.\<close>

definition resource_answer ::
    "'h webserver \<Rightarrow> ('re, 'u, 'h, 'w) externals \<Rightarrow> nat \<Rightarrow> http_method \<Rightarrow> http_method option \<Rightarrow> ('re, 'u, 'h, 'w) denv
      \<Rightarrow> http_response result \<times> ('re, 'u, 'h, 'w) denv" where
  "resource_answer cfg ex rid m callback e =
     (if is_allowed (resource_at rid e) m then
        (case callback of
           None \<Rightarrow> (Inl (undefined_behaviour ''null member pointer''), e)
         | Some k \<Rightarrow> run_callable ex rid k e)
      else
        (case method_not_allowed_page cfg ex e of
           (p, e') \<Rightarrow> (bind_result p (with_allow (methods_allowed (resource_at rid e'))), e')))"

definition plain_response ::
    "'h webserver \<Rightarrow> ('re, 'u, 'h, 'w) externals \<Rightarrow> ('re, 'u, 'h, 'w) dispatch
      \<Rightarrow> http_response result \<times> ('re, 'u, 'h, 'w) denv" where
  "plain_response cfg ex d =
     (case resolve_resource_for_request ex d of
        (None, d1) \<Rightarrow> not_found_page cfg ex (d_env d1)
      | (Some rid, d1) \<Rightarrow>
          (case resource_answer cfg ex rid (cc_method_enum (d_conn d)) (cc_callback (d_conn d)) (d_env d1) of
             (Inr r, e) \<Rightarrow> (Inr r, e)
           | (Inl x, e) \<Rightarrow> run_internal_error_handler_safely cfg ex (error_text x) (log_dispatch_error (error_log_line x) e)))"

text \<open>What goes out: the headers, the footers, the cookies and the body under its status.\<close>

definition renders :: "cookie list \<Rightarrow> string list \<Rightarrow> bool" where
  "renders cs hs = list_all2 (\<lambda>c h. to_set_cookie_header c = Inr h) cs hs"

definition wire_lines :: "http_response \<Rightarrow> string list \<Rightarrow> event list" where
  "wire_lines r hs =
     map (\<lambda>(k, v). Mhd_Add_Header (c_str k) (c_str v)) (resp_headers r) @
     map (\<lambda>(k, v). Mhd_Add_Footer (c_str k) (c_str v)) (resp_footers r) @
     map (\<lambda>h. Mhd_Add_Header ''Set-Cookie'' (c_str h)) hs"

definition is_wire :: "event \<Rightarrow> bool" where
  "is_wire ev \<longleftrightarrow> is_queue ev \<or> (case ev of Mhd_Add_Header k v \<Rightarrow> True | Mhd_Add_Footer k v \<Rightarrow> True | _ \<Rightarrow> False)"

text \<open>A response that can be written: it has a body libmicrohttpd accepts and its cookies render.\<close>

definition deliverable :: "('re, 'u, 'h, 'w) externals \<Rightarrow> http_response \<Rightarrow> raw_response \<Rightarrow> string list \<Rightarrow> bool" where
  "deliverable ex r raw hs \<longleftrightarrow>
     (case resp_body r of
        None \<Rightarrow> False
      | Some b \<Rightarrow> ex_materialize_throws ex b = None \<and> fst (body_materialize (ex_creates ex) b) = Some raw) \<and>
     renders (structured_cookies r) hs \<and> resp_kind r \<noteq> kind_digest_challenge"

text \<open>No hooks anywhere, and callbacks that add none.\<close>

definition quiet :: "('re, 'u, 'h, 'w) denv \<Rightarrow> bool" where
  "quiet e \<longleftrightarrow>
     (\<forall>p. \<not> any_hooks (env_bus e) p) \<and> handler_exception_alias (env_bus e) = None \<and> log_access_alias (env_bus e) = None \<and>
     list_all (\<lambda>(i, r). hook_table r = None \<and> allow_cache_inv r) (srv_resources (rc_server (env_world e)))"

definition callbacks_quiet :: "('re, 'u, 'h, 'w) externals \<Rightarrow> bool" where
  "callbacks_quiet ex \<longleftrightarrow>
     (\<forall>h e. quiet e \<longrightarrow> quiet (snd (ex_handler ex h e))) \<and>
     (\<forall>h msg e. quiet e \<longrightarrow> quiet (snd (ex_internal_error ex h msg e)))"

section \<open>Quiet phases\<close>

lemma quiet_gate: "quiet e \<Longrightarrow> \<not> has_hooks_for p (env_bus e)"
  by (simp add: quiet_def has_hooks_for_def)

lemma quiet_resource:
  assumes "quiet e"
  shows "hook_table (resource_at rid e) = None" "allow_cache_inv (resource_at rid e)"
proof -
  have "hook_table r = None \<and> allow_cache_inv r" if "map_of (srv_resources (rc_server (env_world e))) rid = Some r" for r
    using assms map_of_SomeD [OF that] by (auto simp: quiet_def list_all_iff)
  then show "hook_table (resource_at rid e) = None" "allow_cache_inv (resource_at rid e)"
    by (auto simp: resource_at_def make_lambda_resource_def disallow_all_def allow_cache_inv_def split: option.splits)
qed

lemma quiet_table: "quiet e \<Longrightarrow> resource_table res e = None"
  by (simp add: resource_table_def quiet_resource split: option.splits)

lemma quiet_before: "quiet (d_env d) \<Longrightarrow> fire_before_handler_gated cfg ex rid d = (False, d)"
  by (simp add: fire_before_handler_gated_def Let_def quiet_gate quiet_resource route_gate_def)

lemma quiet_after: "quiet (d_env d) \<Longrightarrow> fire_after_handler_gated cfg ex res d = d"
  by (simp add: fire_after_handler_gated_def Let_def quiet_gate quiet_table route_gate_def)

lemma quiet_resolved: "quiet (d_env d) \<Longrightarrow> fire_route_resolved_gated cfg ex hrm d = d"
  by (simp add: fire_route_resolved_gated_def quiet_gate)

lemma quiet_log [simp]: "quiet (log_dispatch_error m e) = quiet e"
  by (simp add: quiet_def)

lemma quiet_reach:
  "srv_resources (rc_server (f (env_world e))) = srv_resources (rc_server (env_world e)) \<Longrightarrow> quiet (on_reach f e) = quiet e"
  by (simp add: quiet_def on_reach_def)

lemma quiet_callable: "quiet e \<Longrightarrow> callbacks_quiet ex \<Longrightarrow> quiet (snd (run_callable ex rid m e))"
  by (auto simp: run_callable_def callbacks_quiet_def split: sum.splits callable.splits)

lemma quiet_page: "quiet e \<Longrightarrow> callbacks_quiet ex \<Longrightarrow> quiet (snd (method_not_allowed_page cfg ex e))"
  "quiet e \<Longrightarrow> callbacks_quiet ex \<Longrightarrow> quiet (snd (not_found_page cfg ex e))"
  by (auto simp: method_not_allowed_page_def not_found_page_def callbacks_quiet_def split: option.splits)

lemma quiet_safely:
  assumes "quiet e" "callbacks_quiet ex" "run_internal_error_handler_safely cfg ex msg e = (p, e')"
  shows "quiet e'"
proof -
  have "quiet (snd (internal_error_page cfg ex msg False e))"
    using assms(1,2) by (auto simp: internal_error_page_def callbacks_quiet_def split: option.splits)
  then show ?thesis
    using assms(3)
    by (auto simp: run_internal_error_handler_safely_def internal_error_page_def [of _ _ _ True] split: prod.splits sum.splits)
qed

lemma quiet_exception:
  "quiet (d_env d) \<Longrightarrow>
     handle_dispatch_exception cfg ex x msg d = emplace_page (call (run_internal_error_handler_safely cfg ex msg) d)"
  by (simp add: handle_dispatch_exception_def Let_def quiet_gate quiet_table route_gate_def quiet_def [of "d_env d"])

section \<open>Silent steps\<close>

definition silent :: "('re, 'u, 'h, 'w) dispatch \<Rightarrow> ('re, 'u, 'h, 'w) dispatch \<Rightarrow> bool" where
  "silent d d' \<longleftrightarrow> (\<exists>evs. d_trace d' = d_trace d @ evs \<and> filter is_wire evs = [])"

lemma silent_refl [simp]: "silent d d"
  by (simp add: silent_def)

lemma silent_trans: "silent d d' \<Longrightarrow> silent d' d'' \<Longrightarrow> silent d d''"
  by (force simp: silent_def)

lemma silent_env [simp]: "silent d (d'\<lparr>d_env := e\<rparr>) = silent d d'" "silent d (on_env f d') = silent d d'"
  "silent d (put_response r d') = silent d d'" "silent (d\<lparr>d_env := e\<rparr>) d' = silent d d'"
  by (simp_all add: silent_def on_env_def put_response_def)

lemma descriptors_silent [simp]: "filter is_wire (map Descriptor evs) = []"
  by (induction evs) (simp_all add: is_wire_def is_queue_def)

lemma silent_emplace: "silent d (emplace_response r d)"
proof -
  obtain evs where "d_trace (emplace_response r d) = d_trace d @ map Descriptor evs"
    using emplace_response_fields(2) by blast
  then show ?thesis unfolding silent_def by (intro exI [of _ "map Descriptor evs"]) simp
qed

lemma move_identity: "resp_body r \<noteq> None \<Longrightarrow> fst (response_move_construct r) = r"
  by (cases r) (simp add: move_construct_eq take_members_def default_response_def)

lemma emplace_env:
  assumes "resp_body r \<noteq> None"
  shows "d_env (emplace_response r d) = on_reach (\<lambda>w. w\<lparr>rc_response := Some r\<rparr>) (d_env d)"
proof -
  obtain r' left ev where m: "response_move_construct r = (r', left, ev)" using prod_cases3 by blast
  then have "r' = r" using move_identity [OF assms] by simp
  then show ?thesis using m by (simp add: emplace_response_def emit_def on_env_def)
qed

lemma emplace_quiet: "quiet (d_env d) \<Longrightarrow> resp_body r \<noteq> None \<Longrightarrow> quiet (d_env (emplace_response r d))"
  by (simp add: emplace_env quiet_reach)

lemma emplace_staged: "resp_body r \<noteq> None \<Longrightarrow> response_of (d_env (emplace_response r d)) = Some r"
  by (simp add: emplace_env on_reach_def)

text \<open>The common end of all branches: a page in an environment becomes the staged response.\<close>

definition staged :: "('re, 'u, 'h, 'w) dispatch \<Rightarrow> http_response \<Rightarrow> unit result \<times> ('re, 'u, 'h, 'w) dispatch \<Rightarrow> bool" where
  "staged d r p \<longleftrightarrow>
     (\<exists>d'. p = (Inr (), d') \<and> response_of (d_env d') = Some r \<and> quiet (d_env d') \<and> silent d d')"

lemma staged_emplace:
  assumes "quiet e" "resp_body r \<noteq> None" "silent d d1"
  shows "staged d r (Inr (), emplace_response r (d1\<lparr>d_env := e\<rparr>))"
  unfolding staged_def using assms silent_trans [OF assms(3)] silent_emplace [of "d1\<lparr>d_env := e\<rparr>" r]
  by (intro exI [of _ "emplace_response r (d1\<lparr>d_env := e\<rparr>)"])
    (simp add: emplace_quiet emplace_staged silent_def)

lemma staged_exception:
  assumes "quiet (d_env d1)" "callbacks_quiet ex" "silent d d1" "resp_body r \<noteq> None"
    "run_internal_error_handler_safely cfg ex msg (log_dispatch_error line (d_env d1)) = (Inr r, e)"
  shows "staged d r (handle_dispatch_exception cfg ex x msg (on_env (log_dispatch_error line) d1))"
proof -
  have q: "quiet (d_env (on_env (log_dispatch_error line) d1))" using assms(1) by (simp add: on_env_def)
  have "handle_dispatch_exception cfg ex x msg (on_env (log_dispatch_error line) d1) = (Inr (), emplace_response r (d1\<lparr>d_env := e\<rparr>))"
    unfolding quiet_exception [OF q] using assms(5) by (simp add: emplace_page_def call_def on_env_def)
  moreover have "quiet e" using quiet_safely [OF _ assms(2,5)] assms(1) by simp
  ultimately show ?thesis using staged_emplace assms(3,4) by metis
qed

section \<open>The handler and the error pages\<close>

lemma method_strings_clean: "clean (method_to_string m)"
  by (cases m; hypsubst; code_simp)

lemma clean_append: "clean (a @ b) \<longleftrightarrow> clean a \<and> clean b"
  by (auto simp: clean_def)

lemma allow_loop_clean: "clean h \<Longrightarrow> clean (format_allow_loop s ms h)"
proof (induction ms arbitrary: h)
  case (Cons m ms)
  have "clean '', ''" by code_simp
  then have "clean ((if h \<noteq> [] then h @ '', '' else h) @ method_to_string m)"
    using Cons.prems method_strings_clean [of m] unfolding clean_append by (cases h) (simp_all only: clean_append if_True if_False list.simps simp_thms)
  then show ?case using Cons by simp
qed simp

lemma with_allow_accepted: "\<exists>r'. with_allow ms r = Inr r' \<and> resp_body r' = resp_body r \<and> status_code r' = status_code r"
proof -
  have "clean []" by code_simp
  then have "clean (format_allow_header ms)" unfolding format_allow_header_def by (rule allow_loop_clean)
  moreover have "clean ''Allow''" by code_simp
  ultimately have "validate_http_field ''with_header'' ''Allow'' (format_allow_header ms) = None"
    unfolding validate_http_field_None by blast
  then show ?thesis by (simp add: with_allow_def with_header_def guarded_def)
qed

lemma put_resource_quiet:
  assumes "quiet e" "hook_table r = None" "allow_cache_inv r"
  shows "quiet (put_resource rid r e)"
  using assms by (auto simp: quiet_def put_resource_def on_reach_def list_all_iff)

lemma get_allow_header_keeps: "hook_table (snd (get_allow_header r)) = hook_table r"
  by (simp add: get_allow_header_def Let_def)

lemma staged_allow:
  assumes "quiet e" "resp_body r0 \<noteq> None" "silent d d1" "with_allow (methods_allowed (resource_at rid e)) r0 = Inr r"
  shows "staged d r (add_allow_header rid (emplace_response r0 (d1\<lparr>d_env := e\<rparr>)))"
proof -
  let ?d = "emplace_response r0 (d1\<lparr>d_env := e\<rparr>)"
  have env: "d_env ?d = on_reach (\<lambda>w. w\<lparr>rc_response := Some r0\<rparr>) e" by (simp add: emplace_env [OF assms(2)])
  have at: "resource_at rid (d_env ?d) = resource_at rid e" by (simp add: env resource_at_def on_reach_def)
  have q: "quiet (d_env ?d)" using assms(1) by (simp add: env quiet_reach)
  define rs where "rs = snd (get_allow_header (resource_at rid e))"
  have g: "get_allow_header (resource_at rid e) = (format_allow_header (methods_allowed (resource_at rid e)), rs)"
    using get_allow_header_value [OF quiet_resource(2) [OF assms(1)], of rid] by (simp add: rs_def prod_eq_iff)
  let ?d2 = "on_env (put_resource rid rs) ?d"
  have q2: "quiet (d_env ?d2)"
    using put_resource_quiet [OF q, of rs rid] quiet_resource [OF assms(1), of rid]
    by (simp add: on_env_def rs_def get_allow_header_keeps inv_intros)
  have resp: "response_of (d_env ?d2) = Some r0"
    by (simp add: on_env_def env put_resource_def on_reach_def)
  have "silent d1 ?d" using silent_emplace [of "d1\<lparr>d_env := e\<rparr>" r0] by simp
  then have sil: "silent d ?d2" using silent_trans [OF assms(3)] by simp
  show ?thesis
  proof (cases "format_allow_header (methods_allowed (resource_at rid e)) = []")
    case True
    then have "r = r0" using assms(4) by (simp add: with_allow_def)
    then show ?thesis using True q2 resp sil by (simp add: staged_def add_allow_header_def at g)
  next
    case False
    then have "add_allow_header rid ?d = (Inr (), put_response r ?d2)"
      using assms(4) resp by (simp add: add_allow_header_def at g with_allow_def)
    moreover have "quiet (d_env (put_response r ?d2))" using q2 by (simp add: put_response_def on_env_def quiet_reach)
    moreover have "response_of (d_env (put_response r ?d2)) = Some r" by (simp add: put_response_def on_env_def on_reach_def)
    moreover have "silent d (put_response r ?d2)" using sil by (simp only: silent_env)
    ultimately show ?thesis unfolding staged_def by blast
  qed
qed

lemma dispatch_plain:
  assumes "quiet (d_env d)" "callbacks_quiet ex" "status_code r \<noteq> - 1" "resp_body r \<noteq> None"
    "(case resource_answer cfg ex rid (cc_method_enum (d_conn d)) (cc_callback (d_conn d)) (d_env d) of
       (Inr r', e') \<Rightarrow> (Inr r', e')
     | (Inl x, e') \<Rightarrow> run_internal_error_handler_safely cfg ex (error_text x) (log_dispatch_error (error_log_line x) e')) = (Inr r, e)"
  shows "staged d r (dispatch_resource_handler cfg ex rid d)"
proof -
  obtain a e1 where a: "resource_answer cfg ex rid (cc_method_enum (d_conn d)) (cc_callback (d_conn d)) (d_env d) = (a, e1)"
    by fastforce
  define d1 where "d1 = (if cc_pp (d_conn d) then emit [Mhd_Destroy_Post_Processor] (on_conn (\<lambda>c. c\<lparr>cc_pp := False\<rparr>) d) else d)"
  have fields: "d_env d1 = d_env d" "cc_method_enum (d_conn d1) = cc_method_enum (d_conn d)"
    "cc_callback (d_conn d1) = cc_callback (d_conn d)" "silent d d1"
    by (auto simp: d1_def emit_def on_conn_def silent_def is_wire_def is_queue_def)
  have q1: "quiet e1"
    using a assms(1,2) quiet_callable [OF assms(1,2)] quiet_page(1) [OF assms(1,2)]
    by (auto simp: resource_answer_def split: if_splits option.splits prod.splits) (metis snd_conv)+
  have body: "(\<exists>x d2. a = Inl x \<and> dispatch_body cfg ex rid d = (Inl x, d2) \<and> d_env d2 = e1 \<and> silent d d2) \<or>
    (a = Inr r \<and> staged d r (dispatch_body cfg ex rid d))"
  proof (cases "is_allowed (resource_at rid (d_env d)) (cc_method_enum (d_conn d))")
    case True
    show ?thesis
    proof (cases "cc_callback (d_conn d)")
      case None
      then show ?thesis
        using True a fields by (auto simp: dispatch_body_def d1_def [symmetric] resource_answer_def)
    next
      case (Some k)
      have c: "run_callable ex rid k (d_env d) = (a, e1)" using True Some a by (simp add: resource_answer_def)
      define d2 where "d2 = emit [Handler_Called rid k] d1"
      have d2: "d_env d2 = d_env d" "silent d d2"
        using fields silent_trans [OF fields(4), of d2] by (simp_all add: d2_def emit_def silent_def is_wire_def is_queue_def)
      have run: "call (run_callable ex rid k) d2 = (a, d2\<lparr>d_env := e1\<rparr>)" using c d2 by (simp add: call_def)
      show ?thesis
      proof (cases a)
        case (Inl x)
        then show ?thesis
          using True Some fields run d2 by (simp add: dispatch_body_def d1_def [symmetric] d2_def [symmetric])
      next
        case (Inr r')
        then have "r' = r" using assms(5) a by simp
        then show ?thesis
          using True Some fields run Inr assms(3) staged_emplace [OF q1 assms(4) d2(2)]
          by (simp add: dispatch_body_def d1_def [symmetric] d2_def [symmetric])
      qed
    qed
  next
    case False
    obtain p e2 where p: "method_not_allowed_page cfg ex (d_env d) = (p, e2)" by fastforce
    have c: "a = bind_result p (with_allow (methods_allowed (resource_at rid e2)))" "e1 = e2"
      using a False p by (auto simp: resource_answer_def)
    have run: "call (method_not_allowed_page cfg ex) d1 = (p, d1\<lparr>d_env := e2\<rparr>)" using p fields by (simp add: call_def)
    show ?thesis
    proof (cases p)
      case (Inl x)
      then show ?thesis using False fields run c
        by (simp add: dispatch_body_def d1_def [symmetric] emplace_page_def)
    next
      case (Inr r0)
      obtain r' where r': "with_allow (methods_allowed (resource_at rid e2)) r0 = Inr r'" "resp_body r' = resp_body r0"
        using with_allow_accepted by blast
      have "r' = r" using assms(5) a c r' Inr by simp
      then show ?thesis
        using False fields run Inr c r' assms(4) staged_allow [of e2 r0 d d1 rid r] q1
        by (simp add: dispatch_body_def d1_def [symmetric] emplace_page_def)
    qed
  qed
  show ?thesis
  proof (cases a)
    case (Inl x)
    then obtain d2 where d2: "dispatch_body cfg ex rid d = (Inl x, d2)" "d_env d2 = e1" "silent d d2" using body by auto
    have "run_internal_error_handler_safely cfg ex (error_text x) (log_dispatch_error (error_log_line x) (d_env d2)) = (Inr r, e)"
      using assms(5) a Inl d2(2) by simp
    from staged_exception [OF _ assms(2) d2(3) assms(4) this, of x] q1 d2(1,2)
    show ?thesis by (simp add: dispatch_resource_handler_def error_text_def error_log_line_def split: option.splits)
  next
    case (Inr r')
    then have "staged d r (dispatch_body cfg ex rid d)" using body by auto
    then show ?thesis by (auto simp: staged_def dispatch_resource_handler_def)
  qed
qed

section \<open>Writing the response out\<close>

lemma cookies_written: "renders cs hs \<Longrightarrow> add_cookies cs d = (Inr (), emit (map (\<lambda>h. Mhd_Add_Header ''Set-Cookie'' (c_str h)) hs) d)"
proof (induction cs arbitrary: hs d)
  case Nil
  then show ?case by (simp add: renders_def emit_def)
next
  case (Cons c cs)
  then obtain h hs' where "hs = h # hs'" "to_set_cookie_header c = Inr h" "renders cs hs'"
    by (auto simp: renders_def list_all2_Cons1)
  then show ?case using Cons.IH [of hs' "emit [Mhd_Add_Header ''Set-Cookie'' (c_str h)] d"] by (simp add: emit_def)
qed

lemma wire_lines_wire: "filter is_wire (wire_lines r hs) = wire_lines r hs"
  unfolding filter_id_conv by (auto simp: wire_lines_def is_wire_def)

lemma response_written:
  assumes "response_of (d_env d) = Some r" "deliverable ex r raw hs"
  shows "\<exists>d' evs. materialize_and_queue_response cfg ex res d = (Inr (ex_queues ex (status_code r) raw), d') \<and>
    d_trace d' = d_trace d @ evs \<and> filter is_wire evs = wire_lines r hs @ [Mhd_Queue (status_code r) raw]"
proof -
  obtain b b' ev where b: "resp_body r = Some b" "ex_materialize_throws ex b = None"
    "body_materialize (ex_creates ex) b = (Some raw, b', ev)"
    using assms(2) by (cases "resp_body r") (auto simp: deliverable_def prod_eq_iff)
  define r1 where "r1 = r\<lparr>resp_body := Some b'\<rparr>"
  define d1 where "d1 = emit (map Descriptor ev) (put_response r1 d)"
  have m: "get_raw_response_with_fallback cfg ex d = (Some raw, d1)"
    using assms(1) b by (simp add: get_raw_response_with_fallback_def materialize_response_def d1_def r1_def)
  have d1: "response_of (d_env d1) = Some r1" "d_trace d1 = d_trace d @ map Descriptor ev"
    by (simp_all add: d1_def emit_def put_response_def on_env_def on_reach_def)
  have same: "structured_cookies r1 = structured_cookies r" "resp_headers r1 = resp_headers r"
    "resp_footers r1 = resp_footers r" "resp_kind r1 = resp_kind r" "status_code r1 = status_code r"
    by (simp_all add: r1_def)
  have r: "renders (structured_cookies r1) hs" "resp_kind r1 \<noteq> kind_digest_challenge"
    using assms(2) by (simp_all add: deliverable_def same)
  define d2 where "d2 = emit (wire_lines r hs) d1"
  have dec: "decorate_mhd_response r1 d1 = (Inr (), d2)"
    unfolding decorate_mhd_response_def cookies_written [OF r(1)] by (simp add: same d2_def wire_lines_def emit_def)
  define d3 where "d3 = emit [Mhd_Destroy_Response] (fire_response_sent_gated cfg ex res (emit [Mhd_Queue (status_code r) raw] d2))"
  have "materialize_and_queue_response cfg ex res d = (Inr (ex_queues ex (status_code r) raw), d3)"
    using m d1(1) dec r(2)
    by (simp add: materialize_and_queue_response_def decorate_and_queue_def queue_response_dispatching_kind_def same d3_def)
  moreover have "d_trace d3 = d_trace d @ (map Descriptor ev @ wire_lines r hs @ [Mhd_Queue (status_code r) raw, Mhd_Destroy_Response])"
    by (simp add: d3_def emit_def fire_response_sent_fields d2_def d1(2))
  ultimately show ?thesis
    by (intro exI [of _ d3] exI [of _ "map Descriptor ev @ wire_lines r hs @ [Mhd_Queue (status_code r) raw, Mhd_Destroy_Response]"])
      (simp add: wire_lines_wire is_wire_def is_queue_def)
qed

lemma staged_written:
  assumes "staged d r p" "deliverable ex r raw hs"
  shows "\<exists>d' evs. finish_answer cfg ex res p = (Inr (ex_queues ex (status_code r) raw), d') \<and>
    d_trace d' = d_trace d @ evs \<and> filter is_wire evs = wire_lines r hs @ [Mhd_Queue (status_code r) raw]"
proof -
  obtain d1 where d1: "p = (Inr (), d1)" "response_of (d_env d1) = Some r" "quiet (d_env d1)" "silent d d1"
    using assms(1) by (auto simp: staged_def)
  obtain evs where evs: "d_trace d1 = d_trace d @ evs" "filter is_wire evs = []" using d1(4) by (auto simp: silent_def)
  obtain d' evs' where "materialize_and_queue_response cfg ex res d1 = (Inr (ex_queues ex (status_code r) raw), d')"
    "d_trace d' = d_trace d1 @ evs'" "filter is_wire evs' = wire_lines r hs @ [Mhd_Queue (status_code r) raw]"
    using response_written [OF d1(2) assms(2), of cfg res] by blast
  then show ?thesis
    using evs by (intro exI [of _ d'] exI [of _ "evs @ evs'"]) (simp add: finish_answer_def d1(1) quiet_after [OF d1(3)])
qed

section \<open>Refinement\<close>

lemma resolve_quiet:
  assumes "resolve_resource_for_request ex d = (hrm, d1)" "quiet (d_env d)"
  shows "quiet (d_env d1)" "response_of (d_env d1) = response_of (d_env d)"
    "cc_method_enum (d_conn d1) = cc_method_enum (d_conn d)" "cc_callback (d_conn d1) = cc_callback (d_conn d)"
  using assms
  by (auto simp: resolve_resource_for_request_def Let_def quiet_reach store_captures_def on_reach_def quiet_def
      split: prod.splits option.splits if_splits)

lemma stamp_fields:
  "cc_method_enum (d_conn (stamp_resource hrm d)) = cc_method_enum (d_conn d)"
  "cc_callback (d_conn (stamp_resource hrm d)) = cc_callback (d_conn d)" "d_trace (stamp_resource hrm d) = d_trace d"
  by (simp_all add: stamp_resource_def on_conn_def Let_def split: option.splits)

lemma finalize_plain:
  assumes "try_handle wm reg c (cc_standardized_url (d_conn d)) = (None, [])" "\<not> cc_skip_handler (d_conn d)"
    "response_of (d_env d) = None" "quiet (d_env d)" "callbacks_quiet ex"
    "plain_response cfg ex d = (Inr r, e)" "status_code r \<noteq> - 1" "deliverable ex r raw hs"
  shows "\<exists>d' evs. finalize_answer cfg ex wm reg c d = (Inr (ex_queues ex (status_code r) raw), d') \<and>
    d_trace d' = d_trace d @ evs \<and> filter is_wire evs = wire_lines r hs @ [Mhd_Queue (status_code r) raw]"
proof -
  obtain hrm d1 where res: "resolve_resource_for_request ex d = (hrm, d1)" by fastforce
  define d2 where "d2 = stamp_resource hrm d1"
  have q2: "quiet (d_env d2)" using resolve_quiet(1) [OF res assms(4)] by (simp add: d2_def stamp_env)
  have fr: "fire_route_resolved_gated cfg ex hrm (stamp_resource hrm d1) = d2"
    using quiet_resolved [OF q2] by (simp add: d2_def)
  have tr: "d_trace d2 = d_trace d" using resolve_trace [of ex d] res by (simp add: d2_def stamp_fields)
  have body: "resp_body r \<noteq> None" using assms(8) by (auto simp: deliverable_def split: option.splits)
  have fin: "finalize_answer cfg ex wm reg c d = route_answer cfg ex d"
    using assms(1,2) by (simp add: finalize_answer_def emit_def)
  have "\<exists>p. route_answer cfg ex d = finish_answer cfg ex hrm p \<and> staged d2 r p"
  proof (cases hrm)
    case (Some rid)
    have "route_answer cfg ex d = finish_answer cfg ex hrm (dispatch_resource_handler cfg ex rid d2)"
      using res Some fr by (simp add: route_answer_def quiet_before [OF q2])
    moreover have "staged d2 r (dispatch_resource_handler cfg ex rid d2)"
      using assms(6) res Some resolve_quiet(3,4) [OF res assms(4)]
      by (intro dispatch_plain [OF q2 assms(5,7) body, of cfg rid e])
        (simp add: plain_response_def d2_def stamp_fields stamp_env)
    ultimately show ?thesis by blast
  next
    case None
    have "response_of (d_env d2) = None" using resolve_quiet(2) [OF res assms(4)] assms(3) by (simp add: d2_def stamp_env)
    then have "route_answer cfg ex d = finish_answer cfg ex hrm (emplace_page (call (not_found_page cfg ex) d2))"
      using res None fr by (simp add: route_answer_def)
    moreover have "not_found_page cfg ex (d_env d2) = (Inr r, e)"
      using assms(6) res None by (simp add: plain_response_def d2_def stamp_env)
    then have "emplace_page (call (not_found_page cfg ex) d2) = (Inr (), emplace_response r (d2\<lparr>d_env := e\<rparr>))" "quiet e"
      using quiet_page(2) [OF q2 assms(5), of cfg] by (simp_all add: emplace_page_def call_def)
    then have "staged d2 r (emplace_page (call (not_found_page cfg ex) d2))" using staged_emplace [of e r d2 d2] body by simp
    ultimately show ?thesis by blast
  qed
  then show ?thesis unfolding fin using staged_written [OF _ assms(8), of d2] tr by fastforce
qed

lemma text_page_written:
  assumes "100 \<le> st" "st \<le> 599" "ex_creates ex (Raw_Buffer t)" "ex_materialize_throws ex (String_Body t) = None"
  obtains r where "text_page t st = Inr r" "status_code r = st" "deliverable ex r (Raw_Buffer t) []"
    "wire_lines r [] = [Mhd_Add_Header ''Content-Type'' ''text/plain'']"
proof -
  define r where "r = default_response\<lparr>status_code := st, resp_headers := [(''Content-Type'', ''text/plain'')],
    resp_body := Some (String_Body t), body_inline := True, resp_kind := kind_string\<rparr>"
  have "validate_http_field ''with_header'' ''Content-Type'' ''text/plain'' = None" by code_simp
  then have "text_page t st = Inr r"
    using assms(1,2)
    by (simp add: text_page_def response_string_def with_header_def guarded_def emplace_body_def with_status_def
        default_response_def r_def)
  moreover have "c_str ''Content-Type'' = ''Content-Type''" "c_str ''text/plain'' = ''text/plain''" by code_simp+
  then have "wire_lines r [] = [Mhd_Add_Header ''Content-Type'' ''text/plain'']"
    by (simp add: wire_lines_def r_def default_response_def)
  moreover have "deliverable ex r (Raw_Buffer t) []"
    using assms(3,4)
    by (simp add: deliverable_def r_def body_materialize_def create_response_def renders_def default_response_def)
  ultimately show ?thesis using that by (simp add: r_def)
qed

section \<open>Properties\<close>


definition plain_config :: "unit webserver" where
  "plain_config = example_config\<lparr>auth_handler := None\<rparr>"

definition plain_dispatch :: "(string, unit, unit, unit) dispatch" where
  "plain_dispatch = example_dispatch\<lparr>d_env := example_start\<rparr>"

lemma plain_dispatch_quiet: "quiet (d_env plain_dispatch)" "response_of (d_env plain_dispatch) = None"
  "try_handle example_upgrade ([] :: unit ws_registry) (silent_connection None []) url = (None, [])"
  "\<not> cc_skip_handler (d_conn plain_dispatch)"
proof -
  have "list_all (\<lambda>(i, r). hook_table r = None \<and> allow_cache_inv r) (srv_resources example_server)" by code_simp
  then show "quiet (d_env plain_dispatch)"
    by (simp add: plain_dispatch_def quiet_def example_start_def empty_bus_def)
qed (simp_all add: plain_dispatch_def example_start_def try_handle_def silent_connection_def example_dispatch_def fresh_context_def)

lemma plain_resolve:
  assumes "ex_regex ex = ex_regex example_externals" "ex_container ex = ex_container example_externals"
  obtains d1 r where "resolve_resource_for_request ex plain_dispatch = (Some 0, d1)" "resource_at 0 (d_env d1) = r"
    "is_allowed r get" "render_method Base_Render Empty_Slot get r () = Inr (User_Handler ())"
proof -
  obtain tbl where l: "lookup_v2 (ex_regex example_externals) (ex_container example_externals) get ''/a'' (srv_routes example_server) =
    (\<lparr>lr_found = True, lr_tier = Hit_exact,
      lr_entry = \<lparr>re_methods = \<lparr>bits = 0 OR 1\<rparr>, re_handler = Some 0, re_is_prefix = False\<rparr>, lr_captures = []\<rparr>, tbl)"
    by (rule example_lookup)
  obtain rs where rs: "map_of (srv_resources example_server) 0 = Some rs" "is_allowed rs get"
    "render_method Base_Render Empty_Slot get rs () = Inr (User_Handler ())"
    by (rule example_resource)
  let ?d = "plain_dispatch\<lparr>d_env := on_reach (\<lambda>w. w\<lparr>rc_server := example_server\<lparr>srv_routes := tbl\<rparr>\<rparr>) example_start\<rparr>"
  have "resolve_resource_for_request ex plain_dispatch = (Some 0, ?d)"
    by (simp add: assms resolve_resource_for_request_def plain_dispatch_def example_dispatch_def example_start_def l on_reach_def
        has_hooks_for_def empty_bus_def store_captures_def fresh_context_def)
  moreover have "resource_at 0 (d_env ?d) = rs" using rs(1) by (simp add: resource_at_def on_reach_def)
  ultimately show ?thesis using that rs(2,3) by blast
qed

lemma plain_conn: "cc_method_enum (d_conn plain_dispatch) = get" "cc_callback (d_conn plain_dispatch) = Some get"
  by (simp_all add: plain_dispatch_def example_dispatch_def)

lemma plain_callbacks: "callbacks_quiet (example_externals\<lparr>ex_handler := \<lambda>h e. (f h, e)\<rparr>)"
  by (simp add: callbacks_quiet_def example_externals_def)

lemma hello_written:
  "status_code hello = 200" "deliverable example_externals hello (Raw_Buffer ''hello'') []"
  "wire_lines hello [] = [Mhd_Add_Header ''Content-Type'' ''text/plain'']"
proof -
  obtain r where "text_page ''hello'' 200 = Inr r" "status_code r = 200" "deliverable example_externals r (Raw_Buffer ''hello'') []"
    "wire_lines r [] = [Mhd_Add_Header ''Content-Type'' ''text/plain'']"
    by (rule text_page_written [of 200 example_externals "''hello''"]) (simp_all add: example_externals_def)
  then show "status_code hello = 200" "deliverable example_externals hello (Raw_Buffer ''hello'') []"
    "wire_lines hello [] = [Mhd_Add_Header ''Content-Type'' ''text/plain'']"
    by (simp_all add: hello_def)
qed

lemma plain_says_hello: "\<exists>e. plain_response plain_config example_externals plain_dispatch = (Inr hello, e)"
proof -
  obtain d1 r where "resolve_resource_for_request example_externals plain_dispatch = (Some 0, d1)" "resource_at 0 (d_env d1) = r"
    "is_allowed r get" "render_method Base_Render Empty_Slot get r () = Inr (User_Handler ())"
    by (rule plain_resolve [of example_externals]) simp_all
  then show ?thesis
    by (simp add: plain_response_def resource_answer_def plain_conn run_callable_def example_externals_def)
qed


theorem one_response_per_request_witness:
  "\<exists>d' evs. finalize_answer plain_config example_externals example_upgrade ([] :: unit ws_registry) (silent_connection None [])
      plain_dispatch = (Inr True, d') \<and> d_trace d' = d_trace plain_dispatch @ evs \<and> length (filter is_queue evs) = 1"
proof -
  obtain e where e: "plain_response plain_config example_externals plain_dispatch = (Inr hello, e)" using plain_says_hello by blast
  have "callbacks_quiet example_externals" by (simp add: callbacks_quiet_def example_externals_def)
  then obtain d' where run: "finalize_answer plain_config example_externals example_upgrade ([] :: unit ws_registry)
      (silent_connection None []) plain_dispatch = (Inr True, d')"
    using finalize_plain [OF plain_dispatch_quiet(3,4,2,1) _ e _ hello_written(2)] hello_written(1)
    by (auto simp: example_externals_def)
  from one_response_per_request [OF run] run show ?thesis by auto
qed



end
