(* ===== verification/Daemon_Lifecycle.thy ===== *)
theory Daemon_Lifecycle
  imports Websocket
begin

text \<open>
  Making, starting and stopping a server: the constructor of \<^verbatim>\<open>src/src/webserver.cpp\<close>, the options and flags
  \<^verbatim>\<open>src/src/detail/daemon_lifecycle.cpp\<close> gives libmicrohttpd, \<^verbatim>\<open>start\<close>, \<^verbatim>\<open>stop\<close> and the calls on a running daemon.
  libmicrohttpd's functions are arguments.  The handshake between a blocking \<^verbatim>\<open>start\<close> and \<^verbatim>\<open>stop\<close> is a step
  relation over the threads that run them.
\<close>

section \<open>Options\<close>

datatype mhd_callback =
    Cb_request_completed | Cb_connection_notify | Cb_uri_log | Cb_error_log | Cb_unescaper_func
  | Cb_psk_cred_handler_func | Cb_sni_cert_callback_func

datatype mhd_option =
    OPTION_NOTIFY_COMPLETED | OPTION_NOTIFY_CONNECTION | OPTION_URI_LOG_CALLBACK | OPTION_EXTERNAL_LOGGER
  | OPTION_UNESCAPE_CALLBACK | OPTION_CONNECTION_TIMEOUT | OPTION_LISTEN_SOCKET | OPTION_THREAD_POOL_SIZE
  | OPTION_CONNECTION_LIMIT | OPTION_CONNECTION_MEMORY_LIMIT | OPTION_PER_IP_CONNECTION_LIMIT
  | OPTION_THREAD_STACK_SIZE | OPTION_NONCE_NC_SIZE | OPTION_HTTPS_MEM_KEY | OPTION_HTTPS_MEM_CERT
  | OPTION_HTTPS_MEM_TRUST | OPTION_HTTPS_PRIORITIES | OPTION_DIGEST_AUTH_RANDOM | OPTION_HTTPS_CRED_TYPE
  | OPTION_GNUTLS_PSK_CRED_HANDLER | OPTION_HTTPS_CERT_CALLBACK | OPTION_LISTEN_BACKLOG_SIZE
  | OPTION_LISTENING_ADDRESS_REUSE | OPTION_CONNECTION_MEMORY_INCREMENT | OPTION_TCP_FASTOPEN_QUEUE_SIZE
  | OPTION_SIGPIPE_HANDLED_BY_APP | OPTION_TLS_NO_ALPN | OPTION_CLIENT_DISCIPLINE_LVL | OPTION_HTTPS_MEM_DHPARAMS
  | OPTION_HTTPS_KEY_PASSWORD | OPTION_HTTPS_PRIORITIES_APPEND | OPTION_END

datatype option_value = Int_Value int | Function_Value mhd_callback
datatype option_pointer = Null_Pointer | Server_Pointer | Text_Pointer string

type_synonym option_item = "mhd_option \<times> option_value \<times> option_pointer"

abbreviation int_option :: "mhd_option \<Rightarrow> int \<Rightarrow> option_item" where
  "int_option opt v \<equiv> (opt, Int_Value v, Null_Pointer)"

abbreviation text_option :: "mhd_option \<Rightarrow> int \<Rightarrow> string \<Rightarrow> option_item" where
  "text_option opt v text \<equiv> (opt, Int_Value v, Text_Pointer text)"

text \<open>\<^verbatim>\<open>if (b) iov.push_back(x);\<close>\<close>

definition only_if :: "bool \<Rightarrow> 'a \<Rightarrow> 'a list" where
  "only_if b x = (if b then [x] else [])"

definition MHD_INVALID_SOCKET :: int where "MHD_INVALID_SOCKET = - 1"

definition add_base_mhd_options :: "build_flags \<Rightarrow> int \<Rightarrow> ('h, 'z) webserver_config_scheme \<Rightarrow> option_item list" where
  "add_base_mhd_options build bind_socket c =
     [(OPTION_NOTIFY_COMPLETED, Function_Value Cb_request_completed, Null_Pointer),
      (OPTION_NOTIFY_CONNECTION, Function_Value Cb_connection_notify, Server_Pointer),
      (OPTION_URI_LOG_CALLBACK, Function_Value Cb_uri_log, Server_Pointer),
      (OPTION_EXTERNAL_LOGGER, Function_Value Cb_error_log, Server_Pointer),
      (OPTION_UNESCAPE_CALLBACK, Function_Value Cb_unescaper_func, Server_Pointer),
      int_option OPTION_CONNECTION_TIMEOUT (cfg_connection_timeout c)] @
     only_if (bind_socket \<noteq> MHD_INVALID_SOCKET) (int_option OPTION_LISTEN_SOCKET bind_socket) @
     only_if (cfg_max_threads c \<noteq> 0) (int_option OPTION_THREAD_POOL_SIZE (cfg_max_threads c)) @
     only_if (cfg_max_connections c \<noteq> 0) (int_option OPTION_CONNECTION_LIMIT (cfg_max_connections c)) @
     only_if (cfg_memory_limit c \<noteq> 0) (int_option OPTION_CONNECTION_MEMORY_LIMIT (cfg_memory_limit c)) @
     only_if (cfg_per_IP_connection_limit c \<noteq> 0)
       (int_option OPTION_PER_IP_CONNECTION_LIMIT (cfg_per_IP_connection_limit c)) @
     only_if (cfg_max_thread_stack_size c \<noteq> 0) (int_option OPTION_THREAD_STACK_SIZE (cfg_max_thread_stack_size c)) @
     only_if (have_dauth build \<and> cfg_nonce_nc_size c \<noteq> 0) (int_option OPTION_NONCE_NC_SIZE (cfg_nonce_nc_size c))"

definition add_tls_mhd_options :: "build_flags \<Rightarrow> ('h, 'z) webserver_config_scheme \<Rightarrow> option_item list" where
  "add_tls_mhd_options build c =
     (if cfg_use_ssl c then
        [text_option OPTION_HTTPS_MEM_KEY 0 (c_str (cfg_https_mem_key c)),
         text_option OPTION_HTTPS_MEM_CERT 0 (c_str (cfg_https_mem_cert c))] @
        only_if (cfg_https_mem_trust c \<noteq> []) (text_option OPTION_HTTPS_MEM_TRUST 0 (c_str (cfg_https_mem_trust c))) @
        only_if (cfg_https_priorities c \<noteq> []) (text_option OPTION_HTTPS_PRIORITIES 0 (c_str (cfg_https_priorities c)))
      else []) @
     only_if (have_dauth build \<and> cfg_digest_auth_random c \<noteq> [])
       (text_option OPTION_DIGEST_AUTH_RANDOM (int (length (cfg_digest_auth_random c))) (cfg_digest_auth_random c))"

fun cred_type_code :: "cred_type_T \<Rightarrow> int" where
  "cred_type_code CRED_NONE = - 1"
| "cred_type_code CERTIFICATE = 1"
| "cred_type_code ANON = 2"
| "cred_type_code SRP = 3"
| "cred_type_code PSK = 4"
| "cred_type_code IA = 5"

definition add_gnutls_mhd_options :: "build_flags \<Rightarrow> ('h, 'z) webserver_config_scheme \<Rightarrow> option_item list" where
  "add_gnutls_mhd_options build c =
     (if have_gnutls build then
        only_if (cfg_cred_type c \<noteq> CRED_NONE) (int_option OPTION_HTTPS_CRED_TYPE (cred_type_code (cfg_cred_type c))) @
        only_if (\<not> Option.is_none (cfg_psk_cred_handler c) \<and> cfg_use_ssl c)
          (OPTION_GNUTLS_PSK_CRED_HANDLER, Function_Value Cb_psk_cred_handler_func, Server_Pointer) @
        only_if (have_cert_callback build \<and> \<not> Option.is_none (cfg_sni_callback c) \<and> cfg_use_ssl c)
          (OPTION_HTTPS_CERT_CALLBACK, Function_Value Cb_sni_cert_callback_func, Server_Pointer)
      else [])"

definition add_extended_mhd_options :: "('h, 'z) webserver_config_scheme \<Rightarrow> option_item list" where
  "add_extended_mhd_options c =
     only_if (cfg_listen_backlog c > 0) (int_option OPTION_LISTEN_BACKLOG_SIZE (cfg_listen_backlog c)) @
     only_if (cfg_address_reuse c \<noteq> 0) (int_option OPTION_LISTENING_ADDRESS_REUSE (cfg_address_reuse c)) @
     only_if (cfg_connection_memory_increment c > 0)
       (int_option OPTION_CONNECTION_MEMORY_INCREMENT (int (cfg_connection_memory_increment c))) @
     only_if (cfg_tcp_fastopen_queue_size c > 0)
       (int_option OPTION_TCP_FASTOPEN_QUEUE_SIZE (cfg_tcp_fastopen_queue_size c)) @
     only_if (cfg_sigpipe_handled_by_app c) (int_option OPTION_SIGPIPE_HANDLED_BY_APP 1) @
     only_if (cfg_no_alpn c) (int_option OPTION_TLS_NO_ALPN 1) @
     only_if (cfg_client_discipline_level c \<ge> 0)
       (int_option OPTION_CLIENT_DISCIPLINE_LVL (cfg_client_discipline_level c))"

definition add_https_extra_options :: "('h, 'z) webserver_config_scheme \<Rightarrow> option_item list" where
  "add_https_extra_options c =
     only_if (cfg_https_mem_dhparams c \<noteq> []) (text_option OPTION_HTTPS_MEM_DHPARAMS 0 (c_str (cfg_https_mem_dhparams c))) @
     only_if (cfg_https_key_password c \<noteq> []) (text_option OPTION_HTTPS_KEY_PASSWORD 0 (c_str (cfg_https_key_password c))) @
     only_if (cfg_https_priorities_append c \<noteq> [])
       (text_option OPTION_HTTPS_PRIORITIES_APPEND 0 (c_str (cfg_https_priorities_append c)))"

definition build_mhd_option_array :: "build_flags \<Rightarrow> int \<Rightarrow> ('h, 'z) webserver_config_scheme \<Rightarrow> option_item list" where
  "build_mhd_option_array build bind_socket c =
     add_base_mhd_options build bind_socket c @ add_tls_mhd_options build c @ add_gnutls_mhd_options build c @
     add_extended_mhd_options c @ add_https_extra_options c @ [int_option OPTION_END 0]"

section \<open>Flags\<close>

datatype mhd_flag =
    USE_SELECT_INTERNALLY | USE_THREAD_PER_CONNECTION | USE_AUTO | USE_SSL | USE_IPv6 | USE_DUAL_STACK | USE_DEBUG
  | USE_PEDANTIC_CHECKS | USE_SUSPEND_RESUME | USE_NO_LISTEN_SOCKET | USE_NO_THREAD_SAFETY | USE_TURBO
  | USE_SUPPRESS_DATE_NO_CLOCK | ALLOW_UPGRADE | USE_TCP_FASTOPEN

fun start_method_flags :: "start_method_T \<Rightarrow> mhd_flag list" where
  "start_method_flags INTERNAL_SELECT = [USE_SELECT_INTERNALLY, USE_AUTO]"
| "start_method_flags THREAD_PER_CONNECTION = [USE_THREAD_PER_CONNECTION, USE_AUTO]"
| "start_method_flags EXTERNAL_SELECT = [USE_AUTO]"

definition compose_transport_flags :: "('h, 'z) webserver_config_scheme \<Rightarrow> mhd_flag list" where
  "compose_transport_flags c =
     only_if (cfg_use_ssl c) USE_SSL @ only_if (cfg_use_ipv6 c) USE_IPv6 @ only_if (cfg_use_dual_stack c) USE_DUAL_STACK"

definition compose_runtime_flags :: "build_flags \<Rightarrow> 'k ws_registry \<Rightarrow> ('h, 'z) webserver_config_scheme \<Rightarrow> mhd_flag list" where
  "compose_runtime_flags build reg c =
     only_if (cfg_debug c) USE_DEBUG @ only_if (cfg_pedantic c) USE_PEDANTIC_CHECKS @
     only_if (cfg_deferred_enabled c) USE_SUSPEND_RESUME @ only_if (cfg_no_listen_socket c) USE_NO_LISTEN_SOCKET @
     only_if (cfg_no_thread_safety c) USE_NO_THREAD_SAFETY @ only_if (cfg_turbo c) USE_TURBO @
     only_if (cfg_suppress_date_header c) USE_SUPPRESS_DATE_NO_CLOCK @
     only_if (have_websocket build \<and> \<not> List.null reg) ALLOW_UPGRADE"

definition compose_start_flags :: "build_flags \<Rightarrow> 'k ws_registry \<Rightarrow> ('h, 'z) webserver_config_scheme \<Rightarrow> mhd_flag list" where
  "compose_start_flags build reg c =
     start_method_flags (cfg_start_method c) @ compose_transport_flags c @ compose_runtime_flags build reg c @
     only_if (use_fastopen build) USE_TCP_FASTOPEN"

section \<open>The constructor\<close>

definition feature_unavailable :: "string \<Rightarrow> string \<Rightarrow> exn" where
  "feature_unavailable feature build_flag =
     runtime_error (''feature '' @ quoted feature @ '' unavailable: built without '' @ build_flag)"

text \<open>\<open>w\<close> is the world of the user's callbacks, \<open>opaque\<close> the random value the implementation draws.\<close>

definition make_webserver ::
    "build_flags \<Rightarrow> string \<Rightarrow> 'w \<Rightarrow> 'h webserver_config \<Rightarrow> ('h webserver \<times> ('re, 'u, 'h, 'w) denv) result" where
  "make_webserver build opaque w c =
     bind_result (normalize_auth_skip_paths (cfg_auth_skip_paths c)) (\<lambda>skip.
       if \<not> have_gnutls build \<and> cfg_use_ssl c then Inl (feature_unavailable ''tls'' ''HAVE_GNUTLS'')
       else if \<not> have_bauth build \<and> cfg_basic_auth_enabled c then Inl (feature_unavailable ''basic_auth'' ''HAVE_BAUTH'')
       else if \<not> have_dauth build \<and> cfg_digest_auth_enabled c then Inl (feature_unavailable ''digest_auth'' ''HAVE_DAUTH'')
       else
         (let ws = webserver_config.extend c (webserver.fields skip opaque);
              env = \<lparr>env_bus = empty_bus, env_tables = \<lambda>a. None, env_logging = \<not> Option.is_none (log_error c), env_log = [],
                     env_world = \<lparr>rc_server = make_server (cfg_single_resource c) (cfg_regex_checking c), rc_request = None,
                       rc_response = None, rc_world = w\<rparr>\<rparr>
          in bind_result (install_default_alias_hooks ws env) (\<lambda>e. Inr (ws, e))))"

section \<open>Starting and stopping\<close>

text \<open>The handle of the daemon, the flag and the socket the user bound; \<open>live\<close> are the daemons libmicrohttpd started
  and has not stopped.\<close>

record daemon_state =
  daemon :: "nat option"
  running :: bool
  pre_bound :: int
  live :: "nat list"

definition make_daemon_lifecycle :: "('h, 'z) webserver_config_scheme \<Rightarrow> daemon_state" where
  "make_daemon_lifecycle c =
     \<lparr>daemon = None, running = False,
      pre_bound = (if cfg_bind_socket c \<noteq> 0 then cfg_bind_socket c else MHD_INVALID_SOCKET), live = []\<rparr>"

text \<open>\<^verbatim>\<open>MHD_start_daemon\<close> gets the flags, the port, the options and the address, and gives a handle or null.\<close>

type_synonym mhd_start = "mhd_flag list \<Rightarrow> 16 word \<Rightarrow> option_item list \<Rightarrow> bind_pointer \<Rightarrow> nat option"

datatype start_outcome = Start_Throws exn | Start_Blocks | Start_Returns bool

definition start ::
    "build_flags \<Rightarrow> mhd_start \<Rightarrow> 'k ws_registry \<Rightarrow> ('h, 'z) webserver_config_scheme \<Rightarrow> bool \<Rightarrow> daemon_state
      \<Rightarrow> start_outcome \<times> daemon_state" where
  "start build mhd reg c blocking s =
     (if cfg_start_method c = THREAD_PER_CONNECTION \<and> (cfg_max_threads c \<noteq> 0 \<or> cfg_max_thread_stack_size c \<noteq> 0) then
        (Start_Throws (invalid_argument ''Cannot specify maximum number of threads when using a thread per connection''), s)
      else
        (let iov = build_mhd_option_array build (pre_bound s) c;
             start_conf = compose_start_flags build reg c;
             d = mhd start_conf (if cfg_bind_address c = Null_Address then cfg_port c else 1) iov (cfg_bind_address c)
         in case d of
              None \<Rightarrow>
                (Start_Throws (invalid_argument (''Unable to connect daemon to port: '' @ show_nat (unat (cfg_port c)))),
                 s\<lparr>daemon := None\<rparr>)
            | Some h \<Rightarrow>
                (if blocking then Start_Blocks else Start_Returns False,
                 s\<lparr>daemon := Some h, running := True, live := h # live s\<rparr>)))"

text \<open>\<^verbatim>\<open>stop\<close>: the result, the sockets it shuts down and the state; libmicrohttpd ignores a null handle.\<close>

definition stop :: "daemon_state \<Rightarrow> bool \<times> int list \<times> daemon_state" where
  "stop s =
     (if \<not> running s then (False, [], s)
      else
        (True, only_if (pre_bound s \<noteq> MHD_INVALID_SOCKET) (pre_bound s),
         s\<lparr>running := False, daemon := None,
           live := (case daemon s of None \<Rightarrow> live s | Some h \<Rightarrow> remove1 h (live s))\<rparr>))"

section \<open>Calls on a running daemon\<close>

text \<open>Every call goes through the published handle and has a value of its own when there is none.\<close>

definition on_daemon :: "'a \<Rightarrow> (nat \<Rightarrow> 'a) \<Rightarrow> daemon_state \<Rightarrow> 'a" where
  "on_daemon absent f s = (case daemon s of None \<Rightarrow> absent | Some h \<Rightarrow> f h)"

definition quiesce :: "(nat \<Rightarrow> int) \<Rightarrow> daemon_state \<Rightarrow> int" where
  "quiesce mhd_quiesce s = on_daemon (- 1) mhd_quiesce s"

definition get_listen_fd :: "(nat \<Rightarrow> int option) \<Rightarrow> daemon_state \<Rightarrow> int" where
  "get_listen_fd info s = on_daemon (- 1) (\<lambda>h. case info h of None \<Rightarrow> - 1 | Some fd \<Rightarrow> fd) s"

definition get_active_connections :: "(nat \<Rightarrow> 32 word option) \<Rightarrow> daemon_state \<Rightarrow> 32 word" where
  "get_active_connections info s = on_daemon 0 (\<lambda>h. case info h of None \<Rightarrow> 0 | Some n \<Rightarrow> n) s"

definition get_bound_port :: "(nat \<Rightarrow> 16 word option) \<Rightarrow> daemon_state \<Rightarrow> 16 word" where
  "get_bound_port info s = on_daemon 0 (\<lambda>h. case info h of None \<Rightarrow> 0 | Some p \<Rightarrow> p) s"

definition run_daemon :: "(nat \<Rightarrow> bool) \<Rightarrow> daemon_state \<Rightarrow> bool" where
  "run_daemon mhd_run s = on_daemon False mhd_run s"

definition run_wait :: "(nat \<Rightarrow> 32 word \<Rightarrow> bool) \<Rightarrow> 32 word \<Rightarrow> daemon_state \<Rightarrow> bool" where
  "run_wait mhd_run_wait millisec s = on_daemon False (\<lambda>h. mhd_run_wait h millisec) s"

definition add_connection :: "(nat \<Rightarrow> int \<Rightarrow> 'addr \<Rightarrow> 32 word \<Rightarrow> bool) \<Rightarrow> int \<Rightarrow> 'addr \<Rightarrow> 32 word \<Rightarrow> daemon_state \<Rightarrow> bool" where
  "add_connection mhd_add client_socket addr addrlen s = on_daemon False (\<lambda>h. mhd_add h client_socket addr addrlen) s"

text \<open>The two calls with an output parameter leave it alone unless libmicrohttpd answers.\<close>

definition get_fdset :: "(nat \<Rightarrow> int option) \<Rightarrow> int \<Rightarrow> daemon_state \<Rightarrow> bool \<times> int" where
  "get_fdset mhd max_fd s =
     on_daemon (False, max_fd) (\<lambda>h. case mhd h of None \<Rightarrow> (False, max_fd) | Some fd \<Rightarrow> (True, fd)) s"

definition get_timeout :: "(nat \<Rightarrow> 64 word option) \<Rightarrow> 64 word \<Rightarrow> daemon_state \<Rightarrow> bool \<times> 64 word" where
  "get_timeout mhd timeout s =
     on_daemon (False, timeout) (\<lambda>h. case mhd h of None \<Rightarrow> (False, timeout) | Some t \<Rightarrow> (True, t)) s"

section \<open>The handshake of a blocking start\<close>

text \<open>The thread inside a blocking \<^verbatim>\<open>start\<close> after it set the flag, and threads that call \<^verbatim>\<open>stop\<close>.  A step is one access
  to the flag, the mutex, the condition variable or the published handle; waiting releases the mutex and a wake-up, which may
  be spurious, has to take it again.  \<open>hs_daemon\<close> tells whether the handle is published, \<open>hs_stops\<close> how often
  libmicrohttpd was asked to stop it; it ignores a null handle.\<close>

datatype starter_pc = S_Lock | S_Test | S_Waiting | S_Woken | S_Unlock | S_Done
datatype stopper_pc = P_Idle | P_Lock | P_Write | P_Signal | P_Unlock | P_Load | P_Stop bool | P_Store | P_Done bool

datatype thread = Starter | Stopper nat

record handshake =
  hs_running :: bool
  hs_owner :: "thread option"
  hs_starter :: starter_pc
  hs_stopper :: "nat \<Rightarrow> stopper_pc"
  hs_daemon :: bool
  hs_stops :: nat

inductive starter_step :: "handshake \<Rightarrow> handshake \<Rightarrow> bool" where
  s_lock: "hs_starter s = S_Lock \<Longrightarrow> hs_owner s = None \<Longrightarrow>
    starter_step s (s\<lparr>hs_owner := Some Starter, hs_starter := S_Test\<rparr>)"
| s_wait: "hs_starter s = S_Test \<Longrightarrow> hs_running s \<Longrightarrow> starter_step s (s\<lparr>hs_owner := None, hs_starter := S_Waiting\<rparr>)"
| s_leave: "hs_starter s = S_Test \<Longrightarrow> \<not> hs_running s \<Longrightarrow> starter_step s (s\<lparr>hs_starter := S_Unlock\<rparr>)"
| s_retake: "hs_starter s = S_Woken \<Longrightarrow> hs_owner s = None \<Longrightarrow>
    starter_step s (s\<lparr>hs_owner := Some Starter, hs_starter := S_Test\<rparr>)"
| s_unlock: "hs_starter s = S_Unlock \<Longrightarrow> starter_step s (s\<lparr>hs_owner := None, hs_starter := S_Done\<rparr>)"

inductive stopper_step :: "nat \<Rightarrow> handshake \<Rightarrow> handshake \<Rightarrow> bool" where
  p_test: "hs_stopper s i = P_Idle \<Longrightarrow>
    stopper_step i s (s\<lparr>hs_stopper := (hs_stopper s)(i := if hs_running s then P_Lock else P_Done False)\<rparr>)"
| p_lock: "hs_stopper s i = P_Lock \<Longrightarrow> hs_owner s = None \<Longrightarrow>
    stopper_step i s (s\<lparr>hs_owner := Some (Stopper i), hs_stopper := (hs_stopper s)(i := P_Write)\<rparr>)"
| p_write: "hs_stopper s i = P_Write \<Longrightarrow>
    stopper_step i s (s\<lparr>hs_running := False, hs_stopper := (hs_stopper s)(i := P_Signal)\<rparr>)"
| p_signal: "hs_stopper s i = P_Signal \<Longrightarrow>
    stopper_step i s (s\<lparr>hs_starter := (if hs_starter s = S_Waiting then S_Woken else hs_starter s),
      hs_stopper := (hs_stopper s)(i := P_Unlock)\<rparr>)"
| p_unlock: "hs_stopper s i = P_Unlock \<Longrightarrow>
    stopper_step i s (s\<lparr>hs_owner := None, hs_stopper := (hs_stopper s)(i := P_Load)\<rparr>)"
| p_load: "hs_stopper s i = P_Load \<Longrightarrow> stopper_step i s (s\<lparr>hs_stopper := (hs_stopper s)(i := P_Stop (hs_daemon s))\<rparr>)"
| p_stop: "hs_stopper s i = P_Stop h \<Longrightarrow>
    stopper_step i s (s\<lparr>hs_stopper := (hs_stopper s)(i := P_Store), hs_stops := (if h then Suc (hs_stops s) else hs_stops s)\<rparr>)"
| p_store: "hs_stopper s i = P_Store \<Longrightarrow>
    stopper_step i s (s\<lparr>hs_stopper := (hs_stopper s)(i := P_Done True), hs_daemon := False\<rparr>)"

inductive handshake_step :: "handshake \<Rightarrow> handshake \<Rightarrow> bool" where
  starter: "starter_step s t \<Longrightarrow> handshake_step s t"
| stopper: "stopper_step i s t \<Longrightarrow> handshake_step s t"
| spurious: "hs_starter s = S_Waiting \<Longrightarrow> handshake_step s (s\<lparr>hs_starter := S_Woken\<rparr>)"

definition handshake_start :: handshake where
  "handshake_start =
     \<lparr>hs_running = True, hs_owner = None, hs_starter = S_Lock, hs_stopper = \<lambda>i. P_Idle, hs_daemon = True,
      hs_stops = 0\<rparr>"

section \<open>The options are well formed\<close>

definition value_ok :: "option_item \<Rightarrow> bool" where
  "value_ok item = (case fst (snd item) of Int_Value v \<Rightarrow> 0 \<le> v | Function_Value f \<Rightarrow> True)"

lemma cred_type_code_ok: "t \<noteq> CRED_NONE \<Longrightarrow> 0 \<le> cred_type_code t"
  by (cases t) simp_all

lemmas option_defs = add_base_mhd_options_def add_tls_mhd_options_def add_gnutls_mhd_options_def
  add_extended_mhd_options_def add_https_extra_options_def

text \<open>The codes in the order the builders push them; an array has a subsequence of them.\<close>

definition option_order :: "mhd_option list" where
  "option_order =
     [OPTION_NOTIFY_COMPLETED, OPTION_NOTIFY_CONNECTION, OPTION_URI_LOG_CALLBACK, OPTION_EXTERNAL_LOGGER,
      OPTION_UNESCAPE_CALLBACK, OPTION_CONNECTION_TIMEOUT, OPTION_LISTEN_SOCKET, OPTION_THREAD_POOL_SIZE,
      OPTION_CONNECTION_LIMIT, OPTION_CONNECTION_MEMORY_LIMIT, OPTION_PER_IP_CONNECTION_LIMIT,
      OPTION_THREAD_STACK_SIZE, OPTION_NONCE_NC_SIZE, OPTION_HTTPS_MEM_KEY, OPTION_HTTPS_MEM_CERT,
      OPTION_HTTPS_MEM_TRUST, OPTION_HTTPS_PRIORITIES, OPTION_DIGEST_AUTH_RANDOM, OPTION_HTTPS_CRED_TYPE,
      OPTION_GNUTLS_PSK_CRED_HANDLER, OPTION_HTTPS_CERT_CALLBACK, OPTION_LISTEN_BACKLOG_SIZE,
      OPTION_LISTENING_ADDRESS_REUSE, OPTION_CONNECTION_MEMORY_INCREMENT, OPTION_TCP_FASTOPEN_QUEUE_SIZE,
      OPTION_SIGPIPE_HANDLED_BY_APP, OPTION_TLS_NO_ALPN, OPTION_CLIENT_DISCIPLINE_LVL, OPTION_HTTPS_MEM_DHPARAMS,
      OPTION_HTTPS_KEY_PASSWORD, OPTION_HTTPS_PRIORITIES_APPEND, OPTION_END]"

lemma map_only_if: "map f (only_if b x) = only_if b (f x)"
  by (simp add: only_if_def)

lemma subseq_only_if: "subseq xs ys \<Longrightarrow> subseq (only_if b x @ xs) (x # ys)"
  by (auto simp: only_if_def)

lemma subseq_distinct:
  assumes "subseq xs ys" "distinct ys"
  shows "distinct xs"
  using assms
proof (induction rule: list_emb.induct)
  case (list_emb_Cons2 x y xs ys)
  then have "set xs \<subseteq> set ys" by (auto dest: list_emb_set)
  with list_emb_Cons2 show ?case by auto
qed simp_all

lemma options_ordered: "subseq (map fst (build_mhd_option_array build sk c)) option_order"
proof -
  have base: "subseq (map fst (add_base_mhd_options build sk c) @ xs) (take 13 option_order @ ys)" if "subseq xs ys" for xs ys
    using that by (simp add: add_base_mhd_options_def option_order_def map_only_if subseq_only_if)
  have tls: "subseq (map fst (add_tls_mhd_options build c) @ xs)
      ([OPTION_HTTPS_MEM_KEY, OPTION_HTTPS_MEM_CERT, OPTION_HTTPS_MEM_TRUST, OPTION_HTTPS_PRIORITIES, OPTION_DIGEST_AUTH_RANDOM] @ ys)"
    if "subseq xs ys" for xs ys
  proof -
    have "subseq (only_if d OPTION_DIGEST_AUTH_RANDOM @ xs) (OPTION_DIGEST_AUTH_RANDOM # ys)" for d
      using that by (rule subseq_only_if)
    then show ?thesis
      by (simp add: add_tls_mhd_options_def map_only_if subseq_only_if list_emb_Cons)
  qed
  have gnutls: "subseq (map fst (add_gnutls_mhd_options build c) @ xs)
      ([OPTION_HTTPS_CRED_TYPE, OPTION_GNUTLS_PSK_CRED_HANDLER, OPTION_HTTPS_CERT_CALLBACK] @ ys)" if "subseq xs ys" for xs ys
    using that by (simp add: add_gnutls_mhd_options_def map_only_if subseq_only_if list_emb_Cons)
  have ext: "subseq (map fst (add_extended_mhd_options c) @ xs)
      ([OPTION_LISTEN_BACKLOG_SIZE, OPTION_LISTENING_ADDRESS_REUSE, OPTION_CONNECTION_MEMORY_INCREMENT,
        OPTION_TCP_FASTOPEN_QUEUE_SIZE, OPTION_SIGPIPE_HANDLED_BY_APP, OPTION_TLS_NO_ALPN, OPTION_CLIENT_DISCIPLINE_LVL] @ ys)"
    if "subseq xs ys" for xs ys
    using that by (simp add: add_extended_mhd_options_def map_only_if subseq_only_if)
  have extra: "subseq (map fst (add_https_extra_options c) @ xs)
      ([OPTION_HTTPS_MEM_DHPARAMS, OPTION_HTTPS_KEY_PASSWORD, OPTION_HTTPS_PRIORITIES_APPEND] @ ys)" if "subseq xs ys" for xs ys
    using that by (simp add: add_https_extra_options_def map_only_if subseq_only_if)
  have "subseq (map fst (build_mhd_option_array build sk c))
    (take 13 option_order @ [OPTION_HTTPS_MEM_KEY, OPTION_HTTPS_MEM_CERT, OPTION_HTTPS_MEM_TRUST, OPTION_HTTPS_PRIORITIES,
      OPTION_DIGEST_AUTH_RANDOM] @ [OPTION_HTTPS_CRED_TYPE, OPTION_GNUTLS_PSK_CRED_HANDLER, OPTION_HTTPS_CERT_CALLBACK] @
      [OPTION_LISTEN_BACKLOG_SIZE, OPTION_LISTENING_ADDRESS_REUSE, OPTION_CONNECTION_MEMORY_INCREMENT,
        OPTION_TCP_FASTOPEN_QUEUE_SIZE, OPTION_SIGPIPE_HANDLED_BY_APP, OPTION_TLS_NO_ALPN, OPTION_CLIENT_DISCIPLINE_LVL] @
      [OPTION_HTTPS_MEM_DHPARAMS, OPTION_HTTPS_KEY_PASSWORD, OPTION_HTTPS_PRIORITIES_APPEND] @ [OPTION_END])"
    unfolding build_mhd_option_array_def map_append by (intro base tls gnutls ext extra) simp
  then show ?thesis by (simp add: option_order_def)
qed

lemma options_nonnegative:
  assumes "config_ok c"
  shows "list_all (\<lambda>item. fst item \<noteq> OPTION_LISTEN_SOCKET \<longrightarrow> value_ok item) (build_mhd_option_array build sk c)"
proof -
  have "list_all (\<lambda>item. fst item \<noteq> OPTION_LISTEN_SOCKET \<longrightarrow> value_ok item) (add_base_mhd_options build sk c)"
    using assms by (simp add: option_defs only_if_def value_ok_def config_ok_def)
  moreover have "list_all value_ok (add_tls_mhd_options build c)"
    by (simp add: option_defs only_if_def value_ok_def)
  moreover have "list_all value_ok (add_gnutls_mhd_options build c)"
    by (simp add: option_defs only_if_def value_ok_def cred_type_code_ok)
  moreover have "list_all value_ok (add_extended_mhd_options c)"
    using assms by (simp add: option_defs only_if_def value_ok_def config_ok_def)
  moreover have "list_all value_ok (add_https_extra_options c)"
    by (simp add: option_defs only_if_def value_ok_def)
  ultimately show ?thesis by (auto simp: build_mhd_option_array_def value_ok_def list_all_iff)
qed

section \<open>The handshake cannot lose a wake-up\<close>

definition holds_mutex :: "stopper_pc \<Rightarrow> bool" where
  "holds_mutex p = (case p of P_Write \<Rightarrow> True | P_Signal \<Rightarrow> True | P_Unlock \<Rightarrow> True | _ \<Rightarrow> False)"

definition wrote_flag :: "stopper_pc \<Rightarrow> bool" where
  "wrote_flag p = (case p of P_Signal \<Rightarrow> True | P_Unlock \<Rightarrow> True | P_Load \<Rightarrow> True | P_Stop h \<Rightarrow> True
    | P_Store \<Rightarrow> True | P_Done r \<Rightarrow> True | _ \<Rightarrow> False)"

definition handshake_inv :: "handshake \<Rightarrow> bool" where
  "handshake_inv s \<longleftrightarrow>
     (hs_owner s = Some Starter \<longleftrightarrow> hs_starter s = S_Test \<or> hs_starter s = S_Unlock) \<and>
     (\<forall>i. hs_owner s = Some (Stopper i) \<longleftrightarrow> holds_mutex (hs_stopper s i)) \<and>
     (\<forall>i. wrote_flag (hs_stopper s i) \<longrightarrow> \<not> hs_running s) \<and>
     (hs_starter s = S_Waiting \<longrightarrow> hs_running s \<or> (\<exists>i. hs_stopper s i = P_Signal)) \<and>
     (hs_starter s = S_Unlock \<longrightarrow> \<not> hs_running s)"

lemma handshake_inv_start: "handshake_inv handshake_start"
  by (simp add: handshake_inv_def handshake_start_def holds_mutex_def wrote_flag_def)

lemma handshake_invI:
  assumes "hs_owner s = Some Starter \<longleftrightarrow> hs_starter s = S_Test \<or> hs_starter s = S_Unlock"
    "\<And>i. hs_owner s = Some (Stopper i) \<longleftrightarrow> holds_mutex (hs_stopper s i)"
    "\<And>i. wrote_flag (hs_stopper s i) \<Longrightarrow> \<not> hs_running s"
    "hs_starter s = S_Waiting \<Longrightarrow> hs_running s \<or> (\<exists>i. hs_stopper s i = P_Signal)"
    "hs_starter s = S_Unlock \<Longrightarrow> \<not> hs_running s"
  shows "handshake_inv s"
  using assms by (simp add: handshake_inv_def)

lemma handshake_invD:
  assumes "handshake_inv s"
  shows "hs_owner s = Some Starter \<longleftrightarrow> hs_starter s = S_Test \<or> hs_starter s = S_Unlock"
    "hs_owner s = Some (Stopper i) \<longleftrightarrow> holds_mutex (hs_stopper s i)"
    "wrote_flag (hs_stopper s i) \<Longrightarrow> \<not> hs_running s"
    "hs_starter s = S_Waiting \<Longrightarrow> hs_running s \<or> (\<exists>i. hs_stopper s i = P_Signal)"
    "hs_starter s = S_Unlock \<Longrightarrow> \<not> hs_running s"
  using assms unfolding handshake_inv_def by blast+

lemma starter_step_inv: "starter_step s t \<Longrightarrow> handshake_inv s \<Longrightarrow> handshake_inv t"
  by (induction rule: starter_step.induct) (auto simp: handshake_inv_def)

lemma stopper_moves:
  assumes inv: "handshake_inv s"
    and t: "t = s\<lparr>hs_running := r, hs_owner := w, hs_starter := st, hs_stopper := (hs_stopper s)(i := p), hs_daemon := d, hs_stops := n\<rparr>"
    and "w = Some Starter \<longleftrightarrow> st = S_Test \<or> st = S_Unlock" "w = Some (Stopper i) \<longleftrightarrow> holds_mutex p"
    "\<And>j. j \<noteq> i \<Longrightarrow> w = Some (Stopper j) \<longleftrightarrow> hs_owner s = Some (Stopper j)"
    "r \<Longrightarrow> hs_running s" "wrote_flag p \<Longrightarrow> \<not> r"
    "st = S_Waiting \<Longrightarrow> hs_starter s = S_Waiting \<and> (r \<or> p = P_Signal \<or> hs_stopper s i \<noteq> P_Signal \<and> \<not> hs_running s)"
    "st = S_Unlock \<Longrightarrow> hs_starter s = S_Unlock"
  shows "handshake_inv t"
proof (rule handshake_invI)
  note D = handshake_invD [OF inv]
  show "hs_owner t = Some Starter \<longleftrightarrow> hs_starter t = S_Test \<or> hs_starter t = S_Unlock" using assms(3) t by simp
  show "hs_owner t = Some (Stopper j) \<longleftrightarrow> holds_mutex (hs_stopper t j)" for j
    using assms(4,5) D(2) t by (cases "j = i") simp_all
  show "\<not> hs_running t" if "wrote_flag (hs_stopper t j)" for j
    using that assms(6,7) D(3) [of j] t by (cases "j = i") auto
  show "\<not> hs_running t" if "hs_starter t = S_Unlock" using that assms(6,9) D(5) t by auto
  assume "hs_starter t = S_Waiting"
  then have st: "st = S_Waiting" using t by simp
  show "hs_running t \<or> (\<exists>j. hs_stopper t j = P_Signal)"
  proof (cases "r \<or> p = P_Signal")
    case True
    then show ?thesis using t by auto
  next
    case False
    then obtain j where "hs_stopper s j = P_Signal" "hs_stopper s i \<noteq> P_Signal" using assms(8) [OF st] D(4) by blast
    then show ?thesis using t by (intro disjI2 exI [of _ j]) auto
  qed
qed

lemma stopper_step_inv:
  assumes "stopper_step i s t" "handshake_inv s"
  shows "handshake_inv t"
  using assms(1) handshake_invD(1,5) [OF assms(2)] handshake_invD(2,3) [OF assms(2), of i]
  by cases ((rule stopper_moves [OF assms(2), where r = "hs_running t" and w = "hs_owner t" and st = "hs_starter t" and i = i
      and p = "hs_stopper t i" and d = "hs_daemon t" and n = "hs_stops t"];
    auto simp: holds_mutex_def wrote_flag_def split: if_splits)+)

lemma handshake_step_inv:
  assumes "handshake_step s t" "handshake_inv s"
  shows "handshake_inv t"
  using assms(1)
proof cases
  case starter
  then show ?thesis using starter_step_inv assms(2) by blast
next
  case (stopper i)
  then show ?thesis using stopper_step_inv assms(2) by blast
next
  case spurious
  then show ?thesis using assms(2) by (simp add: handshake_inv_def)
qed

lemma handshake_reachable: "handshake_step\<^sup>*\<^sup>* handshake_start s \<Longrightarrow> handshake_inv s"
  by (induction rule: rtranclp_induct) (auto intro: handshake_inv_start handshake_step_inv)

text \<open>Once the flag is false and no thread in \<^verbatim>\<open>stop\<close> has the mutex, the starter runs to its end.\<close>

lemma starter_finishes:
  assumes "handshake_inv s" "\<not> hs_running s" "\<forall>i. \<not> holds_mutex (hs_stopper s i)"
  shows "\<exists>t. starter_step\<^sup>*\<^sup>* s t \<and> hs_starter t = S_Done"
proof -
  have no_signal: "hs_stopper s i \<noteq> P_Signal" for i using assms(3) by (metis holds_mutex_def stopper_pc.case(4))
  have owner: "hs_owner s = None" if "hs_starter s \<noteq> S_Test" "hs_starter s \<noteq> S_Unlock"
  proof (cases "hs_owner s")
    case (Some x)
    then show ?thesis using handshake_invD(1,2) [OF assms(1)] assms(3) that by (cases x) auto
  qed simp
  have unlock: "\<exists>t. starter_step\<^sup>*\<^sup>* u t \<and> hs_starter t = S_Done" if "hs_starter u = S_Unlock" for u
    using starter_step.s_unlock [OF that] by (intro exI [of _ "u\<lparr>hs_owner := None, hs_starter := S_Done\<rparr>"]) auto
  have test: "\<exists>t. starter_step\<^sup>*\<^sup>* u t \<and> hs_starter t = S_Done" if "hs_starter u = S_Test" "\<not> hs_running u" for u
    using starter_step.s_leave [OF that] unlock [of "u\<lparr>hs_starter := S_Unlock\<rparr>"]
    by (auto intro: converse_rtranclp_into_rtranclp)
  show ?thesis
  proof (cases "hs_starter s")
    case S_Lock
    from starter_step.s_lock [OF S_Lock] owner S_Lock test [of "s\<lparr>hs_owner := Some Starter, hs_starter := S_Test\<rparr>"] assms(2)
    show ?thesis by (auto intro: converse_rtranclp_into_rtranclp)
  next
    case S_Woken
    from starter_step.s_retake [OF S_Woken] owner S_Woken test [of "s\<lparr>hs_owner := Some Starter, hs_starter := S_Test\<rparr>"] assms(2)
    show ?thesis by (auto intro: converse_rtranclp_into_rtranclp)
  next
    case S_Waiting
    then show ?thesis using assms(1,2) no_signal by (auto simp: handshake_inv_def)
  qed (use test unlock assms(2) in auto)
qed

lemma handshake_trans: "handshake_step\<^sup>*\<^sup>* a b \<Longrightarrow> handshake_step\<^sup>*\<^sup>* b c \<Longrightarrow> handshake_step\<^sup>*\<^sup>* a c"
  by (rule rtranclp_trans)

lemma stopper_stepI: "stopper_step i s t \<Longrightarrow> handshake_step\<^sup>*\<^sup>* s t"
  by (blast intro: handshake_step.stopper)

lemma starter_steps: "starter_step\<^sup>*\<^sup>* s t \<Longrightarrow> handshake_step\<^sup>*\<^sup>* s t"
  by (induction rule: rtranclp_induct) (auto intro: handshake_step.starter rtranclp.rtrancl_into_rtrancl)

text \<open>A thread in \<^verbatim>\<open>stop\<close> that has the mutex can always go on and give it back.\<close>

definition released_by :: "nat \<Rightarrow> handshake \<Rightarrow> handshake \<Rightarrow> bool" where
  "released_by i s t \<longleftrightarrow> handshake_step\<^sup>*\<^sup>* s t \<and> hs_owner t = None \<and> hs_stops t = hs_stops s \<and>
    hs_daemon t = hs_daemon s \<and> hs_stopper t = (hs_stopper s)(i := P_Load)"

lemma released_by_step:
  assumes "stopper_step i s u" "released_by i u t" "hs_stops u = hs_stops s" "hs_daemon u = hs_daemon s"
    "hs_stopper u = (hs_stopper s)(i := p)"
  shows "released_by i s t"
  using assms handshake_trans [OF stopper_stepI [OF assms(1)]] by (simp add: released_by_def)

lemma unlock_released:
  assumes "hs_stopper s i = P_Unlock"
  shows "\<exists>t. released_by i s t \<and> hs_running t = hs_running s"
  using stopper_stepI [OF stopper_step.p_unlock [OF assms]]
  by (intro exI [of _ "s\<lparr>hs_owner := None, hs_stopper := (hs_stopper s)(i := P_Load)\<rparr>"]) (simp add: released_by_def)

lemma signal_released:
  assumes "hs_stopper s i = P_Signal"
  shows "\<exists>t. released_by i s t \<and> hs_running t = hs_running s"
proof -
  obtain u where u: "stopper_step i s u" "hs_running u = hs_running s" "hs_stops u = hs_stops s" "hs_daemon u = hs_daemon s"
    "hs_stopper u = (hs_stopper s)(i := P_Unlock)" using stopper_step.p_signal [OF assms] by fastforce
  then show ?thesis using unlock_released [of u i] released_by_step [OF u(1) _ u(3-5)] by auto
qed

lemma write_released:
  assumes "hs_stopper s i = P_Write"
  shows "\<exists>t. released_by i s t \<and> \<not> hs_running t"
proof -
  obtain u where u: "stopper_step i s u" "\<not> hs_running u" "hs_stops u = hs_stops s" "hs_daemon u = hs_daemon s"
    "hs_stopper u = (hs_stopper s)(i := P_Signal)" using stopper_step.p_write [OF assms] by fastforce
  then show ?thesis using signal_released [of u i] released_by_step [OF u(1) _ u(3-5)] by auto
qed

lemma lock_released:
  assumes "hs_stopper s i = P_Lock" "hs_owner s = None"
  shows "\<exists>t. released_by i s t"
proof -
  obtain u where u: "stopper_step i s u" "hs_stops u = hs_stops s" "hs_daemon u = hs_daemon s"
    "hs_stopper u = (hs_stopper s)(i := P_Write)"
    using stopper_step.p_lock [OF assms] by fastforce
  then show ?thesis using write_released [of u i] released_by_step [OF u(1) _ u(2-4)] by auto
qed

lemma load_step:
  assumes "hs_stopper s i = P_Load"
  shows "\<exists>t. handshake_step\<^sup>*\<^sup>* s t \<and> hs_stopper t = (hs_stopper s)(i := P_Stop (hs_daemon s)) \<and> hs_stops t = hs_stops s"
  using stopper_stepI [OF stopper_step.p_load [OF assms]] by fastforce

lemma stop_step:
  assumes "hs_stopper s i = P_Stop True"
  shows "\<exists>t. handshake_step\<^sup>*\<^sup>* s t \<and> hs_stopper t = (hs_stopper s)(i := P_Store) \<and> hs_stops t = Suc (hs_stops s)"
  using stopper_stepI [OF stopper_step.p_stop [OF assms]] by fastforce

lemma store_step:
  assumes "hs_stopper s i = P_Store"
  shows "\<exists>t. handshake_step\<^sup>*\<^sup>* s t \<and> hs_stopper t = (hs_stopper s)(i := P_Done True)"
  using stopper_stepI [OF stopper_step.p_store [OF assms]] by fastforce

text \<open>Two threads can both have seen the flag, before either took the mutex.\<close>

lemma two_in_stop:
  "\<exists>s. handshake_step\<^sup>*\<^sup>* handshake_start s \<and> hs_stopper s 0 = P_Lock \<and> hs_stopper s 1 = P_Lock \<and> hs_owner s = None \<and>
     hs_daemon s \<and> hs_stops s = 0"
proof -
  let ?a = "handshake_start\<lparr>hs_stopper := (hs_stopper handshake_start)(0 := P_Lock)\<rparr>"
  let ?b = "?a\<lparr>hs_stopper := (hs_stopper ?a)(1 := P_Lock)\<rparr>"
  have "handshake_step\<^sup>*\<^sup>* handshake_start ?a"
    using stopper_stepI [OF stopper_step.p_test [of handshake_start 0]] by (simp add: handshake_start_def)
  moreover have "handshake_step\<^sup>*\<^sup>* ?a ?b"
    using stopper_stepI [OF stopper_step.p_test [of ?a 1]] by (simp add: handshake_start_def)
  ultimately have "handshake_step\<^sup>*\<^sup>* handshake_start ?b" by (rule handshake_trans)
  then show ?thesis by (intro exI [of _ ?b]) (simp add: handshake_start_def)
qed

lemma mutex_given_back:
  assumes "holds_mutex (hs_stopper s j)" "\<not> hs_running s"
  shows "\<exists>t. handshake_step\<^sup>*\<^sup>* s t \<and> hs_owner t = None \<and> \<not> hs_running t"
proof -
  have "\<exists>t. released_by j s t \<and> \<not> hs_running t"
    using assms write_released [of s j] signal_released [of s j] unlock_released [of s j]
    by (cases "hs_stopper s j") (auto simp: holds_mutex_def)
  then show ?thesis by (auto simp: released_by_def)
qed

lemma starter_can_finish:
  assumes "handshake_step\<^sup>*\<^sup>* handshake_start s" "\<not> hs_running s"
  shows "\<exists>t. handshake_step\<^sup>*\<^sup>* s t \<and> hs_starter t = S_Done"
proof -
  obtain u where u: "handshake_step\<^sup>*\<^sup>* s u" "\<not> hs_running u" "\<forall>j. \<not> holds_mutex (hs_stopper u j)"
  proof (cases "\<exists>j. holds_mutex (hs_stopper s j)")
    case True
    then obtain t where t: "handshake_step\<^sup>*\<^sup>* s t" "hs_owner t = None" "\<not> hs_running t" using mutex_given_back assms(2) by blast
    have "\<not> holds_mutex (hs_stopper t j)" for j
      using handshake_invD(2) [OF handshake_reachable [OF handshake_trans [OF assms(1) t(1)]], of j] t(2) by simp
    then show ?thesis using that t by blast
  qed (use that assms in auto)
  have "handshake_inv u" by (rule handshake_reachable [OF handshake_trans [OF assms(1) u(1)]])
  from starter_finishes [OF this u(2,3)] show ?thesis using handshake_trans [OF u(1)] starter_steps by blast
qed

section \<open>Properties\<close>

text \<open>C15: A blocking \<^verbatim>\<open>start\<close> comes back after a \<^verbatim>\<open>stop\<close>, in every interleaving of the thread that started the server with
  any number of threads that stop it: the signal is never lost, so while the starter sleeps after the
  flag was cleared some stopping thread is about to signal, and from every state a returned \<^verbatim>\<open>stop\<close> has left
  the starter can run to its end.\<close>

theorem blocking_start_returns_after_stop:
  assumes "handshake_step\<^sup>*\<^sup>* handshake_start s" "hs_stopper s i = P_Done True"
  shows "(hs_starter s = S_Waiting \<longrightarrow> (\<exists>j. hs_stopper s j = P_Signal)) \<and>
    (\<exists>t. handshake_step\<^sup>*\<^sup>* s t \<and> hs_starter t = S_Done)"
proof -
  have inv: "handshake_inv s" by (rule handshake_reachable [OF assms(1)])
  have stopped: "\<not> hs_running s"
    using handshake_invD(3) [OF inv, of i] assms(2) by (simp add: wrote_flag_def)
  show ?thesis
    using handshake_invD(4) [OF inv] stopped starter_can_finish [OF assms(1) stopped] by blast
qed

theorem blocking_start_returns_after_stop_witness:
  "\<exists>s t. handshake_step\<^sup>*\<^sup>* handshake_start s \<and> hs_stopper s 0 = P_Done True \<and> handshake_step\<^sup>*\<^sup>* s t \<and> hs_starter t = S_Done"
proof -
  obtain a where a: "handshake_step\<^sup>*\<^sup>* handshake_start a" "hs_stopper a 0 = P_Lock" "hs_owner a = None" "hs_daemon a"
    using two_in_stop by blast
  obtain b where b: "handshake_step\<^sup>*\<^sup>* a b" "hs_stopper b 0 = P_Load" "hs_daemon b"
    using lock_released [OF a(2,3)] a(4) by (auto simp: released_by_def)
  obtain c where c: "handshake_step\<^sup>*\<^sup>* b c" "hs_stopper c 0 = P_Stop True" using load_step [OF b(2)] b(3) by auto
  obtain d where d: "handshake_step\<^sup>*\<^sup>* c d" "hs_stopper d 0 = P_Store" using stop_step [OF c(2)] by auto
  obtain e where e: "handshake_step\<^sup>*\<^sup>* d e" "hs_stopper e 0 = P_Done True" using store_step [OF d(2)] by auto
  have run: "handshake_step\<^sup>*\<^sup>* handshake_start e"
    using handshake_trans [OF handshake_trans [OF handshake_trans [OF handshake_trans [OF a(1) b(1)] c(1)] d(1)] e(1)] .
  from blocking_start_returns_after_stop [OF run e(2)] run e(2) show ?thesis by blast
qed

text \<open>C40: Two threads in \<^verbatim>\<open>stop\<close> can both hand the same live daemon to libmicrohttpd: the flag is tested before the
  mutex is taken and not again under it, and the handle is read and cleared in two accesses outside it.\<close>

theorem concurrent_stops_stop_twice:
  "\<exists>s. handshake_step\<^sup>*\<^sup>* handshake_start s \<and> hs_stops s = 2"
proof -
  obtain a where a: "handshake_step\<^sup>*\<^sup>* handshake_start a" "hs_stopper a 0 = P_Lock" "hs_stopper a 1 = P_Lock"
    "hs_owner a = None" "hs_daemon a" "hs_stops a = 0" using two_in_stop by blast
  obtain b where b: "handshake_step\<^sup>*\<^sup>* a b" "hs_stopper b 0 = P_Load" "hs_stopper b 1 = P_Lock" "hs_owner b = None"
    "hs_daemon b" "hs_stops b = 0" using lock_released [OF a(2,4)] a(3,5,6) by (auto simp: released_by_def)
  obtain c where c: "handshake_step\<^sup>*\<^sup>* b c" "hs_stopper c 0 = P_Load" "hs_stopper c 1 = P_Load" "hs_daemon c" "hs_stops c = 0"
    using lock_released [OF b(3,4)] b(2,5,6) by (auto simp: released_by_def)
  obtain d where d: "handshake_step\<^sup>*\<^sup>* c d" "hs_stopper d = (hs_stopper c)(0 := P_Stop True)" "hs_stops d = 0" "hs_daemon d"
    using stopper_stepI [OF stopper_step.p_load [OF c(2)]] c(4,5) by fastforce
  obtain e where e: "handshake_step\<^sup>*\<^sup>* d e" "hs_stopper e = (hs_stopper d)(1 := P_Stop True)" "hs_stops e = 0"
    using load_step [of d 1] d(2-4) c(3) by auto
  obtain f where f: "handshake_step\<^sup>*\<^sup>* e f" "hs_stopper f = (hs_stopper e)(0 := P_Store)" "hs_stops f = 1"
    using stop_step [of e 0] e(2,3) d(2) by auto
  obtain g where g: "handshake_step\<^sup>*\<^sup>* f g" "hs_stops g = 2" using stop_step [of f 1] f(2,3) e(2) by auto
  have "handshake_step\<^sup>*\<^sup>* handshake_start g"
    using handshake_trans [OF a(1) handshake_trans [OF b(1) handshake_trans [OF c(1) handshake_trans [OF d(1)
      handshake_trans [OF e(1) handshake_trans [OF f(1) g(1)]]]]]] .
  then show ?thesis using g(2) by blast
qed

text \<open>A second \<^verbatim>\<open>start\<close> on a running server loses the daemon of the first.  When libmicrohttpd refuses it, the
  handle is overwritten with null while the flag stays true, and a later \<^verbatim>\<open>stop\<close> reports success although the
  first daemon is still serving.\<close>

theorem second_start_loses_daemon:
  assumes "cfg_start_method c = INTERNAL_SELECT"
    "start build (\<lambda>fl p iov a. Some h) reg c False (make_daemon_lifecycle c) = (out1, s1)"
    "start build (\<lambda>fl p iov a. None) reg c False s1 = (out2, s2)" "stop s2 = (stopped, fds, s3)"
  shows "out1 = Start_Returns False \<and> daemon s1 = Some h \<and> (\<exists>x. out2 = Start_Throws x) \<and> daemon s2 = None \<and> running s2 \<and>
    stopped \<and> h \<in> set (live s3)"
  using assms by (auto simp: start_def stop_def make_daemon_lifecycle_def Let_def)

theorem second_start_loses_daemon_witness:
  "\<exists>out1 out2 s1 s2 s3 fds. start some_build (\<lambda>fl p iov a. Some 7) ([] :: unit ws_registry) (default_config some_build :: unit webserver_config)
       False (make_daemon_lifecycle (default_config some_build :: unit webserver_config)) = (out1, s1) \<and>
     start some_build (\<lambda>fl p iov a. None) ([] :: unit ws_registry) (default_config some_build :: unit webserver_config) False s1 = (out2, s2) \<and>
     stop s2 = (True, fds, s3) \<and> 7 \<in> set (live s3)"
proof -
  let ?c = "default_config some_build :: unit webserver_config"
  obtain out1 s1 where 1: "start some_build (\<lambda>fl p iov a. Some 7) ([] :: unit ws_registry) ?c False (make_daemon_lifecycle ?c) = (out1, s1)"
    by fastforce
  obtain out2 s2 where 2: "start some_build (\<lambda>fl p iov a. None) ([] :: unit ws_registry) ?c False s1 = (out2, s2)" by fastforce
  obtain b fds s3 where 3: "stop s2 = (b, fds, s3)" using prod_cases3 by blast
  have "cfg_start_method ?c = INTERNAL_SELECT" by (simp add: default_config_def)
  from second_start_loses_daemon [OF this 1 2 3] 1 2 3 show ?thesis by auto
qed



end
