(* ===== verification/Spec2Isabelle.thy ===== *)
theory Spec2Isabelle
  imports Plain_Server Daemon_Lifecycle Cookie
begin

text \<open>
  Verification of libhttpserver, a C++ library that embeds an HTTP server: a web server object keeps
  a table of routes, and for each request the daemon (libmicrohttpd, not part of the repository)
  calls back into the library, which canonicalises the path, resolves a resource, runs hooks and
  the user's handler and materialises a response.

  \<^item> \<^theory_text>\<open>Prelude\<close>: exceptions as values, the operations of \<^verbatim>\<open>std::string\<close>, shared lemmas.
  \<^item> \<^theory_text>\<open>String_Utilities\<close>: \<^verbatim>\<open>src/src/string_utilities.cpp\<close>, URL and upload file name helpers of
    \<^verbatim>\<open>src/src/http_utils.cpp\<close>, the percent decoder of \<^verbatim>\<open>detail/unescape_helpers.hpp\<close>.
\<close>

end
